(* ===== verification/Prelude.thy ===== *)
theory Prelude
  imports Main "HOL-Library.Word"
begin

text \<open>
  What every theory of the development shares: the types that Go values are modelled by,
  the \<open>named_theorems\<close> collections, and the interfaces (locales) that several components
  rely on.

  A Go \<open>string\<close> and a Go \<open>[]byte\<close> are both lists of bytes, and the code converts freely
  between them; both are \<open>string\<close>, whose \<open>char\<close> is one byte. A nil slice and an empty one
  are told apart only where the code does so (it never does in what is modelled here), so
  both are \<open>[]\<close>. A Go \<open>error\<close> is a value: a package variable that callers compare by
  identity (\<open>nats.ErrTimeout\<close>), or a freshly made error known by its text only.
\<close>

section \<open>Types\<close>

type_synonym bytes = string

datatype go_error =
    ErrVar string    \<comment> \<open>a package level variable, named by its text\<close>
  | ErrNew string    \<comment> \<open>made by \<open>fmt.Errorf\<close> or \<open>errors.New\<close> at run time\<close>

fun err_text :: "go_error \<Rightarrow> string" where
  "err_text (ErrVar s) = s"
| "err_text (ErrNew s) = s"

type_synonym 'a result = "go_error + 'a"

text \<open>\<open>time.Duration\<close> is an \<open>int64\<close> count of nanoseconds; arithmetic on it wraps.\<close>

type_synonym duration = "64 word"

section \<open>Collections\<close>

text \<open>
  \<open>go_simps\<close>: what the modelled standard library functions compute. \<open>inv_simps\<close>: the
  unfoldings of the components' invariants. \<open>frame_simps\<close>: the fields an operation leaves
  alone.
\<close>

named_theorems go_simps
named_theorems inv_simps
named_theorems frame_simps

section \<open>Generic lemmas\<close>

lemma list_all_append_iff [go_simps]: "list_all P (xs @ ys) \<longleftrightarrow> list_all P xs \<and> list_all P ys"
  by simp

lemma snoc_suffix_unique:
  assumes "c \<notin> set q" "c \<notin> set q'" "p @ c # q = p' @ c # q'"
  shows "p = p' \<and> q = q'"
  using assms(3,1,2)
proof (induction p arbitrary: p')
  case Nil
  then show ?case by (cases p') auto
next
  case (Cons x p)
  then show ?case by (cases p') auto
qed

section \<open>Interfaces\<close>

text \<open>
  An encoder and its decoder: on the values \<open>ok\<close> admits, decoding undoes encoding. Distinct
  values then have distinct encodings, and codecs compose.
\<close>

locale codec =
  fixes enc :: "'a \<Rightarrow> 'b"
    and dec :: "'b \<Rightarrow> 'a option"
    and ok :: "'a \<Rightarrow> bool"
  assumes dec_enc: "ok x \<Longrightarrow> dec (enc x) = Some x"
begin

lemma enc_inj: "ok x \<Longrightarrow> ok y \<Longrightarrow> enc x = enc y \<Longrightarrow> x = y"
  using dec_enc by (metis option.inject)

lemma enc_inj_on: "inj_on enc {x. ok x}"
  by (rule inj_onI) (auto intro: enc_inj)

end

text \<open>A keyed store: a lookup sees the last value stored under its key and no other.\<close>

locale keyed_store =
  fixes look :: "'s \<Rightarrow> 'k \<Rightarrow> 'v option"
    and put :: "'k \<Rightarrow> 'v \<Rightarrow> 's \<Rightarrow> 's"
  assumes look_put: "look (put k v s) k' = (if k' = k then Some v else look s k')"
begin

lemma look_put_same: "look (put k v s) k = Some v"
  by (simp add: look_put)

lemma look_put_other: "k' \<noteq> k \<Longrightarrow> look (put k v s) k' = look s k'"
  by (simp add: look_put)

lemma put_preserves_values:
  assumes "\<And>k v. look s k = Some v \<Longrightarrow> P k v" "P k v"
  shows "look (put k v s) k' = Some v' \<Longrightarrow> P k' v'"
  using assms by (auto simp: look_put split: if_splits)

end

text \<open>
  A machine whose invariant holds at the start and is kept by every step: it holds in every
  state the machine reaches.
\<close>

locale invariant_machine =
  fixes start :: "'s \<Rightarrow> bool"
    and step :: "'s \<Rightarrow> 's \<Rightarrow> bool"
    and inv :: "'s \<Rightarrow> bool"
  assumes start_inv: "start s \<Longrightarrow> inv s"
    and step_inv: "inv s \<Longrightarrow> step s t \<Longrightarrow> inv t"
begin

lemma steps_inv: "step\<^sup>*\<^sup>* s t \<Longrightarrow> inv s \<Longrightarrow> inv t"
  by (induction rule: rtranclp_induct) (auto intro: step_inv)

lemma reachable_inv: "start s \<Longrightarrow> step\<^sup>*\<^sup>* s t \<Longrightarrow> inv t"
  using steps_inv start_inv by blast

end

end
