(* ===== verification/GoStd.thy ===== *)
theory GoStd
  imports Prelude
begin

text \<open>
  The functions of Go's standard library that the modelled code calls: byte search, splitting
  and joining of strings, \<open>path.Clean\<close> and \<open>path.Join\<close>, \<open>net.JoinHostPort\<close>, header value
  trimming, and arithmetic on \<open>time.Duration\<close>. They are written from the library's documented
  behaviour so that the components can call them by name.
\<close>

section \<open>Searching and slicing\<close>

text \<open>\<open>strings.LastIndexByte\<close>: the last position of the byte, -1 when there is none.\<close>

definition last_index_byte :: "string \<Rightarrow> char \<Rightarrow> int" where
  "last_index_byte s c =
     (case find (\<lambda>i. s ! i = c) (rev [0..<length s]) of None \<Rightarrow> -1 | Some i \<Rightarrow> int i)"

lemma last_index_byte_none:
  assumes "c \<notin> set s"
  shows "last_index_byte s c = -1"
proof -
  have "find (\<lambda>i. s ! i = c) (rev [0..<length s]) = None"
    using assms by (auto simp: find_None_iff)
  then show ?thesis by (simp add: last_index_byte_def)
qed

lemma find_rev_upt_last:
  assumes "i < n" "P i" "\<forall>j. i < j \<and> j < n \<longrightarrow> \<not> P j"
  shows "find P (rev [0..<n]) = Some i"
  using assms
proof (induction n)
  case 0
  then show ?case by simp
next
  case (Suc n)
  then show ?case by (cases "i = n") auto
qed

lemma last_index_byte_snoc:
  assumes "c \<notin> set q"
  shows "last_index_byte (p @ c # q) c = int (length p)"
proof -
  have "find (\<lambda>i. (p @ c # q) ! i = c) (rev [0..<length (p @ c # q)]) = Some (length p)"
  proof (rule find_rev_upt_last)
    show "\<forall>j. length p < j \<and> j < length (p @ c # q) \<longrightarrow> (p @ c # q) ! j \<noteq> c"
    proof (intro allI impI)
      fix j assume j: "length p < j \<and> j < length (p @ c # q)"
      then obtain k where "j = length p + Suc k" "k < length q"
        by (metis add_Suc_right add_diff_inverse_nat length_append less_imp_Suc_add
            list.size(4) nat_add_left_cancel_less not_less_eq add.right_neutral)
      then show "(p @ c # q) ! j \<noteq> c"
        using assms by (auto simp: nth_append in_set_conv_nth)
    qed
  qed simp_all
  then show ?thesis by (simp add: last_index_byte_def)
qed

text \<open>\<open>strings.ContainsAny\<close> and \<open>strings.HasSuffix\<close>-style tests on bytes.\<close>

definition contains_any :: "string \<Rightarrow> string \<Rightarrow> bool" where
  "contains_any s chars \<longleftrightarrow> list_ex (\<lambda>c. c \<in> set chars) s"

section \<open>Splitting and joining\<close>

text \<open>\<open>strings.Split\<close> with a one byte separator (never an empty result) and \<open>strings.Join\<close>.\<close>

fun split_on :: "char \<Rightarrow> string \<Rightarrow> string list" where
  "split_on c [] = [[]]"
| "split_on c (x # xs) =
     (if x = c then [] # split_on c xs
      else (case split_on c xs of [] \<Rightarrow> [[x]] | p # ps \<Rightarrow> (x # p) # ps))"

fun join_with :: "string \<Rightarrow> string list \<Rightarrow> string" where
  "join_with sep [] = []"
| "join_with sep [p] = p"
| "join_with sep (p # q # ps) = p @ sep @ join_with sep (q # ps)"

lemma split_on_nonempty [simp]: "split_on c s \<noteq> []"
  by (induction s) (auto split: list.splits)

lemma split_on_no_sep [go_simps]: "c \<notin> set s \<Longrightarrow> split_on c s = [s]"
  by (induction s) auto

lemma split_on_append [go_simps]: "c \<notin> set p \<Longrightarrow> split_on c (p @ c # q) = p # split_on c q"
  by (induction p) auto

lemma join_with_cons [go_simps]: "ps \<noteq> [] \<Longrightarrow> join_with sep (p # ps) = p @ sep @ join_with sep ps"
  by (cases ps) auto

lemma join_split: "join_with [c] (split_on c s) = s"
  by (induction s) (auto split: list.splits simp: go_simps; metis join_with_cons append_Cons
      append_Nil join_with.simps(2) list.exhaust split_on_nonempty)+

lemma split_join:
  "ps \<noteq> [] \<Longrightarrow> \<forall>p \<in> set ps. c \<notin> set p \<Longrightarrow> split_on c (join_with [c] ps) = ps"
  by (induction "[c]" ps rule: join_with.induct) (auto simp: go_simps)

lemma split_on_parts_free: "p \<in> set (split_on c s) \<Longrightarrow> c \<notin> set p"
  by (induction s arbitrary: p) (auto split: list.splits if_splits)

text \<open>Joining is a codec on non-empty lists whose parts do not hold the separator.\<close>

definition sep_free :: "char \<Rightarrow> string list \<Rightarrow> bool" where
  "sep_free c ps \<longleftrightarrow> ps \<noteq> [] \<and> list_all (\<lambda>p. c \<notin> set p) ps"

interpretation join_codec: codec "join_with [c]" "\<lambda>s. Some (split_on c s)" "sep_free c" for c
  by unfold_locales (simp add: sep_free_def split_join list_all_iff)

section \<open>Paths\<close>

text \<open>
  \<open>path.Clean\<close> on the segments of a path: \<open>.\<close> and empty segments go, \<open>..\<close> takes back the
  segment before it, and a \<open>..\<close> that nothing precedes stays in a relative path and goes in a
  rooted one. The stack is kept reversed.
\<close>

fun clean_segs :: "bool \<Rightarrow> string list \<Rightarrow> string list \<Rightarrow> string list" where
  "clean_segs rooted stack [] = rev stack"
| "clean_segs rooted stack (s # ss) =
     (if s = [] \<or> s = ''.'' then clean_segs rooted stack ss
      else if s = ''..'' then
        (case stack of
           [] \<Rightarrow> clean_segs rooted (if rooted then [] else [''..'']) ss
         | t # ts \<Rightarrow> if t = ''..'' then clean_segs rooted (''..'' # stack) ss
                     else clean_segs rooted ts ss)
      else clean_segs rooted (s # stack) ss)"

definition path_clean :: "string \<Rightarrow> string" where
  "path_clean p =
     (if p = [] then ''.''
      else if hd p = CHR ''/''
        then ''/'' @ join_with ''/'' (clean_segs True [] (split_on (CHR ''/'') (tl p)))
      else (case clean_segs False [] (split_on (CHR ''/'') p) of
              [] \<Rightarrow> ''.'' | ss \<Rightarrow> join_with ''/'' ss))"

text \<open>\<open>path.Join\<close>: leading empty elements are skipped, the others joined by a slash, and cleaned.\<close>

definition path_join :: "string list \<Rightarrow> string" where
  "path_join elems =
     (if list_all (\<lambda>e. e = []) elems then []
      else path_clean (join_with ''/'' (dropWhile (\<lambda>e. e = []) elems)))"

lemma path_clean_examples:
  "path_clean ''/a/./b//../c'' = ''/a/c''"
  "path_clean ''a/../..'' = ''..''"
  "path_clean ''/../a/'' = ''/a''"
  "path_join ['''', ''a'', '''', ''b''] = ''a/b''"
  by (simp_all add: path_clean_def path_join_def)

definition plain_seg :: "string \<Rightarrow> bool" where
  "plain_seg s \<longleftrightarrow> s \<noteq> [] \<and> s \<noteq> ''.'' \<and> s \<noteq> ''..'' \<and> CHR ''/'' \<notin> set s"

lemma clean_segs_plain:
  "list_all plain_seg ss \<Longrightarrow> clean_segs r st (ss @ ts) = clean_segs r (rev ss @ st) ts"
  by (induction ss arbitrary: st) (auto simp: plain_seg_def)

lemma path_clean_plain_seg: "plain_seg s \<Longrightarrow> path_clean s = s"
  by (cases s) (auto simp: path_clean_def plain_seg_def go_simps)

section \<open>Host and port\<close>

text \<open>\<open>net.JoinHostPort\<close>: a host that holds a colon or a percent sign is bracketed.\<close>

definition join_host_port :: "string \<Rightarrow> string \<Rightarrow> string" where
  "join_host_port host port =
     (if CHR '':'' \<in> set host \<or> CHR ''%'' \<in> set host
      then ''['' @ host @ '']:'' @ port else host @ '':'' @ port)"

section \<open>Trimming\<close>

text \<open>\<open>textproto.TrimString\<close> drops blanks, tabs, CR and LF at both ends.\<close>

definition ascii_space :: "char \<Rightarrow> bool" where
  "ascii_space c \<longleftrightarrow> c = CHR '' '' \<or> c = CHR 0x09 \<or> c = CHR 0x0A \<or> c = CHR 0x0D"

definition trim_string :: "string \<Rightarrow> string" where
  "trim_string s = rev (dropWhile ascii_space (rev (dropWhile ascii_space s)))"

lemma hd_dropWhile_rev: "dropWhile P (rev (dropWhile P (rev xs))) = [] \<or>
   \<not> P (hd (dropWhile P (rev (dropWhile P (rev xs)))))"
  by (metis hd_dropWhile)

lemma trim_string_hd: "trim_string s \<noteq> [] \<Longrightarrow> \<not> ascii_space (hd (trim_string s))"
proof -
  assume "trim_string s \<noteq> []"
  let ?t = "dropWhile ascii_space s"
  obtain u where u: "?t = trim_string s @ u"
    by (metis takeWhile_dropWhile_id rev_append rev_rev_ident trim_string_def)
  then have "hd (trim_string s) = hd ?t" "?t \<noteq> []"
    using \<open>trim_string s \<noteq> []\<close> by auto
  then show ?thesis by (metis hd_dropWhile)
qed

lemma trim_string_set: "set (trim_string s) \<subseteq> set s"
  unfolding trim_string_def by (metis set_dropWhileD set_rev subsetI)

lemma trim_string_empty_iff: "trim_string s = [] \<longleftrightarrow> list_all ascii_space s"
  unfolding trim_string_def rev_is_Nil_conv dropWhile_eq_Nil_conv set_rev list_all_iff
  by (metis dropWhile_eq_Nil_conv hd_dropWhile list.set_sel(1) set_dropWhileD)

text \<open>
  \<open>strings.TrimSpace\<close> drops the characters that are spaces to \<open>unicode.IsSpace\<close>, in UTF-8: no
  encoding begins or ends another, so each end is cut by its encodings as often as one is there.
\<close>

definition unicode_spaces :: "string list" where
  "unicode_spaces =
     [[CHR 0x09], [CHR 0x0A], [CHR 0x0B], [CHR 0x0C], [CHR 0x0D], [CHR 0x20],
      [CHR 0xC2, CHR 0x85], [CHR 0xC2, CHR 0xA0], [CHR 0xE1, CHR 0x9A, CHR 0x80]] @
     map (\<lambda>k. [CHR 0xE2, CHR 0x80, char_of (k :: nat)]) ([0x80..<0x8B] @ [0xA8, 0xA9, 0xAF]) @
     [[CHR 0xE2, CHR 0x81, CHR 0x9F], [CHR 0xE3, CHR 0x80, CHR 0x80]]"

lemma find_prefix_less:
  "find (\<lambda>p. p \<noteq> [] \<and> take (length p) s = p) ps = Some p \<Longrightarrow> length (drop (length p) s) < length s"
  by (cases s) (auto simp: find_Some_iff)

function skip_any :: "string list \<Rightarrow> string \<Rightarrow> string" where
  "skip_any ps s =
     (case find (\<lambda>p. p \<noteq> [] \<and> take (length p) s = p) ps of
        None \<Rightarrow> s
      | Some p \<Rightarrow> skip_any ps (drop (length p) s))"
  by pat_completeness auto
termination
  by (relation "measure (\<lambda>(ps, s). length s)") (auto dest: find_prefix_less)

declare skip_any.simps [simp del]

definition trim_space :: "string \<Rightarrow> string" where
  "trim_space s = rev (skip_any (map rev unicode_spaces) (rev (skip_any unicode_spaces s)))"

lemma trim_space_examples:
  "trim_space ([CHR 0xC2, CHR 0xA0] @ '' a b'' @ [CHR 0xE2, CHR 0x80, CHR 0xA8, CHR 0x0B]) = ''a b''"
  "trim_space [CHR 0x80, CHR 0xA0] = [CHR 0x80, CHR 0xA0]"
  by code_simp+

section \<open>Durations\<close>

definition millisecond :: duration where "millisecond = 1000000"
definition second :: duration where "second = 1000000000"

definition in_int64 :: "int \<Rightarrow> bool" where
  "in_int64 x \<longleftrightarrow> - (2 ^ 63) \<le> x \<and> x < 2 ^ 63"

lemma sint_of_int64 [go_simps]: "in_int64 x \<Longrightarrow> sint (word_of_int x :: duration) = x"
  by (simp add: sint_sbintrunc' in_int64_def signed_take_bit_int_eq_self)

lemma in_int64_sint: "in_int64 (sint (w :: duration))"
  using sint_greater_eq [of w] sint_less [of w] by (simp add: in_int64_def)

lemma sint_diff_int64:
  assumes "in_int64 (sint a - sint b)"
  shows "sint (a - b :: duration) = sint a - sint b"
proof -
  have "a - b = word_of_int (sint a - sint b)" by simp
  then show ?thesis using assms by (simp only: sint_of_int64)
qed

text \<open>\<open>time.Time.Sub\<close> saturates at the ends of the \<open>int64\<close> range; instants are nanoseconds.\<close>

definition time_sub :: "int \<Rightarrow> int \<Rightarrow> duration" where
  "time_sub a b = word_of_int (max (- (2 ^ 63)) (min (2 ^ 63 - 1) (a - b)))"

lemma sint_time_sub: "sint (time_sub a b) = max (- (2 ^ 63)) (min (2 ^ 63 - 1) (a - b))"
  unfolding time_sub_def by (rule sint_of_int64) (simp add: in_int64_def)

end
