(* ===== verification/Xid.thy ===== *)
theory Xid
  imports Prelude
begin

unbundle bit_operations_syntax

text \<open>
  The globally unique identifiers of \<open>github.com/rs/xid\<close> (vendored), which the connector uses
  as link ids and as the last token of a response subject: twelve bytes made of the time, the
  machine, the process and a counter that every call increments, printed as twenty characters
  of a base 32 alphabet.
\<close>

section \<open>Making an identifier\<close>

record xid_env =
  machineID :: "8 word \<times> 8 word \<times> 8 word"
  pid :: "64 word"

type_synonym xid = "8 word list"

text \<open>
  \<open>NewWithTime\<close>: the counter is a package variable, incremented atomically before use; it is
  passed in and returned. The seconds are truncated to 32 bits and the counter to 24.
\<close>

definition xid_new :: "xid_env \<Rightarrow> int \<Rightarrow> 32 word \<Rightarrow> xid \<times> 32 word" where
  "xid_new env unix_secs ctr =
     (let t = (word_of_int unix_secs :: 32 word);
          i = ctr + 1;
          (m0, m1, m2) = machineID env
      in ([ucast (drop_bit 24 t), ucast (drop_bit 16 t), ucast (drop_bit 8 t), ucast t,
           m0, m1, m2,
           ucast (drop_bit 8 (pid env)), ucast (pid env),
           ucast (drop_bit 16 i), ucast (drop_bit 8 i), ucast i], i))"

section \<open>Printing it\<close>

definition xid_encoding :: string where
  "xid_encoding = ''0123456789abcdefghijklmnopqrstuv''"

text \<open>The twenty five bit indices of \<open>encode\<close>, first character first.\<close>

fun xid_indices :: "xid \<Rightarrow> 8 word list" where
  "xid_indices [b0, b1, b2, b3, b4, b5, b6, b7, b8, b9, b10, b11] =
     [drop_bit 3 b0,
      drop_bit 6 b1 AND 0x1F OR push_bit 2 b0 AND 0x1F,
      drop_bit 1 b1 AND 0x1F,
      drop_bit 4 b2 AND 0x1F OR push_bit 4 b1 AND 0x1F,
      drop_bit 7 b3 OR push_bit 1 b2 AND 0x1F,
      drop_bit 2 b3 AND 0x1F,
      drop_bit 5 b4 OR push_bit 3 b3 AND 0x1F,
      b4 AND 0x1F,
      drop_bit 3 b5,
      drop_bit 6 b6 AND 0x1F OR push_bit 2 b5 AND 0x1F,
      drop_bit 1 b6 AND 0x1F,
      drop_bit 4 b7 AND 0x1F OR push_bit 4 b6 AND 0x1F,
      drop_bit 7 b8 OR push_bit 1 b7 AND 0x1F,
      drop_bit 2 b8 AND 0x1F,
      drop_bit 5 b9 OR push_bit 3 b8 AND 0x1F,
      b9 AND 0x1F,
      drop_bit 3 b10,
      drop_bit 6 b11 AND 0x1F OR push_bit 2 b10 AND 0x1F,
      drop_bit 1 b11 AND 0x1F,
      push_bit 4 b11 AND 0x1F]"
| "xid_indices _ = []"

definition xid_string :: "xid \<Rightarrow> string" where
  "xid_string i = map (\<lambda>k. xid_encoding ! unat k) (xid_indices i)"

text \<open>The inverse that \<open>decode\<close> computes, on indices.\<close>

fun xid_unindices :: "8 word list \<Rightarrow> xid option" where
  "xid_unindices [s0, s1, s2, s3, s4, s5, s6, s7, s8, s9, s10, s11, s12, s13, s14, s15, s16,
      s17, s18, s19] =
     Some [push_bit 3 s0 OR drop_bit 2 s1,
       push_bit 6 s1 OR push_bit 1 s2 OR drop_bit 4 s3,
       push_bit 4 s3 OR drop_bit 1 s4,
       push_bit 7 s4 OR push_bit 2 s5 OR drop_bit 3 s6,
       push_bit 5 s6 OR s7,
       push_bit 3 s8 OR drop_bit 2 s9,
       push_bit 6 s9 OR push_bit 1 s10 OR drop_bit 4 s11,
       push_bit 4 s11 OR drop_bit 1 s12,
       push_bit 7 s12 OR push_bit 2 s13 OR drop_bit 3 s14,
       push_bit 5 s14 OR s15,
       push_bit 3 s16 OR drop_bit 2 s17,
       push_bit 6 s17 OR push_bit 1 s18 OR drop_bit 4 s19]"
| "xid_unindices _ = None"

lemma byte_eqI:
  assumes "bit a 0 = bit b 0" "bit a 1 = bit b 1" "bit a 2 = bit b 2" "bit a 3 = bit b 3"
    "bit a 4 = bit b 4" "bit a 5 = bit b 5" "bit a 6 = bit b 6" "bit a 7 = bit b 7"
  shows "a = (b :: 8 word)"
proof (rule bit_word_eqI)
  fix n assume "n < LENGTH(8)"
  then have "n \<in> {0, 1, 2, 3, 4, 5, 6, 7}" by auto
  then show "bit a n = bit b n" using assms by auto
qed

lemma mask5_bit: "bit (0x1F :: 8 word) n \<longleftrightarrow> n < 5"
proof -
  have eq: "(0x1F :: 8 word) = mask 5" by (simp add: mask_eq_exp_minus_1)
  show ?thesis unfolding eq bit_mask_iff possible_bit_word by auto
qed

lemma byte_bit_high: "8 \<le> n \<Longrightarrow> \<not> bit (a :: 8 word) n"
  using bit_imp_le_length [of a n] by auto

lemma xid_unindices_indices:
  assumes "length i = 12"
  shows "xid_unindices (xid_indices i) = Some i"
proof -
  obtain b0 b1 b2 b3 b4 b5 b6 b7 b8 b9 b10 b11
    where i: "i = [b0, b1, b2, b3, b4, b5, b6, b7, b8, b9, b10, b11]"
    using assms by (auto simp: numeral_eq_Suc length_Suc_conv)
  show ?thesis
    unfolding i xid_indices.simps xid_unindices.simps
    by (simp only: option.inject list.inject simp_thms, intro conjI)
      (rule byte_eqI;
       simp only: bit_or_iff bit_and_iff mask5_bit bit_push_bit_iff bit_drop_bit_eq comp_def;
       simp add: byte_bit_high numeral_eq_Suc)+
qed

lemma xid_indices_masked:
  assumes "k \<in> set (xid_indices i)"
  shows "k AND 0x1F = k"
proof (cases i rule: xid_indices.cases)
  case (1 b0 b1 b2 b3 b4 b5 b6 b7 b8 b9 b10 b11)
  have "\<forall>k \<in> set (xid_indices i). k AND 0x1F = k"
    unfolding 1 xid_indices.simps list.set ball_simps
    by (intro conjI TrueI; rule byte_eqI;
        simp only: bit_or_iff bit_and_iff mask5_bit bit_push_bit_iff bit_drop_bit_eq comp_def;
        simp add: byte_bit_high)
  then show ?thesis using assms by blast
qed (use assms in auto)

lemma xid_indices_bound: "k \<in> set (xid_indices i) \<Longrightarrow> unat k < 32"
proof -
  assume "k \<in> set (xid_indices i)"
  then have "k \<le> 0x1F" using xid_indices_masked word_and_le1 [of k "0x1F"] by metis
  then show ?thesis by (simp add: word_le_nat_alt)
qed

lemma length_xid_indices: "length i = 12 \<Longrightarrow> length (xid_indices i) = 20"
  by (auto simp: numeral_eq_Suc length_Suc_conv)

lemma xid_string_length: "length i = 12 \<Longrightarrow> length (xid_string i) = 20"
  by (simp add: xid_string_def length_xid_indices)

lemma length_xid_encoding: "length xid_encoding = 32"
  by (simp add: xid_encoding_def)

lemma xid_string_alphabet: "c \<in> set (xid_string i) \<Longrightarrow> c \<in> set xid_encoding"
  by (auto simp: xid_string_def length_xid_encoding dest!: xid_indices_bound intro!: nth_mem)

lemma xid_string_no_dot: "CHR ''.'' \<notin> set (xid_string i)"
  using xid_string_alphabet [of "CHR ''.''" i] by (auto simp: xid_encoding_def)

lemma xid_char_inj:
  assumes "unat a < 32" "unat b < 32" "xid_encoding ! unat a = xid_encoding ! unat b"
  shows "a = b"
proof -
  have "distinct xid_encoding" "length xid_encoding = 32" by (simp_all add: xid_encoding_def)
  then have "unat a = unat b" using assms by (simp add: nth_eq_iff_index_eq)
  then show ?thesis by (simp add: word_unat_eq_iff)
qed

text \<open>The printed form is a code: it determines the identifier.\<close>

lemma xid_string_indices: "xid_string i = xid_string j \<Longrightarrow> xid_indices i = xid_indices j"
  unfolding xid_string_def
  by (erule map_inj_on) (auto intro!: inj_onI intro: xid_char_inj dest: xid_indices_bound)

lemma xid_string_inj: "length i = 12 \<Longrightarrow> length j = 12 \<Longrightarrow> xid_string i = xid_string j \<Longrightarrow> i = j"
  by (metis xid_string_indices xid_unindices_indices option.inject)

section \<open>Distinct calls\<close>

lemma length_xid_new: "length (fst (xid_new env t ctr)) = 12"
  by (simp add: xid_new_def Let_def split: prod.splits)

definition counter24 :: "32 word \<Rightarrow> 8 word list" where
  "counter24 i = [ucast (drop_bit 16 i), ucast (drop_bit 8 i), ucast i]"

lemma xid_new_counter: "drop 9 (fst (xid_new env t ctr)) = counter24 (ctr + 1)"
  by (simp add: xid_new_def counter24_def Let_def split: prod.splits)

lemma counter24_take_bit:
  assumes "counter24 a = counter24 b"
  shows "take_bit 24 a = take_bit 24 b"
proof (rule bit_eqI)
  fix n
  have hi: "(ucast (drop_bit 16 a) :: 8 word) = ucast (drop_bit 16 b)"
    and mid: "(ucast (drop_bit 8 a) :: 8 word) = ucast (drop_bit 8 b)"
    and lo: "(ucast a :: 8 word) = ucast b"
    using assms by (simp_all add: counter24_def)
  have "bit a n = bit b n" if n24: "n < 24"
  proof -
    consider "n < 8" | "8 \<le> n" "n < 16" | "16 \<le> n" "n < 24" using n24 by linarith
    then show ?thesis
    proof cases
      case 1
      with arg_cong [OF lo, of "\<lambda>w. bit w n"] show ?thesis by (simp add: bit_simps)
    next
      case 2
      with arg_cong [OF mid, of "\<lambda>w. bit w (n - 8)"] have "bit a n = bit b n \<or> \<not> n - 8 < 8"
        by (auto simp: bit_simps)
      moreover have "n - 8 < 8" using 2 by linarith
      ultimately show ?thesis by simp
    next
      case 3
      with arg_cong [OF hi, of "\<lambda>w. bit w (n - 16)"] have "bit a n = bit b n \<or> \<not> n - 16 < 8"
        by (auto simp: bit_simps)
      moreover have "n - 16 < 8" using 3 by linarith
      ultimately show ?thesis by simp
    qed
  qed
  then show "bit (take_bit 24 a) n = bit (take_bit 24 b) n" by (auto simp: bit_take_bit_iff)
qed

lemma counter24_steps:
  assumes "counter24 (c + of_nat i) = counter24 (c + of_nat j)" "i < 2 ^ 24" "j < 2 ^ 24"
  shows "i = j"
proof -
  have "unat (take_bit 24 (c + of_nat k)) = (unat c + k) mod 2 ^ 24" for k :: nat
    by (simp add: take_bit_eq_mod unat_mod unat_word_ariths unat_of_nat mod_mod_cancel mod_simps)
  with counter24_take_bit [OF assms(1)] have "(unat c + i) mod 2 ^ 24 = (unat c + j) mod 2 ^ 24"
    by metis
  then have "int ((unat c + i) mod 2 ^ 24) = int ((unat c + j) mod 2 ^ 24)" by (rule arg_cong)
  then have "(int (unat c) + int i) mod 2 ^ 24 = (int (unat c) + int j) mod 2 ^ 24"
    by (simp only: zmod_int of_nat_add of_nat_power of_nat_numeral)
  then have dvd: "2 ^ 24 dvd int i - int j" by (simp add: mod_eq_dvd_iff)
  have "\<bar>int i - int j\<bar> < 2 ^ 24" using assms(2,3) by auto
  with dvd have "int i - int j = 0" using zdvd_imp_le by (metis dvd_abs_iff linorder_not_less zero_less_abs_iff)
  then show ?thesis by simp
qed

text \<open>
  Two of the next \<open>2 ^ 24\<close> identifiers a process makes are never printed alike, whatever the
  clock says in between.
\<close>

lemma xid_string_distinct:
  assumes "i \<noteq> j" "i < 2 ^ 24" "j < 2 ^ 24"
  shows "xid_string (fst (xid_new env t (c + of_nat i))) \<noteq>
         xid_string (fst (xid_new env t' (c + of_nat j)))"
proof
  assume "xid_string (fst (xid_new env t (c + of_nat i))) =
          xid_string (fst (xid_new env t' (c + of_nat j)))"
  then have "fst (xid_new env t (c + of_nat i)) = fst (xid_new env t' (c + of_nat j))"
    by (rule xid_string_inj [OF length_xid_new length_xid_new])
  then have "counter24 (c + of_nat i + 1) = counter24 (c + of_nat j + 1)"
    by (metis xid_new_counter)
  then have "counter24 (c + 1 + of_nat i) = counter24 (c + 1 + of_nat j)"
    by (simp only: ac_simps)
  then show False using counter24_steps assms by blast
qed

section \<open>Properties\<close>

text \<open>Two different calls among any \<open>2 ^ 24\<close> successive ones of a process never print the same
  identifier, whatever the clock says at each of them, also when the 32 bit counter wraps around
  between them.\<close>

theorem xid_calls_distinct:
  assumes "i \<noteq> j" "i < 2 ^ 24" "j < 2 ^ 24"
  shows "xid_string (fst (xid_new env t (c + of_nat i))) \<noteq>
         xid_string (fst (xid_new env t' (c + of_nat j)))"
  by (rule xid_string_distinct [OF assms])

theorem xid_calls_distinct_witness:
  "xid_string (fst (xid_new \<lparr>machineID = (1, 2, 3), pid = 7\<rparr> 1700000000 (- 2 + of_nat 0))) \<noteq>
   xid_string (fst (xid_new \<lparr>machineID = (1, 2, 3), pid = 7\<rparr> 1600000000 (- 2 + of_nat 5)))"
  by (rule xid_calls_distinct) simp_all

end
