(* ===== verification/Shared.thy ===== *)
theory Shared
  imports GoStd Xid
begin

text \<open>
  Package \<open>pkg/shared\<close>: the constants and data types the connector, its client side and the
  demo servers exchange, the NATS subject names of a link, the license bucket paths and the
  callback endpoint.
\<close>

section \<open>Constants and types (connector.go, types.go)\<close>

definition Timeout :: duration where "Timeout = 10000 * second"

definition ConnectorAPIPathPrefix :: string where
  "ConnectorAPIPathPrefix = ''/api/v1/connector''"
definition ConnectorLinkAPIPath :: string where
  "ConnectorLinkAPIPath = ''/link''"
definition ConnectorCallbackAPIPath :: string where
  "ConnectorCallbackAPIPath = ''/link/callback''"

definition ConnectorLinkLifetime :: int where
  "ConnectorLinkLifetime = 10 * 60 * 1000000000"

definition ChartClusterConnector :: string where
  "ChartClusterConnector = ''cluster-connector''"
definition ConnectorLinkManifestBucket :: string where
  "ConnectorLinkManifestBucket = ''gs://connect.bytebuilders.link''"
definition ConnectorLinkHost :: string where
  "ConnectorLinkHost = ''https://connect.bytebuilders.link''"
definition LicenseBucket :: string where
  "LicenseBucket = ''licenses.appscode.com''"

record Link =
  Link_LinkID :: string
  Scripts :: "string \<rightharpoonup> string"

text \<open>Instants (\<open>time.Time\<close>) are nanoseconds since the epoch.\<close>

record LinkData =
  LinkData_LinkID :: string
  LinkData_ClusterID :: string
  NotAfter :: int
  LinkData_KubeConfig :: string

record User =
  User_Name :: string
  User_Email :: string

record UserValues =
  UV_User :: User
  UV_Token :: string

record ContainerImage =
  CI_Registry :: string
  CI_Repository :: string
  CI_Tag :: string

record ChartValues =
  CV_Image :: ContainerImage
  CV_User :: UserValues
  CV_LinkID :: string

record LinkRequest =
  KubeConfig :: string

record CallbackRequest =
  LinkID :: string
  ClusterID :: string

section \<open>Subject names (connector.go)\<close>

text \<open>
  The two implementations of the interface \<open>SubjectNames\<close>, each a struct that holds the link
  id. Every method returns the subject the hub side uses and the one the edge side uses.
\<close>

datatype names = CrossAccountNames string | SameAccountNames string

fun GetLinkID :: "names \<Rightarrow> string" where
  "GetLinkID (CrossAccountNames l) = l"
| "GetLinkID (SameAccountNames l) = l"

definition handler_prefix :: string where "handler_prefix = ''k8s.proxy.handler''"
definition resp_prefix :: string where "resp_prefix = ''k8s.proxy.resp''"

fun ProxyHandlerSubjects :: "names \<Rightarrow> string \<times> string" where
  "ProxyHandlerSubjects (CrossAccountNames l) = (handler_prefix @ ''.'' @ l, handler_prefix)"
| "ProxyHandlerSubjects (SameAccountNames l) =
     (let sub = handler_prefix @ ''.'' @ l in (sub, sub))"

text \<open>The response subjects for a given unique token, and for the next identifier made.\<close>

fun response_subjects :: "names \<Rightarrow> string \<Rightarrow> string \<times> string" where
  "response_subjects (CrossAccountNames l) uid =
     (resp_prefix @ ''.'' @ l @ ''.'' @ uid, resp_prefix @ ''.'' @ uid)"
| "response_subjects (SameAccountNames l) uid =
     (let sub = resp_prefix @ ''.'' @ l @ ''.'' @ uid in (sub, sub))"

definition ProxyResponseSubjects ::
    "xid_env \<Rightarrow> int \<Rightarrow> 32 word \<Rightarrow> names \<Rightarrow> (string \<times> string) \<times> 32 word" where
  "ProxyResponseSubjects env unix_secs ctr n =
     (let (uid, ctr') = xid_new env unix_secs ctr
      in (response_subjects n (xid_string uid), ctr'))"

subsection \<open>The contract of the names\<close>

text \<open>
  What the transport relies on: the hub's response subject determines the token, and the
  subjects of one token never are the subjects requests are published on.
\<close>

locale subject_names =
  fixes hub_request :: "'n \<Rightarrow> string"
    and hub_response :: "'n \<Rightarrow> string \<Rightarrow> string"
    and edge_response :: "'n \<Rightarrow> string \<Rightarrow> string"
    and token :: "string \<Rightarrow> bool"
  assumes hub_response_token:
      "token u \<Longrightarrow> token v \<Longrightarrow> hub_response n u = hub_response m v \<Longrightarrow> u = v"
    and edge_response_token:
      "token u \<Longrightarrow> token v \<Longrightarrow> edge_response n u = edge_response m v \<Longrightarrow> u = v"
    and request_not_response: "hub_request n \<noteq> hub_response m u"
begin

lemma response_routing:
  assumes "token u" "token v" "u \<noteq> v"
  shows "hub_response n u \<noteq> hub_response m v \<and> edge_response n u \<noteq> edge_response m v"
  using assms hub_response_token edge_response_token by blast

end

definition dot_free :: "string \<Rightarrow> bool" where
  "dot_free s \<longleftrightarrow> CHR ''.'' \<notin> set s"

lemma xid_string_dot_free [simp]: "dot_free (xid_string i)"
  by (simp add: dot_free_def xid_string_no_dot)

lemma dotted_suffix_unique:
  "dot_free u \<Longrightarrow> dot_free v \<Longrightarrow> p @ ''.'' @ u = q @ ''.'' @ v \<Longrightarrow> u = v"
  using snoc_suffix_unique [of "CHR ''.''" u v p q] by (simp add: dot_free_def)

lemma hub_response_shape:
  "fst (response_subjects n u) = (resp_prefix @ ''.'' @ GetLinkID n) @ ''.'' @ u"
  by (cases n) (simp_all add: Let_def)

lemma edge_response_shape: "\<exists>p. snd (response_subjects n u) = p @ ''.'' @ u"
proof (cases n)
  case (CrossAccountNames l)
  then show ?thesis by (auto intro: exI [of _ resp_prefix])
next
  case (SameAccountNames l)
  then show ?thesis by (auto simp: Let_def intro: exI [of _ "resp_prefix @ ''.'' @ l"])
qed

lemma hub_request_shape: "fst (ProxyHandlerSubjects n) = handler_prefix @ ''.'' @ GetLinkID n"
  by (cases n) (simp_all add: Let_def)

interpretation link_names: subject_names
  "\<lambda>n. fst (ProxyHandlerSubjects n)"
  "\<lambda>n u. fst (response_subjects n u)"
  "\<lambda>n u. snd (response_subjects n u)"
  dot_free
proof unfold_locales
  fix n m :: names and u v
  assume uv: "dot_free u" "dot_free v"
  show "u = v" if "fst (response_subjects n u) = fst (response_subjects m v)"
    using that dotted_suffix_unique [OF uv] unfolding hub_response_shape by blast
  show "u = v" if "snd (response_subjects n u) = snd (response_subjects m v)"
    using that dotted_suffix_unique [OF uv] edge_response_shape by metis
next
  fix n m :: names and u
  show "fst (ProxyHandlerSubjects n) \<noteq> fst (response_subjects m u)"
    unfolding hub_request_shape hub_response_shape by (simp add: handler_prefix_def resp_prefix_def)
qed

section \<open>License bucket paths (license.go)\<close>

definition Domain :: "string \<Rightarrow> string" where
  "Domain email =
     (let idx = last_index_byte email (CHR ''@'')
      in if idx = -1 then ''_missing_domain_'' else drop (nat (idx + 1)) email)"

definition EmailVerifiedPath :: "string \<Rightarrow> string \<Rightarrow> string" where
  "EmailVerifiedPath domain email = ''domains/'' @ domain @ ''/emails/'' @ email @ ''/verified''"

definition EmailTokenPath :: "string \<Rightarrow> string \<Rightarrow> string \<Rightarrow> string" where
  "EmailTokenPath domain email token =
     ''domains/'' @ domain @ ''/emails/'' @ email @ ''/tokens/'' @ token"

lemma Domain_at: "CHR ''@'' \<notin> set d \<Longrightarrow> Domain (u @ CHR ''@'' # d) = d"
  by (simp add: Domain_def last_index_byte_snoc Let_def nat_add_distrib)

lemma Domain_missing: "CHR ''@'' \<notin> set e \<Longrightarrow> Domain e = ''_missing_domain_''"
  by (simp add: Domain_def last_index_byte_none)

lemma EmailTokenPath_token_inj:
  "CHR ''/'' \<notin> set t \<Longrightarrow> CHR ''/'' \<notin> set t' \<Longrightarrow>
   EmailTokenPath d e t = EmailTokenPath d' e' t' \<Longrightarrow> t = t'"
  unfolding EmailTokenPath_def
  using snoc_suffix_unique [of "CHR ''/''" t t'
      "''domains/'' @ d @ ''/emails/'' @ e @ ''/tokens''"
      "''domains/'' @ d' @ ''/emails/'' @ e' @ ''/tokens''"] by simp

section \<open>The callback endpoint (connector.go)\<close>

text \<open>
  A parsed URL, as far as the endpoint needs it. \<open>info.APIServerAddress\<close> normalises and parses
  a non-empty override and otherwise takes the address of the QA or the production API server,
  by the build's \<open>EnforceLicense\<close>. Normalising and parsing (\<open>purell\<close>, \<open>net/url\<close>) is the
  parameter \<open>parse\<close>.
\<close>

record url =
  Scheme :: string
  Host :: string
  Path :: string

definition APIServerAddress :: "(string \<Rightarrow> url result) \<Rightarrow> bool \<Rightarrow> string \<Rightarrow> url result" where
  "APIServerAddress parse skip_verification override =
     (if override \<noteq> [] then parse override
      else Inr \<lparr>Scheme = ''https'',
                Host = (if skip_verification then ''api.appscode.ninja'' else ''api.appscode.com''),
                Path = []\<rparr>)"

text \<open>\<open>ConnectorCallbackEndpoint\<close> panics (\<open>Inl\<close>) on an address that does not parse.\<close>

definition ConnectorCallbackEndpoint ::
    "(string \<Rightarrow> url result) \<Rightarrow> bool \<Rightarrow> string \<Rightarrow> url result" where
  "ConnectorCallbackEndpoint parse skip_verification baseURL =
     (case APIServerAddress parse skip_verification baseURL of
        Inl err \<Rightarrow> Inl (ErrNew (''invalid url: '' @ baseURL @ '': '' @ err_text err))
      | Inr u \<Rightarrow> Inr (u\<lparr>Path := path_join
          [Path u, ConnectorAPIPathPrefix, ConnectorCallbackAPIPath]\<rparr>))"

text \<open>Whatever the base path, the joined path ends with the four fixed segments.\<close>

definition callback_segs :: "string list" where
  "callback_segs = [''api'', ''v1'', ''connector'', ''link'', ''callback'']"

lemma split_callback:
  "split_on (CHR ''/'') (p @ ''//api/v1/connector//link/callback'') =
   split_on (CHR ''/'') p @ ['''', ''api'', ''v1'', ''connector'', '''', ''link'', ''callback'']"
  by (induction p) (auto split: list.splits)

lemma clean_segs_callback:
  "clean_segs r st (['''', ''api'', ''v1'', ''connector'', '''', ''link'', ''callback'']) =
   rev st @ callback_segs"
  by (simp add: callback_segs_def)

lemma clean_segs_append:
  "clean_segs r st (xs @ ys) = clean_segs r (rev (clean_segs r st xs)) ys"
  by (induction r st xs rule: clean_segs.induct) (auto split: list.splits)

lemma clean_segs_nonempty:
  "[] \<notin> set st \<Longrightarrow> [] \<notin> set (clean_segs r st xs)"
  by (induction r st xs rule: clean_segs.induct) (auto split: list.splits if_splits)

text \<open>The cleaned base path, without the slash of the root.\<close>

definition base_dir :: "string \<Rightarrow> string" where
  "base_dir p = (if p = [] \<or> path_clean p = ''/'' then [] else path_clean p)"

lemma join_with_append [go_simps]:
  "xs \<noteq> [] \<Longrightarrow> ys \<noteq> [] \<Longrightarrow> join_with sep (xs @ ys) = join_with sep xs @ sep @ join_with sep ys"
  by (induction sep xs rule: join_with.induct) (auto simp: join_with_cons)

lemma join_with_Nil_iff: "[] \<notin> set xs \<Longrightarrow> join_with sep xs = [] \<longleftrightarrow> xs = []"
  by (cases xs rule: list.exhaust; cases "tl xs") auto

lemma callback_path_rooted:
  "path_join [CHR ''/'' # q, ConnectorAPIPathPrefix, ConnectorCallbackAPIPath] =
   base_dir (CHR ''/'' # q) @ ''/api/v1/connector/link/callback''"
proof -
  let ?cs = "clean_segs True [] (split_on (CHR ''/'') q)"
  have "path_join [CHR ''/'' # q, ConnectorAPIPathPrefix, ConnectorCallbackAPIPath] =
        path_clean (CHR ''/'' # q @ ''//api/v1/connector//link/callback'')"
    by (simp add: path_join_def ConnectorAPIPathPrefix_def ConnectorCallbackAPIPath_def)
  also have "\<dots> = ''/'' @ join_with ''/'' (?cs @ callback_segs)"
    using split_callback [of q] by (simp add: path_clean_def clean_segs_append callback_segs_def)
  also have "\<dots> = base_dir (CHR ''/'' # q) @ ''/api/v1/connector/link/callback''"
    using join_with_Nil_iff [OF clean_segs_nonempty [of "[]" True "split_on (CHR ''/'') q"]]
    by (cases "?cs = []")
      (auto simp: base_dir_def path_clean_def callback_segs_def join_with_append)
  finally show ?thesis .
qed

lemma callback_path_empty:
  "path_join [[], ConnectorAPIPathPrefix, ConnectorCallbackAPIPath] =
   ''/api/v1/connector/link/callback''"
  by (simp add: path_join_def path_clean_def ConnectorAPIPathPrefix_def
      ConnectorCallbackAPIPath_def)

lemma callback_path:
  "p = [] \<or> hd p = CHR ''/'' \<Longrightarrow>
   path_join [p, ConnectorAPIPathPrefix, ConnectorCallbackAPIPath] =
   base_dir p @ ''/api/v1/connector/link/callback''"
  using callback_path_rooted [of "tl p"] callback_path_empty
  by (cases p) (auto simp: base_dir_def)

section \<open>Properties\<close>

text \<open>Responses do not mix. For two different identifiers neither the subjects the hub side
  listens on nor the subjects the edge side answers on agree, whatever the links and the kinds of
  names; and no subject that requests are published on is one that responses are awaited on.\<close>

theorem responses_kept_apart:
  assumes "u = xid_string i" "v = xid_string j" "u \<noteq> v"
  shows "fst (response_subjects n u) \<noteq> fst (response_subjects m v) \<and>
    snd (response_subjects n u) \<noteq> snd (response_subjects m v) \<and>
    fst (ProxyHandlerSubjects n) \<noteq> fst (response_subjects m v)"
  using link_names.response_routing [of u v n m] link_names.request_not_response [of n m v] assms
  by simp

theorem responses_kept_apart_witness:
  "fst (response_subjects (SameAccountNames ''a'') (xid_string (replicate 12 0))) \<noteq>
     fst (response_subjects (CrossAccountNames ''a'') (xid_string (replicate 12 1))) \<and>
   snd (response_subjects (SameAccountNames ''a'') (xid_string (replicate 12 0))) \<noteq>
     snd (response_subjects (CrossAccountNames ''a'') (xid_string (replicate 12 1))) \<and>
   fst (ProxyHandlerSubjects (SameAccountNames ''a'')) \<noteq>
     fst (response_subjects (CrossAccountNames ''a'') (xid_string (replicate 12 1)))"
proof (rule responses_kept_apart [OF refl refl])
  show "xid_string (replicate 12 0) \<noteq> xid_string (replicate 12 1)"
    using xid_string_inj [of "replicate 12 0" "replicate 12 1"] by auto
qed

text \<open>The callback goes to the fixed path below the cleaned path of the server's address,
  whether or not the address ends with a slash and however many slashes and dots it holds: scheme
  and host are kept, and an address without a path gives the fixed path alone.\<close>

theorem callback_endpoint_path:
  assumes "APIServerAddress parse skip baseURL = Inr u" "Path u = [] \<or> hd (Path u) = CHR ''/''"
  shows "ConnectorCallbackEndpoint parse skip baseURL =
    Inr (u\<lparr>Path := base_dir (Path u) @ ''/api/v1/connector/link/callback''\<rparr>)"
  using callback_path [OF assms(2)] assms(1) by (simp add: ConnectorCallbackEndpoint_def)

theorem callback_endpoint_path_witness:
  "ConnectorCallbackEndpoint (\<lambda>_. Inr \<lparr>Scheme = ''https'', Host = ''h'', Path = ''/a/../b/''\<rparr>)
     False ''https://h/a/../b/'' =
   Inr \<lparr>Scheme = ''https'', Host = ''h'', Path = ''/b/api/v1/connector/link/callback''\<rparr>"
  using callback_endpoint_path [of "\<lambda>_. Inr \<lparr>Scheme = ''https'', Host = ''h'', Path = ''/a/../b/''\<rparr>"
      False "''https://h/a/../b/''" "\<lparr>Scheme = ''https'', Host = ''h'', Path = ''/a/../b/''\<rparr>"]
  by (simp add: APIServerAddress_def base_dir_def path_clean_def)

text \<open>The domain of an address is what follows its last at sign, and two license tokens are
  kept under different paths whatever the domains and addresses, as long as they hold no slash.\<close>

theorem license_paths:
  "(CHR ''@'' \<notin> set d \<longrightarrow> Domain (user @ ''@'' @ d) = d) \<and>
   (CHR ''@'' \<notin> set e \<longrightarrow> Domain e = ''_missing_domain_'') \<and>
   (CHR ''/'' \<notin> set t \<and> CHR ''/'' \<notin> set t' \<and> t \<noteq> t' \<longrightarrow>
      EmailTokenPath d1 e1 t \<noteq> EmailTokenPath d2 e2 t')"
  using Domain_at Domain_missing EmailTokenPath_token_inj by auto

theorem license_paths_witness:
  "Domain ''\"a@b\"@appscode.com'' = ''appscode.com'' \<and> Domain ''tamal'' = ''_missing_domain_'' \<and>
   EmailTokenPath ''x.com'' ''a@x.com'' ''t1'' \<noteq> EmailTokenPath ''x.com'' ''a@x.com'' ''t2''"
  using license_paths [of "''appscode.com''" "''\"a@b\"''" "''tamal''" "''t1''" "''t2''"
      "''x.com''" "''a@x.com''" "''x.com''" "''a@x.com''"] by simp

end
