(* ===== verification/TlsConfig.thy ===== *)
theory TlsConfig
  imports GoStd
begin

text \<open>
  \<open>pkg/transport/types.go\<close> and the TLS loading of \<open>pkg/transport/transport.go\<close>: the TLS options
  of a client configuration (client-go's \<open>transport.Config\<close>), the form of them that travels to
  the edge with each request (\<open>PersistableTLSConfig\<close>), and the \<open>tls.Config\<close> the edge builds
  from it. The code mutates the configuration it is given, so the operations return it.

  Files are read through a function from paths to contents or errors. Key pairs, certificate
  pools and PEM blocks are the business of Go's \<open>crypto\<close> packages; the three operations used
  are the fields of a record that the definitions take as an argument.
\<close>

section \<open>The client's configuration (client-go transport/config.go)\<close>

record TLSConfig =
  CAFile :: string
  CertFile :: string
  KeyFile :: string
  ReloadTLSFiles :: bool
  Insecure :: bool
  ServerName :: string
  CAData :: bytes
  CertData :: bytes
  KeyData :: bytes
  NextProtos :: "string list"
  GetCertHolder :: "nat option"   \<comment> \<open>a callback, by identity\<close>

record ImpersonationConfig =
  Imp_UserName :: string
  Imp_UID :: string
  Imp_Groups :: "string list"
  Imp_Extra :: "(string \<times> string list) list"

record 'rt Config =
  UserAgent :: string
  TLS :: TLSConfig
  Username :: string
  Password :: string
  BearerToken :: string
  BearerTokenFile :: string
  Impersonate :: ImpersonationConfig
  DisableCompression :: bool
  Transport :: "'rt option"
  WrapTransport :: "nat option"   \<comment> \<open>a wrapper function, by identity\<close>
  DialHolder :: "nat option"
  Proxy :: "nat option"

definition empty_TLS :: TLSConfig where
  "empty_TLS = \<lparr>CAFile = [], CertFile = [], KeyFile = [], ReloadTLSFiles = False,
     Insecure = False, ServerName = [], CAData = [], CertData = [], KeyData = [],
     NextProtos = [], GetCertHolder = None\<rparr>"

definition empty_Config :: "'rt Config" where
  "empty_Config = \<lparr>UserAgent = [], TLS = empty_TLS, Username = [], Password = [],
     BearerToken = [], BearerTokenFile = [],
     Impersonate = \<lparr>Imp_UserName = [], Imp_UID = [], Imp_Groups = [], Imp_Extra = []\<rparr>,
     DisableCompression = False, Transport = None, WrapTransport = None, DialHolder = None,
     Proxy = None\<rparr>"

definition HasCA :: "'rt Config \<Rightarrow> bool" where
  "HasCA c \<longleftrightarrow> length (CAData (TLS c)) > 0 \<or> length (CAFile (TLS c)) > 0"

definition HasBasicAuth :: "'rt Config \<Rightarrow> bool" where
  "HasBasicAuth c \<longleftrightarrow> length (Username c) \<noteq> 0"

definition HasTokenAuth :: "'rt Config \<Rightarrow> bool" where
  "HasTokenAuth c \<longleftrightarrow> length (BearerToken c) \<noteq> 0 \<or> length (BearerTokenFile c) \<noteq> 0"

definition HasCertAuth :: "'rt Config \<Rightarrow> bool" where
  "HasCertAuth c \<longleftrightarrow>
     (length (CertData (TLS c)) \<noteq> 0 \<or> length (CertFile (TLS c)) \<noteq> 0) \<and>
     (length (KeyData (TLS c)) \<noteq> 0 \<or> length (KeyFile (TLS c)) \<noteq> 0)"

definition HasCertCallback :: "'rt Config \<Rightarrow> bool" where
  "HasCertCallback c \<longleftrightarrow> GetCertHolder (TLS c) \<noteq> None"

section \<open>The environment\<close>

type_synonym file_system = "string \<Rightarrow> bytes result"   \<comment> \<open>\<open>os.ReadFile\<close>\<close>

record crypto =
  X509KeyPair :: "bytes \<Rightarrow> bytes \<Rightarrow> bytes result"
  AppendCertsFromPEM :: "bytes \<Rightarrow> bytes list"   \<comment> \<open>the certificates added, none on failure\<close>
  PemDecode :: "bytes \<Rightarrow> (string \<times> bool \<times> bytes) option \<times> bytes"
    \<comment> \<open>the block's type, whether it has headers, its bytes; and the rest\<close>
  ParseCertificate :: "bytes \<Rightarrow> bytes result"

section \<open>Loading files (transport.go)\<close>

text \<open>\<open>dataFromSliceOrFile\<close> returns an empty slice along with its error.\<close>

definition dataFromSliceOrFile :: "file_system \<Rightarrow> bytes \<Rightarrow> string \<Rightarrow> bytes \<times> go_error option" where
  "dataFromSliceOrFile fs data file =
     (if length data > 0 then (data, None)
      else if length file > 0 then
        (case fs file of Inl err \<Rightarrow> ([], Some err) | Inr fileData \<Rightarrow> (fileData, None))
      else ([], None))"

definition loadTLSFiles :: "file_system \<Rightarrow> 'rt Config \<Rightarrow> go_error option \<times> 'rt Config" where
  "loadTLSFiles fs c =
     (let (d, err) = dataFromSliceOrFile fs (CAData (TLS c)) (CAFile (TLS c));
          c1 = c\<lparr>TLS := (TLS c)\<lparr>CAData := d\<rparr>\<rparr>
      in case err of Some e \<Rightarrow> (Some e, c1) | None \<Rightarrow>
     let c2 = (if length (CertFile (TLS c1)) > 0 \<and> length (CertData (TLS c1)) = 0 \<and>
                  length (KeyFile (TLS c1)) > 0 \<and> length (KeyData (TLS c1)) = 0
               then c1\<lparr>TLS := (TLS c1)\<lparr>ReloadTLSFiles := True\<rparr>\<rparr> else c1);
         (d2, err2) = dataFromSliceOrFile fs (CertData (TLS c2)) (CertFile (TLS c2));
         c3 = c2\<lparr>TLS := (TLS c2)\<lparr>CertData := d2\<rparr>\<rparr>
     in case err2 of Some e \<Rightarrow> (Some e, c3) | None \<Rightarrow>
     let (d3, err3) = dataFromSliceOrFile fs (KeyData (TLS c3)) (KeyFile (TLS c3));
         c4 = c3\<lparr>TLS := (TLS c3)\<lparr>KeyData := d3\<rparr>\<rparr>
     in case err3 of Some e \<Rightarrow> (Some e, c4) | None \<Rightarrow> (None, c4))"

section \<open>The form that travels (types.go)\<close>

record PersistableTLSConfig =
  P_Insecure :: bool
  P_ServerName :: string
  P_CAData :: bytes
  P_CertData :: bytes
  P_KeyData :: bytes
  P_NextProtos :: "string list"

definition insecure_with_ca :: go_error where
  "insecure_with_ca =
     ErrNew ''specifying a root certificates file with the insecure flag is not allowed''"

definition no_tls_requested :: "'rt Config \<Rightarrow> bool" where
  "no_tls_requested c \<longleftrightarrow>
     \<not> HasCA c \<and> \<not> HasCertAuth c \<and> \<not> HasCertCallback c \<and> \<not> Insecure (TLS c) \<and>
     length (ServerName (TLS c)) \<le> 0 \<and> length (NextProtos (TLS c)) \<le> 0"

definition PersistableTLSConfigFor ::
    "file_system \<Rightarrow> crypto \<Rightarrow> 'rt Config \<Rightarrow> PersistableTLSConfig option result \<times> 'rt Config" where
  "PersistableTLSConfigFor fs cr c =
     (if no_tls_requested c then (Inr None, c)
      else if HasCA c \<and> Insecure (TLS c) then (Inl insecure_with_ca, c)
      else case loadTLSFiles fs c of
        (Some err, c') \<Rightarrow> (Inl err, c')
      | (None, c') \<Rightarrow>
          let tlsConfig = \<lparr>P_Insecure = Insecure (TLS c'), P_ServerName = ServerName (TLS c'),
                P_CAData = CAData (TLS c'), P_CertData = [], P_KeyData = [],
                P_NextProtos = NextProtos (TLS c')\<rparr>
          in if HasCertAuth c' \<and> \<not> ReloadTLSFiles (TLS c') then
               (case X509KeyPair cr (CertData (TLS c')) (KeyData (TLS c')) of
                  Inl err \<Rightarrow> (Inl err, c')
                | Inr _ \<Rightarrow> (Inr (Some (tlsConfig\<lparr>P_CertData := CertData (TLS c'),
                                             P_KeyData := KeyData (TLS c')\<rparr>)), c'))
             else (Inr (Some tlsConfig), c'))"

section \<open>The edge's configuration (types.go, transport.go)\<close>

definition P_HasCA :: "PersistableTLSConfig \<Rightarrow> bool" where
  "P_HasCA c \<longleftrightarrow> length (P_CAData c) > 0"

definition P_HasCertAuth :: "PersistableTLSConfig \<Rightarrow> bool" where
  "P_HasCertAuth c \<longleftrightarrow> length (P_CertData c) \<noteq> 0 \<and> length (P_KeyData c) \<noteq> 0"

text \<open>
  \<open>createErrorParsingCAData\<close> looks for the reason the pool took no certificate. It loops over
  the PEM blocks, and stops because \<open>pem.Decode\<close> leaves less than it was given.
\<close>

partial_function (option) createErrorParsingCAData :: "crypto \<Rightarrow> bytes \<Rightarrow> go_error option" where
  "createErrorParsingCAData cr pemCerts =
     (if length pemCerts > 0 then
        (case PemDecode cr pemCerts of
           (None, rest) \<Rightarrow> Some (ErrNew ''unable to parse bytes as PEM block'')
         | (Some (ty, has_headers, block), rest) \<Rightarrow>
             if ty \<noteq> ''CERTIFICATE'' \<or> has_headers then createErrorParsingCAData cr rest
             else (case ParseCertificate cr block of
                     Inl err \<Rightarrow> Some (ErrNew (''failed to parse certificate: '' @ err_text err))
                   | Inr _ \<Rightarrow> createErrorParsingCAData cr rest))
      else Some (ErrNew ''no valid certificate authority data seen''))"

text \<open>
  \<open>rootCertPool\<close>: the outer \<open>None\<close> is an error search that does not end; otherwise an error, no
  pool (use the system's), or the certificates of the pool.
\<close>

definition rootCertPool :: "crypto \<Rightarrow> bytes \<Rightarrow> bytes list option result option" where
  "rootCertPool cr caData =
     (if length caData = 0 then Some (Inr None)
      else let certs = AppendCertsFromPEM cr caData
           in if certs \<noteq> [] then Some (Inr (Some certs))
              else map_option Inl (createErrorParsingCAData cr caData))"

datatype tls_version = VersionTLS10 | VersionTLS11 | VersionTLS12 | VersionTLS13

record tls_Config =
  MinVersion :: tls_version
  InsecureSkipVerify :: bool
  T_ServerName :: string
  T_NextProtos :: "string list"
  RootCAs :: "bytes list option"
  Certificates :: "bytes list"

definition TLSConfigFor :: "crypto \<Rightarrow> PersistableTLSConfig \<Rightarrow> tls_Config option result option" where
  "TLSConfigFor cr c =
     (if \<not> P_HasCA c \<and> \<not> P_HasCertAuth c \<and> \<not> P_Insecure c \<and>
         length (P_ServerName c) \<le> 0 \<and> length (P_NextProtos c) \<le> 0 then Some (Inr None)
      else if P_HasCA c \<and> P_Insecure c then Some (Inl insecure_with_ca)
      else
        let tlsConfig = \<lparr>MinVersion = VersionTLS12, InsecureSkipVerify = P_Insecure c,
              T_ServerName = P_ServerName c, T_NextProtos = P_NextProtos c,
              RootCAs = None, Certificates = []\<rparr>;
            with_certs = (\<lambda>t. if P_HasCertAuth c then
                (case X509KeyPair cr (P_CertData c) (P_KeyData c) of
                   Inl err \<Rightarrow> Inl err
                 | Inr crt \<Rightarrow> Inr (Some (t\<lparr>Certificates := [crt]\<rparr>)))
              else Inr (Some t))
        in if P_HasCA c then
             (case rootCertPool cr (P_CAData c) of
                None \<Rightarrow> None
              | Some (Inl err) \<Rightarrow>
                  Some (Inl (ErrNew (''unable to load root certificates: '' @ err_text err)))
              | Some (Inr rootCAs) \<Rightarrow> Some (with_certs (tlsConfig\<lparr>RootCAs := rootCAs\<rparr>)))
           else Some (with_certs tlsConfig))"

section \<open>Loading: what it computes\<close>

text \<open>
  The content an option stands for: its data, else what its file holds. Loading succeeds when
  the three options resolve, and then stores what they resolve to; it records that the client
  certificate came from files only.
\<close>

definition resolve :: "file_system \<Rightarrow> bytes \<Rightarrow> string \<Rightarrow> bytes result" where
  "resolve fs data file = (if data \<noteq> [] then Inr data else if file \<noteq> [] then fs file else Inr [])"

definition cert_from_files :: "TLSConfig \<Rightarrow> bool" where
  "cert_from_files t \<longleftrightarrow> CertFile t \<noteq> [] \<and> CertData t = [] \<and> KeyFile t \<noteq> [] \<and> KeyData t = []"

definition loaded_TLS :: "TLSConfig \<Rightarrow> bytes \<Rightarrow> bytes \<Rightarrow> bytes \<Rightarrow> TLSConfig" where
  "loaded_TLS t ca cert key =
     t\<lparr>CAData := ca, CertData := cert, KeyData := key,
       ReloadTLSFiles := ReloadTLSFiles t \<or> cert_from_files t\<rparr>"

lemma dataFromSliceOrFile_resolve:
  "dataFromSliceOrFile fs data file =
     (case resolve fs data file of Inl err \<Rightarrow> ([], Some err) | Inr d \<Rightarrow> (d, None))"
  by (simp add: dataFromSliceOrFile_def resolve_def split: sum.splits)

lemma load_ok:
  assumes "resolve fs (CAData (TLS c)) (CAFile (TLS c)) = Inr ca"
    and "resolve fs (CertData (TLS c)) (CertFile (TLS c)) = Inr cert"
    and "resolve fs (KeyData (TLS c)) (KeyFile (TLS c)) = Inr key"
  shows "loadTLSFiles fs c = (None, c\<lparr>TLS := loaded_TLS (TLS c) ca cert key\<rparr>)"
  using assms by (cases "TLS c") (auto simp: loadTLSFiles_def dataFromSliceOrFile_resolve
      loaded_TLS_def cert_from_files_def Let_def)

lemma load_resolves:
  assumes "loadTLSFiles fs c = (None, c')"
  obtains ca cert key where
    "resolve fs (CAData (TLS c)) (CAFile (TLS c)) = Inr ca"
    "resolve fs (CertData (TLS c)) (CertFile (TLS c)) = Inr cert"
    "resolve fs (KeyData (TLS c)) (KeyFile (TLS c)) = Inr key"
    "c' = c\<lparr>TLS := loaded_TLS (TLS c) ca cert key\<rparr>"
proof -
  have "\<exists>ca cert key. resolve fs (CAData (TLS c)) (CAFile (TLS c)) = Inr ca \<and>
    resolve fs (CertData (TLS c)) (CertFile (TLS c)) = Inr cert \<and>
    resolve fs (KeyData (TLS c)) (KeyFile (TLS c)) = Inr key"
    using assms by (auto simp: loadTLSFiles_def dataFromSliceOrFile_resolve Let_def
        split: sum.splits if_splits)
  then obtain ca cert key where r: "resolve fs (CAData (TLS c)) (CAFile (TLS c)) = Inr ca"
    "resolve fs (CertData (TLS c)) (CertFile (TLS c)) = Inr cert"
    "resolve fs (KeyData (TLS c)) (KeyFile (TLS c)) = Inr key" by blast
  then show ?thesis using that load_ok [OF r] assms by simp
qed

lemma load_fails:
  assumes "loadTLSFiles fs c = (Some err, c')"
  shows "resolve fs (CAData (TLS c)) (CAFile (TLS c)) = Inl err \<or>
         resolve fs (CertData (TLS c)) (CertFile (TLS c)) = Inl err \<or>
         resolve fs (KeyData (TLS c)) (KeyFile (TLS c)) = Inl err"
  using assms by (auto simp: loadTLSFiles_def dataFromSliceOrFile_resolve Let_def
      split: sum.splits if_splits)

lemma load_frame [frame_simps]:
  assumes "loadTLSFiles fs c = (e, c')"
  shows "Insecure (TLS c') = Insecure (TLS c)" "ServerName (TLS c') = ServerName (TLS c)"
    "NextProtos (TLS c') = NextProtos (TLS c)" "Proxy c' = Proxy c"
    "DisableCompression c' = DisableCompression c" "CertFile (TLS c') = CertFile (TLS c)"
    "KeyFile (TLS c') = KeyFile (TLS c)" "CAFile (TLS c') = CAFile (TLS c)"
    "GetCertHolder (TLS c') = GetCertHolder (TLS c)"
  using assms by (auto simp: loadTLSFiles_def dataFromSliceOrFile_resolve Let_def
      split: sum.splits if_splits)

lemma load_keeps_rest:
  assumes "loadTLSFiles fs c = (e, c')"
  shows "c' = c\<lparr>TLS := TLS c'\<rparr>"
  using assms by (auto simp: loadTLSFiles_def dataFromSliceOrFile_resolve Let_def
      split: sum.splits if_splits)

lemma resolve_again: "resolve fs data file = Inr d \<Longrightarrow> resolve fs d file = Inr d"
  by (auto simp: resolve_def split: if_splits)

lemma load_idempotent:
  assumes "loadTLSFiles fs c = (None, c')"
  shows "loadTLSFiles fs c' = (None, c')"
proof -
  from assms obtain ca cert key where r:
    "resolve fs (CAData (TLS c)) (CAFile (TLS c)) = Inr ca"
    "resolve fs (CertData (TLS c)) (CertFile (TLS c)) = Inr cert"
    "resolve fs (KeyData (TLS c)) (KeyFile (TLS c)) = Inr key"
    and c': "c' = c\<lparr>TLS := loaded_TLS (TLS c) ca cert key\<rparr>" by (rule load_resolves)
  have "loadTLSFiles fs c' = (None, c'\<lparr>TLS := loaded_TLS (TLS c') ca cert key\<rparr>)"
    by (rule load_ok) (use r in \<open>simp_all add: c' loaded_TLS_def resolve_again\<close>)
  moreover have "ReloadTLSFiles (TLS c) \<or> cert_from_files (TLS c) \<or> \<not> cert_from_files (TLS c')"
    using r by (auto simp: c' loaded_TLS_def cert_from_files_def resolve_def split: if_splits)
  ultimately show ?thesis by (auto simp: c' loaded_TLS_def)
qed

section \<open>The travelling form: when there is one, and what it holds\<close>

lemma persist_none_iff: "fst (PersistableTLSConfigFor fs cr c) = Inr None \<longleftrightarrow> no_tls_requested c"
  by (auto simp: PersistableTLSConfigFor_def Let_def split: prod.splits option.splits sum.splits)

lemma persist_some:
  assumes "PersistableTLSConfigFor fs cr c = (Inr (Some p), c')"
  obtains "\<not> no_tls_requested c" "\<not> (HasCA c \<and> Insecure (TLS c))"
    "loadTLSFiles fs c = (None, c')"
    "P_Insecure p = Insecure (TLS c)" "P_ServerName p = ServerName (TLS c)"
    "P_CAData p = CAData (TLS c')" "P_NextProtos p = NextProtos (TLS c)"
    "if HasCertAuth c' \<and> \<not> ReloadTLSFiles (TLS c')
     then P_CertData p = CertData (TLS c') \<and> P_KeyData p = KeyData (TLS c') \<and>
       (\<exists>crt. X509KeyPair cr (CertData (TLS c')) (KeyData (TLS c')) = Inr crt)
     else P_CertData p = [] \<and> P_KeyData p = []"
proof -
  from assms obtain "\<not> no_tls_requested c" "\<not> (HasCA c \<and> Insecure (TLS c))"
    and l: "loadTLSFiles fs c = (None, c')"
    by (auto simp: PersistableTLSConfigFor_def Let_def
        split: if_splits prod.splits option.splits sum.splits)
  with assms show ?thesis
    by (intro that) (auto simp: PersistableTLSConfigFor_def Let_def load_frame [OF l]
        split: if_splits sum.splits)
qed

lemma loaded_HasCA:
  assumes "loadTLSFiles fs c = (None, c')" "CAData (TLS c') \<noteq> []"
  shows "HasCA c"
proof -
  from assms(1) obtain ca cert key where
    r: "resolve fs (CAData (TLS c)) (CAFile (TLS c)) = Inr ca"
    and "c' = c\<lparr>TLS := loaded_TLS (TLS c) ca cert key\<rparr>" by (rule load_resolves)
  with assms(2) show ?thesis
    by (auto simp: HasCA_def loaded_TLS_def resolve_def split: if_splits)
qed

lemma persist_consistent:
  assumes "PersistableTLSConfigFor fs cr c = (Inr (Some p), c')"
  shows "\<not> (P_HasCA p \<and> P_Insecure p)"
    and "P_HasCertAuth p \<Longrightarrow> \<exists>crt. X509KeyPair cr (P_CertData p) (P_KeyData p) = Inr crt"
  using assms
  by (auto elim!: persist_some simp: P_HasCA_def P_HasCertAuth_def dest: loaded_HasCA
      split: if_splits)

section \<open>The edge's configuration: termination and shape\<close>

text \<open>The documented behaviour of \<open>pem.Decode\<close>: a block takes bytes from the input.\<close>

definition pem_consumes :: "crypto \<Rightarrow> bool" where
  "pem_consumes cr \<longleftrightarrow>
     (\<forall>d b rest. PemDecode cr d = (Some b, rest) \<longrightarrow> length rest < length d)"

lemma createErrorParsingCAData_total:
  assumes "pem_consumes cr"
  shows "\<exists>e. createErrorParsingCAData cr d = Some e"
proof (induction d rule: length_induct)
  case (1 d)
  have shorter: "\<exists>e. createErrorParsingCAData cr rest = Some e"
    if "PemDecode cr d = (Some b, rest)" for b rest
    using 1 that assms unfolding pem_consumes_def by blast
  show ?case
    by (subst createErrorParsingCAData.simps)
      (auto split: prod.splits option.splits sum.splits intro: shorter)
qed

lemma rootCertPool_total: "pem_consumes cr \<Longrightarrow> \<exists>r. rootCertPool cr d = Some r"
  using createErrorParsingCAData_total [of cr d] by (auto simp: rootCertPool_def Let_def)

lemma TLSConfigFor_total: "pem_consumes cr \<Longrightarrow> \<exists>r. TLSConfigFor cr p = Some r"
  using rootCertPool_total [of cr "P_CAData p"]
  by (auto simp: TLSConfigFor_def Let_def split: sum.splits)

lemma TLSConfigFor_shape:
  assumes "TLSConfigFor cr p = Some (Inr (Some t))"
  shows "MinVersion t = VersionTLS12" "InsecureSkipVerify t = P_Insecure p"
    "T_ServerName t = P_ServerName p" "T_NextProtos t = P_NextProtos p"
    "RootCAs t \<noteq> None \<longleftrightarrow> P_HasCA p" "Certificates t \<noteq> [] \<longleftrightarrow> P_HasCertAuth p"
    "\<not> (P_HasCA p \<and> P_Insecure p)"
  using assms by (auto simp: TLSConfigFor_def rootCertPool_def P_HasCA_def Let_def
      split: if_splits option.splits sum.splits)

lemma TLSConfigFor_error:
  assumes "TLSConfigFor cr p = Some (Inl e)"
    and "\<not> (P_HasCA p \<and> P_Insecure p)"
    and "P_HasCertAuth p \<Longrightarrow> \<exists>crt. X509KeyPair cr (P_CertData p) (P_KeyData p) = Inr crt"
  shows "P_HasCA p \<and> AppendCertsFromPEM cr (P_CAData p) = []"
  using assms by (auto simp: TLSConfigFor_def rootCertPool_def P_HasCA_def Let_def
      split: if_splits option.splits sum.splits)

section \<open>Properties\<close>

text \<open>C31: The edge accepts what the client sends. If the client could make the travelling form of
  its TLS options, then at the edge, where key pairs parse as they do at the client, building the
  TLS configuration returns; it can only fail because the certificate authority holds no
  certificate, and otherwise it has the options of the form: TLS 1.2 at least, the same
  verification, server name and protocols, a pool if and only if there is a certificate authority,
  a client certificate if and only if one travelled.\<close>

theorem persisted_options_accepted:
  assumes "PersistableTLSConfigFor fs cr c = (Inr (Some p), c')" "pem_consumes cr"
  shows "\<exists>r. TLSConfigFor cr p = Some r \<and>
    (case r of
       Inl e \<Rightarrow> P_HasCA p \<and> AppendCertsFromPEM cr (P_CAData p) = []
     | Inr None \<Rightarrow> \<not> P_HasCA p \<and> \<not> P_HasCertAuth p \<and> \<not> P_Insecure p \<and>
         P_ServerName p = [] \<and> P_NextProtos p = []
     | Inr (Some t) \<Rightarrow> MinVersion t = VersionTLS12 \<and> InsecureSkipVerify t = P_Insecure p \<and>
         T_ServerName t = P_ServerName p \<and> T_NextProtos t = P_NextProtos p \<and>
         (RootCAs t \<noteq> None \<longleftrightarrow> P_HasCA p) \<and> (Certificates t \<noteq> [] \<longleftrightarrow> P_HasCertAuth p))"
proof -
  obtain r where r: "TLSConfigFor cr p = Some r" using TLSConfigFor_total [OF assms(2)] by blast
  note pc = persist_consistent [OF assms(1)]
  show ?thesis
  proof (cases r)
    case (Inl e)
    then show ?thesis using r TLSConfigFor_error [OF _ pc, of e] by auto
  next
    case (Inr o1)
    show ?thesis
    proof (cases o1)
      case None
      then show ?thesis using r Inr
        by (auto simp: TLSConfigFor_def Let_def split: if_splits option.splits sum.splits)
    next
      case (Some t)
      then show ?thesis using r Inr TLSConfigFor_shape [of cr p t] by auto
    qed
  qed
qed

text \<open>A certificate authority and a server name, on a trivial certificate library.\<close>

definition sample_config :: "nat Config" where
  "sample_config = empty_Config\<lparr>TLS := empty_TLS\<lparr>CAData := ''ca'', ServerName := ''s''\<rparr>\<rparr>"

definition plain_crypto :: crypto where
  "plain_crypto = \<lparr>X509KeyPair = \<lambda>_ _. Inr [], AppendCertsFromPEM = \<lambda>d. [d],
     PemDecode = \<lambda>d. (None, d), ParseCertificate = \<lambda>d. Inr d\<rparr>"

lemma sample_persist: "PersistableTLSConfigFor (\<lambda>_. Inr []) plain_crypto sample_config =
    (Inr (Some \<lparr>P_Insecure = False, P_ServerName = ''s'', P_CAData = ''ca'', P_CertData = [],
       P_KeyData = [], P_NextProtos = []\<rparr>), sample_config)"
  by (simp add: PersistableTLSConfigFor_def sample_config_def empty_Config_def empty_TLS_def
      no_tls_requested_def HasCA_def HasCertAuth_def loadTLSFiles_def dataFromSliceOrFile_def
      Let_def)

lemma plain_crypto_consumes: "pem_consumes plain_crypto"
  by (simp add: pem_consumes_def plain_crypto_def)

theorem persisted_options_accepted_witness:
  "\<exists>r. TLSConfigFor plain_crypto \<lparr>P_Insecure = False, P_ServerName = ''s'', P_CAData = ''ca'',
      P_CertData = [], P_KeyData = [], P_NextProtos = []\<rparr> = Some r"
  using persisted_options_accepted [OF sample_persist plain_crypto_consumes] by blast

text \<open>C30: What travels to the edge. There is no travelling form exactly when no TLS option is set.
  Otherwise making it fails on insecure together with a certificate authority, on a file that does
  not read, or on a client certificate that is to travel and whose key pair does not parse, and
  nowhere else: when it succeeds none of these is the case, and it has
  the configuration's flags, the loaded certificate authority, and the client certificate only if
  it did not come from files alone.\<close>

theorem travelling_form:
  "case PersistableTLSConfigFor fs cr c of
     (Inr None, c') \<Rightarrow> no_tls_requested c \<and> c' = c
   | (Inr (Some p), c') \<Rightarrow> \<not> no_tls_requested c \<and> \<not> (HasCA c \<and> Insecure (TLS c)) \<and>
       loadTLSFiles fs c = (None, c') \<and>
       P_Insecure p = Insecure (TLS c) \<and> P_ServerName p = ServerName (TLS c) \<and>
       P_NextProtos p = NextProtos (TLS c) \<and>
       resolve fs (CAData (TLS c)) (CAFile (TLS c)) = Inr (P_CAData p) \<and>
       (\<exists>cert key. resolve fs (CertData (TLS c)) (CertFile (TLS c)) = Inr cert \<and>
          resolve fs (KeyData (TLS c)) (KeyFile (TLS c)) = Inr key \<and>
          (if HasCertAuth c' \<and> \<not> ReloadTLSFiles (TLS c) \<and> \<not> cert_from_files (TLS c)
           then P_CertData p = cert \<and> P_KeyData p = key \<and> (\<exists>crt. X509KeyPair cr cert key = Inr crt)
           else P_CertData p = [] \<and> P_KeyData p = []))
   | (Inl e, c') \<Rightarrow> \<not> no_tls_requested c \<and>
       (HasCA c \<and> Insecure (TLS c) \<and> e = insecure_with_ca \<and> c' = c \<or>
        \<not> (HasCA c \<and> Insecure (TLS c)) \<and> loadTLSFiles fs c = (Some e, c') \<and>
          (resolve fs (CAData (TLS c)) (CAFile (TLS c)) = Inl e \<or>
           resolve fs (CertData (TLS c)) (CertFile (TLS c)) = Inl e \<or>
           resolve fs (KeyData (TLS c)) (KeyFile (TLS c)) = Inl e) \<or>
        \<not> (HasCA c \<and> Insecure (TLS c)) \<and> loadTLSFiles fs c = (None, c') \<and>
          HasCertAuth c' \<and> \<not> ReloadTLSFiles (TLS c) \<and> \<not> cert_from_files (TLS c) \<and>
          X509KeyPair cr (CertData (TLS c')) (KeyData (TLS c')) = Inl e)"
proof (cases "PersistableTLSConfigFor fs cr c")
  case (Pair r c')
  have reload: "ReloadTLSFiles (TLS c') = (ReloadTLSFiles (TLS c) \<or> cert_from_files (TLS c))"
    if l: "loadTLSFiles fs c = (None, c')"
    by (rule load_resolves [OF l]) (simp add: loaded_TLS_def)
  consider (err) e where "r = Inl e" | (none) "r = Inr None" | (some) p where "r = Inr (Some p)"
    by (cases r) auto
  then show ?thesis
  proof cases
    case err
    then show ?thesis using Pair reload load_fails [of fs c]
      by (auto simp: PersistableTLSConfigFor_def Let_def
          split: if_splits prod.splits option.splits sum.splits)
  next
    case none
    then show ?thesis using Pair
      by (auto simp: PersistableTLSConfigFor_def Let_def
          split: if_splits prod.splits option.splits sum.splits)
  next
    case (some p)
    have pr: "PersistableTLSConfigFor fs cr c = (Inr (Some p), c')" using Pair some by simp
    from pr show ?thesis
    proof (rule persist_some)
      assume l: "loadTLSFiles fs c = (None, c')" and n: "\<not> no_tls_requested c"
        "\<not> (HasCA c \<and> Insecure (TLS c))"
      obtain ca cert key where res: "resolve fs (CAData (TLS c)) (CAFile (TLS c)) = Inr ca"
        "resolve fs (CertData (TLS c)) (CertFile (TLS c)) = Inr cert"
        "resolve fs (KeyData (TLS c)) (KeyFile (TLS c)) = Inr key"
        "c' = c\<lparr>TLS := loaded_TLS (TLS c) ca cert key\<rparr>" using load_resolves [OF l] .
      assume "P_Insecure p = Insecure (TLS c)" "P_ServerName p = ServerName (TLS c)"
        "P_CAData p = CAData (TLS c')" "P_NextProtos p = NextProtos (TLS c)"
        "if HasCertAuth c' \<and> \<not> ReloadTLSFiles (TLS c')
         then P_CertData p = CertData (TLS c') \<and> P_KeyData p = KeyData (TLS c') \<and>
           (\<exists>crt. X509KeyPair cr (CertData (TLS c')) (KeyData (TLS c')) = Inr crt)
         else P_CertData p = [] \<and> P_KeyData p = []"
      then show ?thesis using pr l n res by (auto simp: loaded_TLS_def split: if_splits)
    qed
  qed
qed

text \<open>A key pair that does not parse is refused.\<close>

theorem travelling_form_witness:
  "\<exists>e c'. PersistableTLSConfigFor (\<lambda>_. Inr []) (plain_crypto\<lparr>X509KeyPair := \<lambda>_ _. Inl (ErrNew ''bad'')\<rparr>)
     (sample_config\<lparr>TLS := (TLS sample_config)\<lparr>CertData := ''c'', KeyData := ''k''\<rparr>\<rparr>) = (Inl e, c')"
proof -
  let ?fs = "\<lambda>_. Inr []" and ?cr = "plain_crypto\<lparr>X509KeyPair := \<lambda>_ _. Inl (ErrNew ''bad'')\<rparr>"
  let ?c = "sample_config\<lparr>TLS := (TLS sample_config)\<lparr>CertData := ''c'', KeyData := ''k''\<rparr>\<rparr>"
  obtain r c' where p: "PersistableTLSConfigFor ?fs ?cr ?c = (r, c')" by (metis prod.exhaust)
  have n: "\<not> no_tls_requested ?c" "\<not> ReloadTLSFiles (TLS ?c)" "\<not> cert_from_files (TLS ?c)"
    by (simp_all add: no_tls_requested_def HasCA_def sample_config_def empty_Config_def empty_TLS_def
        cert_from_files_def)
  have h: "HasCertAuth c'" if "loadTLSFiles ?fs ?c = (None, c')"
    by (rule load_resolves [OF that]) (auto simp: loaded_TLS_def HasCertAuth_def resolve_def)
  show ?thesis
    using travelling_form [where fs = ?fs and cr = ?cr and c = ?c] n h unfolding p
    by (auto split: sum.splits option.splits)
qed

end
