(* ===== verification/TlsCache.thy ===== *)
theory TlsCache
  imports Shared TlsConfig
begin

text \<open>
  \<open>pkg/transport/cache.go\<close> and \<open>New\<close> of \<open>pkg/transport/transport.go\<close>: the process wide cache of
  NATS transports. A \<open>*NatsTransport\<close> is shared by everyone who gets it, so transports live in a
  store and the cache maps keys to addresses. The body of \<open>get\<close> that reads and writes the map
  runs under the cache's mutex: it is one atomic step from a cache state to the next.
\<close>

section \<open>Transports (nats.go, client-go round_trippers.go)\<close>

record NatsTransport =
  Conn :: "nat option"   \<comment> \<open>the connection, by identity; nil is \<open>None\<close>\<close>
  Names :: names
  NT_Timeout :: duration
  NT_DisableCompression :: bool
  NT_TLS :: "PersistableTLSConfig option"

datatype rt =
    NatsRT nat   \<comment> \<open>the address of a NATS transport\<close>
  | WrapRT nat rt
  | DebugRT rt
  | BearerRT string string rt
  | BasicRT string string rt
  | UserAgentRT string rt
  | ImpersonateRT ImpersonationConfig rt
  | DefaultRT
  | OtherRT nat

record wrap_env =
  debug_enabled :: bool   \<comment> \<open>\<open>klog.V(6).Enabled()\<close>\<close>
  read_token :: "string \<Rightarrow> string result"

definition DebugWrappers :: "wrap_env \<Rightarrow> rt \<Rightarrow> rt" where
  "DebugWrappers env rt = (if debug_enabled env then DebugRT rt else rt)"

definition NewBearerAuthWithRefreshRoundTripper ::
    "wrap_env \<Rightarrow> string \<Rightarrow> string \<Rightarrow> rt \<Rightarrow> rt result" where
  "NewBearerAuthWithRefreshRoundTripper env bearer tokenFile rt =
     (if length tokenFile = 0 then Inr (BearerRT bearer [] rt)
      else if length bearer = 0 then
        (case read_token env tokenFile of
           Inl err \<Rightarrow> Inl err
         | Inr token \<Rightarrow> Inr (BearerRT token tokenFile rt))
      else Inr (BearerRT bearer tokenFile rt))"

definition HTTPWrappersForConfig :: "wrap_env \<Rightarrow> rt Config \<Rightarrow> rt \<Rightarrow> rt result" where
  "HTTPWrappersForConfig env config rt0 =
     (let rt1 = (case WrapTransport config of Some w \<Rightarrow> WrapRT w rt0 | None \<Rightarrow> rt0);
          rt2 = DebugWrappers env rt1;
          auth =
            (if HasBasicAuth config \<and> HasTokenAuth config
             then Inl (ErrNew ''username/password or bearer token may be set, but not both'')
             else if HasTokenAuth config
             then NewBearerAuthWithRefreshRoundTripper env (BearerToken config)
                    (BearerTokenFile config) rt2
             else if HasBasicAuth config
             then Inr (BasicRT (Username config) (Password config) rt2)
             else Inr rt2)
      in case auth of
           Inl err \<Rightarrow> Inl err
         | Inr rt3 \<Rightarrow>
             let rt4 = (if length (UserAgent config) > 0 then UserAgentRT (UserAgent config) rt3
                        else rt3);
                 imp = Impersonate config
             in Inr (if length (Imp_UserName imp) > 0 \<or> length (Imp_UID imp) > 0 \<or>
                        length (Imp_Groups imp) > 0 \<or> length (Imp_Extra imp) > 0
                     then ImpersonateRT imp rt4 else rt4))"

text \<open>What a stack of wrappers ends in.\<close>

fun rt_base :: "rt \<Rightarrow> rt" where
  "rt_base (WrapRT _ r) = rt_base r"
| "rt_base (DebugRT r) = rt_base r"
| "rt_base (BearerRT _ _ r) = rt_base r"
| "rt_base (BasicRT _ _ r) = rt_base r"
| "rt_base (UserAgentRT _ r) = rt_base r"
| "rt_base (ImpersonateRT _ r) = rt_base r"
| "rt_base (NatsRT a) = NatsRT a"
| "rt_base DefaultRT = DefaultRT"
| "rt_base (OtherRT a) = OtherRT a"

section \<open>The cache (cache.go)\<close>

record tlsCacheKey =
  K_insecure :: bool
  K_caData :: string
  K_certData :: string
  K_keyData :: string
  K_certFile :: string
  K_keyFile :: string
  K_serverName :: string
  K_linkID :: string
  K_nextProtos :: string
  K_disableCompression :: bool

definition empty_key :: tlsCacheKey where
  "empty_key = \<lparr>K_insecure = False, K_caData = [], K_certData = [], K_keyData = [],
     K_certFile = [], K_keyFile = [], K_serverName = [], K_linkID = [], K_nextProtos = [],
     K_disableCompression = False\<rparr>"

text \<open>The printed form of a key; \<open>quote\<close> is the \<open>%#v\<close> form of a string.\<close>

definition go_bool :: "bool \<Rightarrow> string" where
  "go_bool b = (if b then ''true'' else ''false'')"

definition tlsCacheKey_String :: "(string \<Rightarrow> string) \<Rightarrow> tlsCacheKey \<Rightarrow> string" where
  "tlsCacheKey_String quote t =
     (let keyText = (if length (K_keyData t) > 0 then ''<redacted>'' else ''<none>'')
      in ''insecure:'' @ go_bool (K_insecure t) @ '', caData:'' @ quote (K_caData t) @
         '', certData:'' @ quote (K_certData t) @ '', keyData:'' @ keyText @
         '', serverName:'' @ K_serverName t @
         '', disableCompression:'' @ go_bool (K_disableCompression t))"

record tlsTransportCache =
  transports :: "tlsCacheKey \<rightharpoonup> nat"
  heap :: "nat \<rightharpoonup> NatsTransport"
  next_addr :: nat

definition empty_cache :: tlsTransportCache where
  "empty_cache = \<lparr>transports = Map.empty, heap = Map.empty, next_addr = 0\<rparr>"

definition config_key :: "'rt Config \<Rightarrow> names \<Rightarrow> tlsCacheKey" where
  "config_key c names =
     (let k = empty_key\<lparr>K_insecure := Insecure (TLS c), K_caData := CAData (TLS c),
                K_serverName := ServerName (TLS c), K_linkID := GetLinkID names,
                K_nextProtos := join_with '','' (NextProtos (TLS c)),
                K_disableCompression := DisableCompression c\<rparr>
      in if ReloadTLSFiles (TLS c)
         then k\<lparr>K_certFile := CertFile (TLS c), K_keyFile := KeyFile (TLS c)\<rparr>
         else k\<lparr>K_certData := CertData (TLS c), K_keyData := KeyData (TLS c)\<rparr>)"

definition tlsConfigKey ::
    "file_system \<Rightarrow> 'rt Config \<Rightarrow> names \<Rightarrow> (tlsCacheKey \<times> bool) result \<times> 'rt Config" where
  "tlsConfigKey fs c names =
     (case loadTLSFiles fs c of
        (Some err, c') \<Rightarrow> (Inl err, c')
      | (None, c') \<Rightarrow>
          if Proxy c' \<noteq> None then (Inr (empty_key, False), c')
          else (Inr (config_key c' names, True), c'))"

text \<open>Allocating a transport, and storing its address under a key.\<close>

definition alloc :: "NatsTransport \<Rightarrow> tlsTransportCache \<Rightarrow> nat \<times> tlsTransportCache" where
  "alloc t s = (next_addr s, s\<lparr>heap := (heap s)(next_addr s \<mapsto> t), next_addr := next_addr s + 1\<rparr>)"

definition put_transport :: "tlsCacheKey \<Rightarrow> nat \<Rightarrow> tlsTransportCache \<Rightarrow> tlsTransportCache" where
  "put_transport k a s = s\<lparr>transports := (transports s)(k \<mapsto> a)\<rparr>"

definition cache_get ::
    "file_system \<Rightarrow> crypto \<Rightarrow> 'rt Config \<Rightarrow> nat option \<Rightarrow> names \<Rightarrow> duration \<Rightarrow> tlsTransportCache \<Rightarrow>
     nat result \<times> 'rt Config \<times> tlsTransportCache" where
  "cache_get fs cr config nc names timeout s =
     (case tlsConfigKey fs config names of
        (Inl err, c1) \<Rightarrow> (Inl err, c1, s)
      | (Inr (key, canCache), c1) \<Rightarrow>
          case (if canCache then transports s key else None) of
            Some t \<Rightarrow> (Inr t, c1, s)
          | None \<Rightarrow>
              case PersistableTLSConfigFor fs cr c1 of
                (Inl err, c2) \<Rightarrow> (Inl err, c2, s)
              | (Inr tlsConfig, c2) \<Rightarrow>
                  let (a, s') = alloc \<lparr>Conn = nc, Names = names, NT_Timeout = timeout,
                        NT_DisableCompression = DisableCompression c2, NT_TLS = tlsConfig\<rparr> s
                  in (Inr a, c2, if canCache then put_transport key a s' else s'))"

text \<open>\<open>New\<close>: custom transports and proxies are refused, the rest is cached and wrapped.\<close>

definition New ::
    "wrap_env \<Rightarrow> file_system \<Rightarrow> crypto \<Rightarrow> rt Config \<Rightarrow> nat option \<Rightarrow> names \<Rightarrow> duration \<Rightarrow>
     tlsTransportCache \<Rightarrow> rt result \<times> rt Config \<times> tlsTransportCache" where
  "New env fs cr config nc names timeout s =
     (if Transport config \<noteq> None
      then (Inl (ErrNew ''using a custom transport is not allowed''), config, s)
      else if Proxy config \<noteq> None
      then (Inl (ErrNew ''using a custom proxy''), config, s)
      else case cache_get fs cr config nc names timeout s of
        (Inl err, c, s') \<Rightarrow> (Inl err, c, s')
      | (Inr a, c, s') \<Rightarrow> (HTTPWrappersForConfig env c (NatsRT a), c, s'))"

section \<open>The cache as a keyed store\<close>

interpretation cache_map: keyed_store transports put_transport
  by unfold_locales (simp add: put_transport_def)

lemma put_transport_frame [simp]:
  "heap (put_transport k a s) = heap s" "next_addr (put_transport k a s) = next_addr s"
  by (simp_all add: put_transport_def)

lemma alloc_simps [simp]:
  "fst (alloc t s) = next_addr s" "transports (snd (alloc t s)) = transports s"
  "heap (snd (alloc t s)) = (heap s)(next_addr s \<mapsto> t)"
  "next_addr (snd (alloc t s)) = next_addr s + 1"
  by (simp_all add: alloc_def)

section \<open>What a key determines\<close>

text \<open>
  The options the edge acts on. A certificate without a key, or a key without a certificate,
  has no effect there.
\<close>

definition eff :: "bytes \<Rightarrow> bytes \<Rightarrow> bytes \<times> bytes" where
  "eff cert key = (if cert \<noteq> [] \<and> key \<noteq> [] then (cert, key) else ([], []))"

type_synonym tls_view = "bool \<times> string \<times> bytes \<times> (bytes \<times> bytes) \<times> string"

fun tls_view :: "PersistableTLSConfig option \<Rightarrow> tls_view" where
  "tls_view None = (False, [], [], ([], []), [])"
| "tls_view (Some p) = (P_Insecure p, P_ServerName p, P_CAData p,
     eff (P_CertData p) (P_KeyData p), join_with '','' (P_NextProtos p))"

definition key_view :: "tlsCacheKey \<Rightarrow> tls_view" where
  "key_view k = (K_insecure k, K_serverName k, K_caData k,
     eff (K_certData k) (K_keyData k), K_nextProtos k)"

lemma config_key_view:
  "key_view (config_key c n) =
     (Insecure (TLS c), ServerName (TLS c), CAData (TLS c),
      (if ReloadTLSFiles (TLS c) then ([], []) else eff (CertData (TLS c)) (KeyData (TLS c))),
      join_with '','' (NextProtos (TLS c)))"
  by (simp add: key_view_def config_key_def empty_key_def eff_def Let_def)

lemma config_key_link: "K_linkID (config_key c n) = GetLinkID n"
  and config_key_compression: "K_disableCompression (config_key c n) = DisableCompression c"
  by (simp_all add: config_key_def Let_def)

lemma persist_view:
  assumes "loadTLSFiles fs c = (None, c)" "PersistableTLSConfigFor fs cr c = (Inr p, c')"
  shows "c' = c \<and> tls_view p = key_view (config_key c n)"
proof (cases p)
  case None
  with assms(2) have "no_tls_requested c" using persist_none_iff [of fs cr c] by simp
  with assms(2) None show ?thesis
    by (auto simp: PersistableTLSConfigFor_def no_tls_requested_def config_key_view eff_def
        HasCA_def HasCertAuth_def)
next
  case (Some q)
  with assms have "PersistableTLSConfigFor fs cr c = (Inr (Some q), c')" by simp
  then show ?thesis
  proof (rule persist_some)
    assume "loadTLSFiles fs c = (None, c')"
    with assms(1) have c': "c' = c" by simp
    assume q: "P_Insecure q = Insecure (TLS c)" "P_ServerName q = ServerName (TLS c)"
      "P_CAData q = CAData (TLS c')" "P_NextProtos q = NextProtos (TLS c)"
      "if HasCertAuth c' \<and> \<not> ReloadTLSFiles (TLS c')
       then P_CertData q = CertData (TLS c') \<and> P_KeyData q = KeyData (TLS c') \<and>
         (\<exists>crt. X509KeyPair cr (CertData (TLS c')) (KeyData (TLS c')) = Inr crt)
       else P_CertData q = [] \<and> P_KeyData q = []"
    then show ?thesis
      by (auto simp: Some c' config_key_view eff_def HasCertAuth_def split: if_splits)
  qed
qed

section \<open>The invariant\<close>

text \<open>
  Every cached address is allocated and holds a transport that has the key's link id, its
  compression setting and its TLS options; two keys never share a transport.
\<close>

definition serves :: "tlsCacheKey \<Rightarrow> NatsTransport \<Rightarrow> bool" where
  "serves k t \<longleftrightarrow> GetLinkID (Names t) = K_linkID k \<and>
     NT_DisableCompression t = K_disableCompression k \<and> tls_view (NT_TLS t) = key_view k"

definition cache_inv :: "tlsTransportCache \<Rightarrow> bool" where
  "cache_inv s \<longleftrightarrow>
     (\<forall>k a. transports s k = Some a \<longrightarrow> (\<exists>t. heap s a = Some t \<and> serves k t)) \<and>
     (\<forall>a. heap s a \<noteq> None \<longrightarrow> a < next_addr s) \<and>
     (\<forall>k k' a. transports s k = Some a \<and> transports s k' = Some a \<longrightarrow> k = k')"

lemma cache_inv_empty [simp]: "cache_inv empty_cache"
  by (simp add: cache_inv_def empty_cache_def)

lemma cache_invD:
  "cache_inv s \<Longrightarrow> transports s k = Some a \<Longrightarrow> \<exists>t. heap s a = Some t \<and> serves k t"
  by (auto simp: cache_inv_def)

lemma cache_inv_alloc: "cache_inv s \<Longrightarrow> cache_inv (snd (alloc t s))"
  unfolding cache_inv_def alloc_simps
  by (fastforce simp: less_Suc_eq)

lemma cache_inv_put:
  assumes "cache_inv s" "serves k t"
  shows "cache_inv (put_transport k (next_addr s) (snd (alloc t s)))"
proof -
  have fresh: "transports s k' \<noteq> Some (next_addr s)" for k'
    using assms(1) unfolding cache_inv_def by (metis less_irrefl option.distinct(1))
  show ?thesis
    using assms fresh unfolding cache_inv_def cache_map.look_put put_transport_frame alloc_simps
    by (auto simp: less_Suc_eq; metis option.distinct(1) less_irrefl)
qed

text \<open>The three ways \<open>get\<close> can return a transport.\<close>

lemma cache_get_cases:
  assumes "cache_get fs cr c nc n timeout s = (Inr a, c', s')"
  obtains
    (hit) c1 where "loadTLSFiles fs c = (None, c1)" "Proxy c = None"
      "transports s (config_key c1 n) = Some a" "s' = s" "c' = c1"
  | (miss) c1 p where "loadTLSFiles fs c = (None, c1)" "Proxy c = None"
      "transports s (config_key c1 n) = None" "PersistableTLSConfigFor fs cr c1 = (Inr p, c')"
      "a = next_addr s"
      "s' = put_transport (config_key c1 n) a (snd (alloc \<lparr>Conn = nc, Names = n,
         NT_Timeout = timeout, NT_DisableCompression = DisableCompression c', NT_TLS = p\<rparr> s))"
  | (uncached) c1 p where "loadTLSFiles fs c = (None, c1)" "Proxy c \<noteq> None"
      "PersistableTLSConfigFor fs cr c1 = (Inr p, c')" "a = next_addr s"
      "s' = snd (alloc \<lparr>Conn = nc, Names = n, NT_Timeout = timeout,
         NT_DisableCompression = DisableCompression c', NT_TLS = p\<rparr> s)"
proof -
  obtain c1 where l: "loadTLSFiles fs c = (None, c1)"
    using assms by (auto simp: cache_get_def tlsConfigKey_def split: prod.splits option.splits)
  have px: "Proxy c1 = Proxy c" by (rule load_frame(4) [OF l])
  show ?thesis
  proof (cases "Proxy c = None \<and> transports s (config_key c1 n) \<noteq> None")
    case True
    with assms l px show ?thesis
      by (intro hit) (auto simp: cache_get_def tlsConfigKey_def)
  next
    case False
    with assms l px obtain p where p: "PersistableTLSConfigFor fs cr c1 = (Inr p, c')"
      by (auto simp: cache_get_def tlsConfigKey_def Let_def split: prod.splits sum.splits if_splits
          option.splits)
    show ?thesis
    proof (cases "Proxy c = None")
      case True
      with False assms l px p show ?thesis
        by (intro miss [OF l _ _ p]) (auto simp: cache_get_def tlsConfigKey_def alloc_def Let_def)
    next
      case F: False
      with assms l px p show ?thesis
        by (intro uncached [OF l _ p]) (auto simp: cache_get_def tlsConfigKey_def alloc_def Let_def)
    qed
  qed
qed

section \<open>Every operation keeps the invariant and the transports it handed out\<close>

lemma cache_get_inv:
  assumes "cache_inv s" "cache_get fs cr c nc n timeout s = (Inr a, c', s')"
  shows "cache_inv s'"
  using assms(2)
proof (cases rule: cache_get_cases)
  case (hit c1)
  with assms(1) show ?thesis by simp
next
  case (miss c1 p)
  note pv = persist_view [OF load_idempotent [OF miss(1)] miss(4), of n]
  show ?thesis unfolding miss(5,6)
    by (rule cache_inv_put [OF assms(1)])
      (use pv in \<open>simp add: serves_def config_key_link config_key_compression\<close>)
next
  case (uncached c1 p)
  then show ?thesis using cache_inv_alloc [OF assms(1)] by simp
qed

lemma cache_get_error_unchanged:
  "cache_get fs cr c nc n timeout s = (Inl e, c', s') \<Longrightarrow> s' = s"
  by (auto simp: cache_get_def alloc_def Let_def split: sum.splits prod.splits if_splits option.splits)

lemma cache_get_keeps:
  assumes "cache_inv s" "cache_get fs cr c nc n timeout s = (r, c', s')"
  shows "heap s b = Some t \<Longrightarrow> heap s' b = Some t"
    and "transports s k = Some b \<Longrightarrow> transports s' k = Some b"
proof -
  have "(heap s b = Some t \<longrightarrow> heap s' b = Some t) \<and>
        (transports s k = Some b \<longrightarrow> transports s' k = Some b)"
  proof (cases r)
    case (Inl e)
    with assms(2) show ?thesis using cache_get_error_unchanged by blast
  next
    case (Inr a)
    with assms(2) have g: "cache_get fs cr c nc n timeout s = (Inr a, c', s')" by simp
    have old: "heap s b = Some t \<Longrightarrow> b \<noteq> next_addr s"
      using assms(1) by (auto simp: cache_inv_def)
    from g show ?thesis
      by (cases rule: cache_get_cases) (use old in \<open>auto simp: cache_map.look_put\<close>)
  qed
  then show "heap s b = Some t \<Longrightarrow> heap s' b = Some t"
    "transports s k = Some b \<Longrightarrow> transports s' k = Some b" by auto
qed

text \<open>
  What the caller gets: a transport of its own link, compression setting and TLS options.
\<close>

lemma cache_get_serves:
  assumes "cache_inv s" "cache_get fs cr c nc n timeout s = (Inr a, c', s')" "Proxy c = None"
  obtains t c1 where "loadTLSFiles fs c = (None, c1)" "heap s' a = Some t"
    "serves (config_key c1 n) t" "transports s' (config_key c1 n) = Some a"
  using assms(2)
proof (cases rule: cache_get_cases)
  case (hit c1)
  then show ?thesis using cache_invD [OF assms(1) hit(3)] that by auto
next
  case (miss c1 p)
  have "transports s' (config_key c1 n) = Some a"
    unfolding miss(5,6) by (rule cache_map.look_put_same)
  with cache_invD [OF cache_get_inv [OF assms(1,2)]] miss(1) show ?thesis using that by blast
next
  case (uncached c1 p)
  with assms(3) show ?thesis by simp
qed

lemma cache_get_again:
  assumes "transports s (config_key c1 n) = Some a" "loadTLSFiles fs c = (None, c1)"
    "Proxy c = None"
  shows "cache_get fs cr c nc n timeout s = (Inr a, c1, s)"
  using assms load_frame(4) [OF assms(2)] by (simp add: cache_get_def tlsConfigKey_def)

section \<open>The cache as a machine\<close>

text \<open>
  The process calls \<open>New\<close> any number of times, from any goroutine, with any configuration; files
  may change between calls. Each call is one step of the cache.
\<close>

inductive cache_step :: "tlsTransportCache \<Rightarrow> tlsTransportCache \<Rightarrow> bool" where
  new: "New env fs cr c nc n timeout s = (r, c', s') \<Longrightarrow> cache_step s s'"

inductive_cases cache_stepE: "cache_step s s'"

lemma New_effect:
  assumes "New env fs cr c nc n timeout s = (r, c', s')"
  shows "s' = s \<or> (\<exists>a. cache_get fs cr c nc n timeout s = (Inr a, c', s'))"
  using assms cache_get_error_unchanged
  by (auto simp: New_def split: if_splits prod.splits sum.splits)

interpretation cache_machine: invariant_machine "\<lambda>s. s = empty_cache" cache_step cache_inv
proof unfold_locales
  fix s t
  show "s = empty_cache \<Longrightarrow> cache_inv s" by simp
  assume "cache_inv s" "cache_step s t"
  then show "cache_inv t" using New_effect cache_get_inv by (metis cache_stepE)
qed

lemma cache_step_keeps:
  assumes "cache_inv s" "cache_step s t"
  shows "heap s b = Some x \<Longrightarrow> heap t b = Some x"
    "transports s k = Some b \<Longrightarrow> transports t k = Some b"
  using assms(2) New_effect cache_get_keeps [OF assms(1)] by (metis cache_stepE)+

lemma cache_steps_keep:
  "cache_step\<^sup>*\<^sup>* s t \<Longrightarrow> cache_inv s \<Longrightarrow> transports s k = Some b \<Longrightarrow>
   transports t k = Some b \<and> (\<forall>x. heap s b = Some x \<longrightarrow> heap t b = Some x)"
proof (induction rule: rtranclp_induct)
  case (step t u)
  have "cache_inv t" using cache_machine.steps_inv step.hyps(1) step.prems(1) .
  then show ?case using step cache_step_keeps by blast
qed simp

lemma rt_base_wrapped:
  assumes "HTTPWrappersForConfig env c (NatsRT a) = Inr w"
  shows "rt_base w = NatsRT a"
  using assms
  by (auto simp: HTTPWrappersForConfig_def DebugWrappers_def NewBearerAuthWithRefreshRoundTripper_def
      Let_def split: if_splits option.splits sum.splits)

lemma New_ok:
  assumes "New env fs cr c nc n timeout s = (Inr w, c', s')"
  obtains a where "cache_get fs cr c nc n timeout s = (Inr a, c', s')" "rt_base w = NatsRT a"
    "Transport c = None" "Proxy c = None"
  using assms rt_base_wrapped
  by (auto simp: New_def split: if_splits prod.splits sum.splits)

section \<open>The cache as a table of transports\<close>

text \<open>
  What the cache promises: a table from keys to transports, without addresses, in which a missing
  entry is made once and an error leaves everything as it was.
\<close>

definition memo_get ::
    "file_system \<Rightarrow> crypto \<Rightarrow> 'rt Config \<Rightarrow> nat option \<Rightarrow> names \<Rightarrow> duration \<Rightarrow>
     (tlsCacheKey \<rightharpoonup> NatsTransport) \<Rightarrow> NatsTransport result \<times> (tlsCacheKey \<rightharpoonup> NatsTransport)" where
  "memo_get fs cr c nc n timeout m =
     (case loadTLSFiles fs c of
        (Some err, _) \<Rightarrow> (Inl err, m)
      | (None, c1) \<Rightarrow>
          (case m (config_key c1 n) of
             Some t \<Rightarrow> (Inr t, m)
           | None \<Rightarrow>
               (case PersistableTLSConfigFor fs cr c1 of
                  (Inl err, _) \<Rightarrow> (Inl err, m)
                | (Inr p, _) \<Rightarrow>
                    (let t = \<lparr>Conn = nc, Names = n, NT_Timeout = timeout,
                           NT_DisableCompression = DisableCompression c, NT_TLS = p\<rparr>
                     in (Inr t, m(config_key c1 n \<mapsto> t))))))"

definition cache_table :: "tlsTransportCache \<Rightarrow> tlsCacheKey \<rightharpoonup> NatsTransport" where
  "cache_table s = (\<lambda>k. Option.bind (transports s k) (heap s))"

lemma cache_table_put:
  assumes "cache_inv s"
  shows "cache_table (put_transport k (next_addr s) (snd (alloc t s))) = (cache_table s)(k \<mapsto> t)"
proof
  fix k'
  have "transports s k' \<noteq> Some (next_addr s)"
    using assms unfolding cache_inv_def by (metis less_irrefl option.distinct(1))
  then show "cache_table (put_transport k (next_addr s) (snd (alloc t s))) k' =
      ((cache_table s)(k \<mapsto> t)) k'"
    by (cases "transports s k'") (simp_all add: cache_table_def cache_map.look_put)
qed

lemma cache_table_hit:
  "cache_inv s \<Longrightarrow> transports s k = Some a \<Longrightarrow> \<exists>t. heap s a = Some t \<and> cache_table s k = Some t"
  using cache_invD by (fastforce simp: cache_table_def)

lemma cache_get_table:
  assumes "cache_inv s" "Proxy c = None" "cache_get fs cr c nc n timeout s = (r, c', s')"
  shows "memo_get fs cr c nc n timeout (cache_table s) =
    (map_sum id (\<lambda>a. the (heap s' a)) r, cache_table s')"
proof (cases r)
  case (Inr a)
  with assms(3) have g: "cache_get fs cr c nc n timeout s = (Inr a, c', s')" by simp
  from g show ?thesis
  proof (cases rule: cache_get_cases)
    case (hit c1)
    with cache_table_hit [OF assms(1) hit(3)] Inr show ?thesis by (auto simp: memo_get_def)
  next
    case (miss c1 p)
    have "c' = c1" using persist_view [OF load_idempotent [OF miss(1)] miss(4), of n] by simp
    then have d: "DisableCompression c' = DisableCompression c" using load_frame(5) [OF miss(1)] by simp
    have "cache_table s (config_key c1 n) = None" using miss(3) by (simp add: cache_table_def)
    with miss(1,4) d show ?thesis
      by (simp add: memo_get_def Inr miss(5,6) cache_table_put [OF assms(1)] Let_def)
  next
    case (uncached c1 p)
    with assms(2) show ?thesis by simp
  qed
next
  case (Inl err)
  with assms(3) have g: "cache_get fs cr c nc n timeout s = (Inl err, c', s')" by simp
  have s': "s' = s" by (rule cache_get_error_unchanged [OF g])
  show ?thesis
  proof (cases "loadTLSFiles fs c")
    case (Pair e c1)
    show ?thesis
    proof (cases e)
      case None
      with Pair g assms(2) load_frame(4) [of fs c e c1] have
        "transports s (config_key c1 n) = None" "\<exists>c2. PersistableTLSConfigFor fs cr c1 = (Inl err, c2)"
        by (auto simp: cache_get_def tlsConfigKey_def alloc_def Let_def
            split: option.splits sum.splits prod.splits if_splits)
      with Pair None show ?thesis by (auto simp: memo_get_def Inl s' cache_table_def)
    next
      case (Some x)
      with Pair g show ?thesis by (simp add: memo_get_def Inl s' cache_get_def tlsConfigKey_def)
    qed
  qed
qed

section \<open>Properties\<close>

text \<open>A first call on a fresh cache, to evaluate the definitions on.\<close>

definition sample_wrap :: wrap_env where
  "sample_wrap = \<lparr>debug_enabled = False, read_token = \<lambda>_. Inr []\<rparr>"

definition no_crypto :: crypto where
  "no_crypto = \<lparr>X509KeyPair = \<lambda>_ _. Inr [], AppendCertsFromPEM = \<lambda>_. [],
     PemDecode = \<lambda>d. (None, d), ParseCertificate = \<lambda>d. Inr d\<rparr>"

definition sample_cache :: "names \<Rightarrow> tlsTransportCache" where
  "sample_cache n = put_transport (config_key (empty_Config :: rt Config) n) 0
     (snd (alloc \<lparr>Conn = Some 0, Names = n, NT_Timeout = 5, NT_DisableCompression = False,
        NT_TLS = None\<rparr> empty_cache))"

lemma first_New: "New sample_wrap (\<lambda>_. Inr []) no_crypto empty_Config nc n timeout empty_cache =
    (Inr (NatsRT 0), empty_Config, put_transport (config_key (empty_Config :: rt Config) n) 0
       (snd (alloc \<lparr>Conn = nc, Names = n, NT_Timeout = timeout, NT_DisableCompression = False,
          NT_TLS = None\<rparr> empty_cache)))"
  by (simp add: New_def cache_get_def tlsConfigKey_def loadTLSFiles_def
      dataFromSliceOrFile_def PersistableTLSConfigFor_def no_tls_requested_def HasCA_def
      HasCertAuth_def HasCertCallback_def empty_Config_def empty_TLS_def empty_cache_def alloc_def
      HTTPWrappersForConfig_def DebugWrappers_def HasBasicAuth_def HasTokenAuth_def sample_wrap_def
      put_transport_def config_key_def Let_def)

lemma sample_New: "New sample_wrap (\<lambda>_. Inr []) no_crypto empty_Config (Some 0) n 5 empty_cache =
    (Inr (NatsRT 0), empty_Config, sample_cache n)"
  by (simp add: first_New sample_cache_def)

lemma sample_reached: "cache_step\<^sup>*\<^sup>* empty_cache (sample_cache n)"
  using cache_step.new [OF sample_New] by (rule r_into_rtranclp)

lemma sample_lookup:
  "transports (sample_cache n) (config_key (empty_Config :: rt Config) n) = Some 0"
  by (simp add: sample_cache_def put_transport_def)

text \<open>C9: In every state the cache reaches, a cached transport carries the link id, the compression
  setting and the TLS options that its key stands for, and no two keys share a transport: a
  client can never be handed the credentials or the cluster of another.\<close>

theorem cache_consistent:
  assumes "cache_step\<^sup>*\<^sup>* empty_cache s" "transports s k = Some a"
  shows "(\<exists>t. heap s a = Some t \<and> GetLinkID (Names t) = K_linkID k \<and>
      NT_DisableCompression t = K_disableCompression k \<and> tls_view (NT_TLS t) = key_view k) \<and>
    (\<forall>k'. transports s k' = Some a \<longrightarrow> k' = k)"
proof -
  have inv: "cache_inv s" by (rule cache_machine.reachable_inv [OF refl assms(1)])
  have "\<forall>k'. transports s k' = Some a \<longrightarrow> k' = k"
    using inv assms(2) unfolding cache_inv_def by blast
  then show ?thesis using cache_invD [OF inv assms(2)] by (simp add: serves_def)
qed

theorem cache_consistent_witness:
  "\<exists>t. heap (sample_cache (CrossAccountNames ''l'')) 0 = Some t \<and> GetLinkID (Names t) = ''l''"
  using cache_consistent [OF sample_reached sample_lookup, of "CrossAccountNames ''l''"]
  by (auto simp: config_key_link)

text \<open>C29: What \<open>New\<close> returns is a stack of wrappers over a NATS transport of the caller's own link,
  with the compression setting of its configuration and the TLS options of its loaded files; the
  configuration had no transport and no proxy of its own.\<close>

theorem new_transport_matches:
  assumes "cache_step\<^sup>*\<^sup>* empty_cache s" "New env fs cr c nc n timeout s = (Inr w, c', s')"
  shows "\<exists>a t c1. rt_base w = NatsRT a \<and> heap s' a = Some t \<and> loadTLSFiles fs c = (None, c1) \<and>
    GetLinkID (Names t) = GetLinkID n \<and> NT_DisableCompression t = DisableCompression c \<and>
    tls_view (NT_TLS t) = key_view (config_key c1 n) \<and> Transport c = None \<and> Proxy c = None"
proof -
  have inv: "cache_inv s" by (rule cache_machine.reachable_inv [OF refl assms(1)])
  obtain a where a: "cache_get fs cr c nc n timeout s = (Inr a, c', s')" "rt_base w = NatsRT a"
    "Transport c = None" "Proxy c = None" using New_ok [OF assms(2)] .
  obtain t c1 where "loadTLSFiles fs c = (None, c1)" "heap s' a = Some t" "serves (config_key c1 n) t"
    using cache_get_serves [OF inv a(1,4)] .
  then show ?thesis using a load_frame(5)
    by (metis config_key_compression config_key_link serves_def)
qed

theorem new_transport_matches_witness:
  "\<exists>a t c1. rt_base (NatsRT 0) = NatsRT a \<and>
    heap (sample_cache (SameAccountNames ''l'')) a = Some t \<and>
    loadTLSFiles (\<lambda>_. Inr []) (empty_Config :: rt Config) = (None, c1) \<and>
    GetLinkID (Names t) = GetLinkID (SameAccountNames ''l'') \<and>
    NT_DisableCompression t = DisableCompression (empty_Config :: rt Config) \<and>
    tls_view (NT_TLS t) = key_view (config_key c1 (SameAccountNames ''l'')) \<and>
    Transport (empty_Config :: rt Config) = None \<and> Proxy (empty_Config :: rt Config) = None"
  by (rule new_transport_matches [OF rtranclp.rtrancl_refl sample_New])

text \<open>Once a configuration has a transport, every later call with the same loaded options and
  link gets that same transport, unchanged, whatever happened to the cache in between; the
  connection and the timeout of the later call are not used.\<close>

theorem cached_transport_reused:
  assumes "cache_step\<^sup>*\<^sup>* empty_cache s" "New env fs cr c nc n timeout s = (Inr w, c', s')"
    and "cache_step\<^sup>*\<^sup>* s' s''"
  shows "\<exists>a t c1. rt_base w = NatsRT a \<and> heap s' a = Some t \<and> heap s'' a = Some t \<and>
    loadTLSFiles fs c = (None, c1) \<and>
    cache_get fs cr c nc2 n timeout2 s'' = (Inr a, c1, s'')"
proof -
  have inv: "cache_inv s" by (rule cache_machine.reachable_inv [OF refl assms(1)])
  obtain a where a: "cache_get fs cr c nc n timeout s = (Inr a, c', s')" "rt_base w = NatsRT a"
    "Transport c = None" "Proxy c = None" using New_ok [OF assms(2)] .
  have inv': "cache_inv s'" by (rule cache_get_inv [OF inv a(1)])
  obtain t c1 where t: "loadTLSFiles fs c = (None, c1)" "heap s' a = Some t"
    "transports s' (config_key c1 n) = Some a"
    using cache_get_serves [OF inv a(1,4)] .
  have k: "transports s'' (config_key c1 n) = Some a" "heap s'' a = Some t"
    using cache_steps_keep [OF assms(3) inv' t(3)] t(2) by auto
  from cache_get_again [OF k(1) t(1) a(4)] show ?thesis using a(2) t k(2) by blast
qed

theorem cached_transport_reused_witness:
  "\<exists>a t c1. rt_base (NatsRT 0) = NatsRT a \<and> heap (sample_cache (CrossAccountNames ''l'')) a = Some t \<and>
    heap (sample_cache (CrossAccountNames ''l'')) a = Some t \<and>
    loadTLSFiles (\<lambda>_. Inr []) (empty_Config :: rt Config) = (None, c1) \<and>
    cache_get (\<lambda>_. Inr []) no_crypto (empty_Config :: rt Config) (Some 7) (CrossAccountNames ''l'') 9
      (sample_cache (CrossAccountNames ''l'')) =
      (Inr a, c1, sample_cache (CrossAccountNames ''l''))"
  by (rule cached_transport_reused [OF rtranclp.rtrancl_refl sample_New rtranclp.rtrancl_refl])

text \<open>C10: The cache refines a table from keys to transports: in every state it reaches, \<open>get\<close> returns the
  transport that the table holds for the options loaded, or puts a new one there; it fails exactly
  when making the entry fails, with that error, and then the table is as it was. Addresses, and
  what the cache did before, do not show.\<close>

theorem cache_refines_table:
  assumes "cache_step\<^sup>*\<^sup>* empty_cache s" "Proxy c = None"
    and "cache_get fs cr c nc n timeout s = (r, c', s')"
  shows "memo_get fs cr c nc n timeout (cache_table s) =
    (map_sum id (\<lambda>a. the (heap s' a)) r, cache_table s')"
  by (rule cache_get_table [OF cache_machine.reachable_inv [OF refl assms(1)] assms(2,3)])

theorem cache_refines_table_witness:
  "memo_get (\<lambda>_. Inr []) no_crypto (empty_Config :: rt Config) (Some 7) (CrossAccountNames ''l'') 9
     (cache_table (sample_cache (CrossAccountNames ''l''))) =
   (Inr \<lparr>Conn = Some 0, Names = CrossAccountNames ''l'', NT_Timeout = 5,
      NT_DisableCompression = False, NT_TLS = None\<rparr>, cache_table (sample_cache (CrossAccountNames ''l'')))"
proof -
  let ?n = "CrossAccountNames ''l''"
  have l: "loadTLSFiles (\<lambda>_. Inr []) (empty_Config :: rt Config) = (None, empty_Config)"
    by (simp add: loadTLSFiles_def dataFromSliceOrFile_def empty_Config_def empty_TLS_def)
  have p: "Proxy (empty_Config :: rt Config) = None" by (simp add: empty_Config_def)
  from cache_refines_table [OF sample_reached p cache_get_again [OF sample_lookup l p]] show ?thesis
    by (simp add: sample_cache_def empty_cache_def)
qed

end
