(* ===== verification/NatsConn.thy ===== *)
theory NatsConn
  imports GoStd "HOL-Library.AList" "HOL-Library.List_Lexorder" "HOL-Library.Char_ord"
begin

text \<open>
  The NATS client (vendored \<open>nats.go\<close>) as far as the connector drives it: subject and queue
  validation, subscribing, publishing with headers, the text form of headers and its decoder,
  and \<open>NewConnection\<close> of \<open>pkg/transport/nats.go\<close>, which connects with retries.

  The state of a connection changes under the program's feet: it may close, drain or lose its
  server between any two operations. A connection therefore carries the status it will have at
  its n-th operation, for every n, and counts its operations; theorems hold for every such
  function.
\<close>

section \<open>Errors\<close>

definition ErrInvalidConnection :: go_error where
  "ErrInvalidConnection = ErrVar ''nats: invalid connection''"
definition ErrBadSubject :: go_error where
  "ErrBadSubject = ErrVar ''nats: invalid subject''"
definition ErrBadQueueName :: go_error where
  "ErrBadQueueName = ErrVar ''nats: invalid queue name''"
definition ErrConnectionClosed :: go_error where
  "ErrConnectionClosed = ErrVar ''nats: connection closed''"
definition ErrConnectionDraining :: go_error where
  "ErrConnectionDraining = ErrVar ''nats: connection draining''"
definition ErrHeadersNotSupported :: go_error where
  "ErrHeadersNotSupported = ErrVar ''nats: headers not supported by this server''"
definition ErrMaxPayload :: go_error where
  "ErrMaxPayload = ErrVar ''nats: maximum payload exceeded''"
definition ErrReconnectBufExceeded :: go_error where
  "ErrReconnectBufExceeded = ErrVar ''nats: outbound buffer limit exceeded''"
definition ErrTimeout :: go_error where
  "ErrTimeout = ErrVar ''nats: timeout''"
definition ErrNoResponders :: go_error where
  "ErrNoResponders = ErrVar ''nats: no responders available for request''"
definition ErrBadSubscription :: go_error where
  "ErrBadSubscription = ErrVar ''nats: invalid subscription''"
definition ErrBadHeaderMsg :: go_error where
  "ErrBadHeaderMsg = ErrVar ''nats: message could not decode headers''"

section \<open>Headers\<close>

text \<open>
  A header is a Go map from keys to lists of values: an association list with distinct keys.
\<close>

type_synonym header = "(string \<times> string list) list"

definition header_set :: "string \<Rightarrow> string \<Rightarrow> header \<Rightarrow> header" where
  "header_set key v h = AList.update key [v] h"

text \<open>
  Writing: \<open>http.Header.Write\<close> sorts the keys, leaves out keys that are no header field names,
  turns CR and LF in values into blanks and trims them.
\<close>

definition token_char :: "char \<Rightarrow> bool" where
  "token_char c \<longleftrightarrow>
     c \<in> set ''!#$%&'' \<or> c = CHR 0x27 \<or>
     c \<in> set ''*+-.0123456789ABCDEFGHIJKLMNOPQRSTUVWXYZ^_`abcdefghijklmnopqrstuvwxyz|~''"

definition valid_field_name :: "string \<Rightarrow> bool" where
  "valid_field_name k \<longleftrightarrow> k \<noteq> [] \<and> list_all token_char k"

definition newline_to_space :: "string \<Rightarrow> string" where
  "newline_to_space = map (\<lambda>c. if c = CHR 0x0A \<or> c = CHR 0x0D then CHR '' '' else c)"

definition sanitize :: "string \<Rightarrow> string" where
  "sanitize v = trim_string (newline_to_space v)"

definition crlf :: string where "crlf = [CHR 0x0D, CHR 0x0A]"

definition header_line :: "string \<times> string \<Rightarrow> string" where
  "header_line kv = fst kv @ '': '' @ sanitize (snd kv) @ crlf"

definition header_pairs :: "header \<Rightarrow> (string \<times> string) list" where
  "header_pairs h = concat (map (\<lambda>(k, vs). map (Pair k) vs)
     (sort_key fst (filter (valid_field_name \<circ> fst) h)))"

definition hdrLine :: string where "hdrLine = ''NATS/1.0'' @ crlf"

definition headerBytes :: "header \<Rightarrow> bytes" where
  "headerBytes h =
     (if length h = 0 then [] else hdrLine @ concat (map header_line (header_pairs h)) @ crlf)"

text \<open>Reading: a line ends at LF, and a CR before it goes too; at the end of input there is none.\<close>

definition read_line :: "bytes \<Rightarrow> (bytes \<times> bytes) option" where
  "read_line s =
     (if s = [] then None
      else let l = takeWhile (\<lambda>c. c \<noteq> CHR 0x0A) s;
               rest = drop (Suc (length l)) s;
               l' = (if l \<noteq> [] \<and> last l = CHR 0x0D \<and> length l < length s then butlast l else l)
           in Some (l', rest))"

definition header_add :: "string \<Rightarrow> string \<Rightarrow> header \<Rightarrow> header" where
  "header_add k v h = AList.update k (case map_of h k of None \<Rightarrow> [v] | Some vs \<Rightarrow> vs @ [v]) h"

lemma read_line_shorter: "read_line s = Some (l, rest) \<Longrightarrow> length rest < length s"
  by (auto simp: read_line_def Let_def split: if_splits)

definition EOF :: go_error where "EOF = ErrVar ''EOF''"

definition blank_or_tab :: "char \<Rightarrow> bool" where
  "blank_or_tab c \<longleftrightarrow> c = CHR '' '' \<or> c = CHR 0x09"

function readMIMEHeader :: "header \<Rightarrow> bytes \<Rightarrow> header result" where
  "readMIMEHeader m s =
     (case read_line s of
        None \<Rightarrow> Inl EOF
      | Some (kv, rest) \<Rightarrow>
          if length kv = 0 then Inr m
          else if CHR '':'' \<notin> set kv then Inl ErrBadHeaderMsg
          else let key = takeWhile (\<lambda>c. c \<noteq> CHR '':'') kv;
                   val = dropWhile blank_or_tab (drop (Suc (length key)) kv)
               in if key = [] then readMIMEHeader m rest
                  else readMIMEHeader (header_add key val m) rest)"
  by pat_completeness auto
termination
  by (relation "measure (\<lambda>(m, s). length s)") (auto dest: read_line_shorter)

declare readMIMEHeader.simps [simp del]

text \<open>
  \<open>DecodeHeadersMsg\<close>. After the version the first line may hold a status of three characters
  and a description; a shorter status is a slice out of bounds, which panics.
\<close>

definition DecodeHeadersMsg :: "bytes \<Rightarrow> header result" where
  "DecodeHeadersMsg data =
     (case read_line data of
        None \<Rightarrow> Inl ErrBadHeaderMsg
      | Some (l, rest) \<Rightarrow>
          if length l < 8 \<or> take 8 l \<noteq> ''NATS/1.0'' then Inl ErrBadHeaderMsg
          else case readMIMEHeader [] rest of
            Inl err \<Rightarrow> Inl err
          | Inr mh \<Rightarrow>
              if length l > 8 then
                let status = trim_space (drop 8 l) in
                if length status < 3 then Inl (ErrNew ''panic: slice bounds out of range'')
                else let description =
                           (if length status \<noteq> 3 then trim_space (drop 3 status) else []);
                         mh1 = header_add ''Status'' (take 3 status) mh
                     in Inr (if length description > 0
                             then header_add ''Description'' description mh1 else mh1)
              else Inr mh)"

section \<open>The connection\<close>

text \<open>A connection is drained in two stages: its subscriptions first, then what it publishes.\<close>

datatype drain_stage = Not_Draining | Draining_Subs | Draining_Pubs

record conn_status =
  closed :: bool
  stage :: drain_stage
  reconnecting :: bool           \<comment> \<open>connecting or reconnecting\<close>
  headers_supported :: bool
  connecting :: bool             \<comment> \<open>\<open>initc\<close>: no server yet, its limits are unknown\<close>
  max_payload :: int
  buffer_full :: bool            \<comment> \<open>reconnecting, pending buffer at its limit\<close>
  append_error :: "string option"

definition draining :: "conn_status \<Rightarrow> bool" where
  "draining st \<longleftrightarrow> stage st \<noteq> Not_Draining"

definition drainingPubs :: "conn_status \<Rightarrow> bool" where
  "drainingPubs st \<longleftrightarrow> stage st = Draining_Pubs"

lemma draining_record [simp]:
  "draining \<lparr>closed = c, stage = g, reconnecting = r, headers_supported = h, connecting = i,
     max_payload = m, buffer_full = b, append_error = a\<rparr> \<longleftrightarrow> g \<noteq> Not_Draining"
  by (simp add: draining_def)

lemma not_drainingPubs [simp]: "\<not> draining st \<Longrightarrow> \<not> drainingPubs st"
  by (simp add: draining_def drainingPubs_def)

record wire_msg =
  W_Subject :: string
  W_Reply :: string
  W_Header :: bytes              \<comment> \<open>empty for a message without headers\<close>
  W_Data :: bytes

datatype sub_kind = SyncSubscription | AsyncSubscription

record subscription =
  S_Subject :: string
  S_Queue :: string
  S_Kind :: sub_kind

record nats_conn =
  status_at :: "nat \<Rightarrow> conn_status"
  ops :: nat
  outbox :: "wire_msg list"      \<comment> \<open>accepted messages, in order\<close>
  subs :: "subscription list"    \<comment> \<open>made, and not given up by the program\<close>

text \<open>The subscriptions that a connection still has: a closed one (\<open>close\<close>) has dropped them all.\<close>

definition open_subs :: "nats_conn \<Rightarrow> subscription list" where
  "open_subs nc = (if closed (status_at nc (ops nc)) then [] else subs nc)"

text \<open>
  \<open>Drain\<close> begins to drain a connection, from its next operation on, or closes one that has lost
  its server.
\<close>

definition ErrConnectionReconnecting :: go_error where
  "ErrConnectionReconnecting = ErrVar ''nats: connection reconnecting''"

definition from_now :: "(conn_status \<Rightarrow> conn_status) \<Rightarrow> nats_conn \<Rightarrow> nats_conn" where
  "from_now f nc = nc\<lparr>status_at := \<lambda>i. if ops nc \<le> i then f (status_at nc i) else status_at nc i\<rparr>"

definition Drain :: "nats_conn \<Rightarrow> go_error option \<times> nats_conn" where
  "Drain nc =
     (let st = status_at nc (ops nc)
      in if closed st then (Some ErrConnectionClosed, nc)
         else if reconnecting st
         then (Some ErrConnectionReconnecting, (from_now (\<lambda>st. st\<lparr>closed := True\<rparr>) nc)\<lparr>subs := []\<rparr>)
         else if draining st then (None, nc)
         else (None, from_now (\<lambda>st. if stage st = Not_Draining then st\<lparr>stage := Draining_Subs\<rparr> else st) nc))"

definition nats_space :: "char \<Rightarrow> bool" where
  "nats_space c \<longleftrightarrow> c = CHR '' '' \<or> c = CHR 0x09 \<or> c = CHR 0x0D \<or> c = CHR 0x0A"

definition validateSubject :: "string \<Rightarrow> bool" where
  "validateSubject subj \<longleftrightarrow> subj \<noteq> [] \<and> \<not> list_ex nats_space subj"

definition badSubject :: "string \<Rightarrow> bool" where
  "badSubject subj \<longleftrightarrow>
     list_ex nats_space subj \<or> list_ex (\<lambda>t. length t = 0) (split_on (CHR ''.'') subj)"

definition badQueue :: "string \<Rightarrow> bool" where
  "badQueue qname \<longleftrightarrow> list_ex nats_space qname"

text \<open>
  \<open>publish\<close>: the checks in the code's order; a message that passes them all is appended to the
  connection's output.
\<close>

definition publish_check ::
    "conn_status \<Rightarrow> string \<Rightarrow> string \<Rightarrow> bool \<Rightarrow> bytes \<Rightarrow> bytes \<Rightarrow> go_error option" where
  "publish_check st subj reply validateReply hdr data =
     (if \<not> validateSubject subj then Some ErrBadSubject
      else if validateReply \<and> \<not> validateSubject reply then Some ErrBadSubject
      else if length hdr > 0 \<and> \<not> headers_supported st then Some ErrHeadersNotSupported
      else if closed st then Some ErrConnectionClosed
      else if drainingPubs st then Some ErrConnectionDraining
      else if \<not> connecting st \<and> int (length data + length hdr) > max_payload st
        then Some ErrMaxPayload
      else if buffer_full st then Some ErrReconnectBufExceeded
      else map_option ErrNew (append_error st))"

definition publish ::
    "string \<Rightarrow> string \<Rightarrow> bool \<Rightarrow> bytes \<Rightarrow> bytes \<Rightarrow> nats_conn \<Rightarrow> go_error option \<times> nats_conn" where
  "publish subj reply validateReply hdr data nc =
     (let nc1 = nc\<lparr>ops := Suc (ops nc)\<rparr>
      in case publish_check (status_at nc (ops nc)) subj reply validateReply hdr data of
           Some err \<Rightarrow> (Some err, nc1)
         | None \<Rightarrow> (None, nc1\<lparr>outbox := outbox nc @
             [\<lparr>W_Subject = subj, W_Reply = reply, W_Header = hdr, W_Data = data\<rparr>]\<rparr>))"

definition PublishMsg ::
    "string \<Rightarrow> string \<Rightarrow> header \<Rightarrow> bytes \<Rightarrow> nats_conn \<Rightarrow> go_error option \<times> nats_conn" where
  "PublishMsg subj reply h data nc = publish subj reply (reply \<noteq> []) (headerBytes h) data nc"

definition PublishRequest ::
    "string \<Rightarrow> string \<Rightarrow> bytes \<Rightarrow> nats_conn \<Rightarrow> go_error option \<times> nats_conn" where
  "PublishRequest subj reply data nc = publish subj reply True [] data nc"

definition subscribe ::
    "string \<Rightarrow> string \<Rightarrow> sub_kind \<Rightarrow> nats_conn \<Rightarrow> subscription result \<times> nats_conn" where
  "subscribe subj queue kind nc =
     (let st = status_at nc (ops nc); nc1 = nc\<lparr>ops := Suc (ops nc)\<rparr>
      in if badSubject subj then (Inl ErrBadSubject, nc1)
         else if queue \<noteq> [] \<and> badQueue queue then (Inl ErrBadQueueName, nc1)
         else if closed st then (Inl ErrConnectionClosed, nc1)
         else if draining st then (Inl ErrConnectionDraining, nc1)
         else let sub = \<lparr>S_Subject = subj, S_Queue = queue, S_Kind = kind\<rparr>
              in (Inr sub, nc1\<lparr>subs := subs nc @ [sub]\<rparr>))"

definition SubscribeSync :: "string \<Rightarrow> nats_conn \<Rightarrow> subscription result \<times> nats_conn" where
  "SubscribeSync subj nc = subscribe subj [] SyncSubscription nc"

definition QueueSubscribe ::
    "string \<Rightarrow> string \<Rightarrow> nats_conn \<Rightarrow> subscription result \<times> nats_conn" where
  "QueueSubscribe subj queue nc = subscribe subj queue AsyncSubscription nc"

text \<open>A connection that stays up with a given payload limit, to evaluate definitions on.\<close>

definition live_conn :: "int \<Rightarrow> nats_conn" where
  "live_conn M = \<lparr>status_at = \<lambda>_. \<lparr>closed = False, stage = Not_Draining, reconnecting = False, headers_supported = True,
     connecting = False, max_payload = M, buffer_full = False, append_error = None\<rparr>,
     ops = 0, outbox = [], subs = []\<rparr>"

text \<open>What a subscriber receives: the header decoded, or none when it does not decode.\<close>

record msg =
  M_Reply :: string
  M_Header :: header
  M_Data :: bytes

definition deliver :: "wire_msg \<Rightarrow> msg" where
  "deliver w = \<lparr>M_Reply = W_Reply w,
     M_Header = (if W_Header w = [] then [] else
       (case DecodeHeadersMsg (W_Header w) of Inl _ \<Rightarrow> [] | Inr h \<Rightarrow> h)),
     M_Data = W_Data w\<rparr>"

section \<open>Publishing: lemmas\<close>

lemma publish_None_iff:
  "fst (publish subj reply v hdr data nc) = None \<longleftrightarrow>
   publish_check (status_at nc (ops nc)) subj reply v hdr data = None"
  by (simp add: publish_def Let_def split: option.splits)

lemma publish_frame [frame_simps]:
  "status_at (snd (publish subj reply v hdr data nc)) = status_at nc"
  "ops (snd (publish subj reply v hdr data nc)) = Suc (ops nc)"
  "subs (snd (publish subj reply v hdr data nc)) = subs nc"
  by (simp_all add: publish_def Let_def split: option.splits)

lemma publish_outbox:
  "outbox (snd (publish subj reply v hdr data nc)) =
     (if fst (publish subj reply v hdr data nc) = None
      then outbox nc @ [\<lparr>W_Subject = subj, W_Reply = reply, W_Header = hdr, W_Data = data\<rparr>]
      else outbox nc)"
  by (simp add: publish_def Let_def split: option.splits)

section \<open>The header codec\<close>

text \<open>A line written is the line read, when it holds no CR or LF of its own.\<close>

definition line_safe :: "string \<Rightarrow> bool" where
  "line_safe s \<longleftrightarrow> CHR 0x0A \<notin> set s \<and> CHR 0x0D \<notin> set s"

lemma read_line_crlf: "line_safe l \<Longrightarrow> read_line (l @ crlf @ rest) = Some (l, rest)"
proof -
  assume s: "line_safe l"
  then have "takeWhile (\<lambda>c. c \<noteq> CHR 0x0A) (l @ crlf @ rest) = l @ [CHR 0x0D]"
    by (subst takeWhile_append2) (auto simp: line_safe_def crlf_def)
  then show ?thesis by (simp add: read_line_def crlf_def Let_def)
qed

lemma newline_to_space_safe: "line_safe (newline_to_space v)"
  by (auto simp: line_safe_def newline_to_space_def)

lemma sanitize_safe: "line_safe (sanitize v)"
  using newline_to_space_safe trim_string_set [of "newline_to_space v"]
  by (auto simp: line_safe_def sanitize_def)

lemma token_char_safe: "token_char c \<Longrightarrow> c \<noteq> CHR 0x0A \<and> c \<noteq> CHR 0x0D \<and> c \<noteq> CHR '':''"
  by (auto simp: token_char_def)

lemma valid_field_name_safe: "valid_field_name k \<Longrightarrow> line_safe k \<and> CHR '':'' \<notin> set k"
  by (auto simp: valid_field_name_def line_safe_def list_all_iff dest: token_char_safe)

lemma blank_or_tab_blank [simp]: "blank_or_tab (CHR '' '')"
  by (simp add: blank_or_tab_def)

lemma dropWhile_blank_sanitize: "dropWhile blank_or_tab (sanitize v) = sanitize v"
proof (cases "sanitize v")
  case (Cons c cs)
  then have "\<not> ascii_space c" using trim_string_hd [of "newline_to_space v"]
    by (simp add: sanitize_def)
  with Cons show ?thesis by (auto simp: blank_or_tab_def ascii_space_def)
qed simp

lemma readMIMEHeader_line:
  assumes "valid_field_name k"
  shows "readMIMEHeader m (header_line (k, v) @ rest) =
         readMIMEHeader (header_add k (sanitize v) m) rest"
proof -
  note k = valid_field_name_safe [OF assms]
  have kne: "k \<noteq> []" using assms by (simp add: valid_field_name_def)
  have safe: "line_safe (k @ '': '' @ sanitize v)"
    using k sanitize_safe [of v] by (auto simp: line_safe_def)
  have rl: "read_line (header_line (k, v) @ rest) = Some (k @ '': '' @ sanitize v, rest)"
    using read_line_crlf [OF safe, of rest] by (simp add: header_line_def)
  have key: "takeWhile (\<lambda>c. c \<noteq> CHR '':'') (k @ CHR '':'' # CHR '' '' # sanitize v) = k"
    using k by (subst takeWhile_append2) auto
  show ?thesis
    by (subst readMIMEHeader.simps)
      (use kne in \<open>simp add: rl key Let_def dropWhile_blank_sanitize\<close>)
qed

lemma readMIMEHeader_lines:
  "list_all (\<lambda>(k, v). valid_field_name k) kvs \<Longrightarrow>
   readMIMEHeader m (concat (map header_line kvs) @ crlf) =
   Inr (fold (\<lambda>(k, v). header_add k (sanitize v)) kvs m)"
proof (induction kvs arbitrary: m)
  case Nil
  have "read_line crlf = Some ([], [])"
    using read_line_crlf [of "[]" "[]"] by (simp add: line_safe_def)
  then show ?case by (subst readMIMEHeader.simps) simp
next
  case (Cons kv kvs)
  then show ?case by (cases kv) (simp add: readMIMEHeader_line)
qed

lemma header_pairs_valid: "list_all (\<lambda>(k, v). valid_field_name k) (header_pairs h)"
  by (auto simp: header_pairs_def list_all_iff)

text \<open>Every header that is sent decodes, to its pairs with their values sanitised.\<close>

lemma decode_headerBytes:
  assumes "h \<noteq> []"
  shows "DecodeHeadersMsg (headerBytes h) =
         Inr (fold (\<lambda>(k, v). header_add k (sanitize v)) (header_pairs h) [])"
proof -
  have "read_line (headerBytes h) =
        Some (''NATS/1.0'', concat (map header_line (header_pairs h)) @ crlf)"
    using assms read_line_crlf [of "''NATS/1.0''"]
    by (simp add: headerBytes_def hdrLine_def line_safe_def)
  then show ?thesis
    by (simp add: DecodeHeadersMsg_def readMIMEHeader_lines [OF header_pairs_valid])
qed

lemma sanitize_empty [simp]: "sanitize [] = []"
  by (simp add: sanitize_def newline_to_space_def trim_string_def)

lemma sanitize_plain:
  assumes "line_safe v" "v = [] \<or> \<not> ascii_space (hd v) \<and> \<not> ascii_space (last v)"
  shows "sanitize v = v"
proof -
  have "newline_to_space v = v"
    using assms(1) by (auto simp: newline_to_space_def line_safe_def intro!: map_idI)
  moreover have "dropWhile ascii_space v = v" "dropWhile ascii_space (rev v) = rev v"
    using assms(2) by (auto simp: dropWhile_eq_self_iff hd_rev)
  ultimately show ?thesis by (simp add: sanitize_def trim_string_def)
qed

lemma header_single:
  assumes "valid_field_name k"
  shows "DecodeHeadersMsg (headerBytes [(k, [v])]) = Inr [(k, [sanitize v])]"
  using decode_headerBytes [of "[(k, [v])]"] assms
  by (simp add: header_pairs_def header_add_def)

section \<open>Properties\<close>

text \<open>Every header with at least one key that is sent decodes on the other side, to its pairs
  with valid names in the order of the keys, each value without line breaks and without blanks
  around it. So one key with a value that needs no change arrives as it was set.\<close>

theorem headers_arrive:
  assumes "h \<noteq> []"
  shows "DecodeHeadersMsg (headerBytes h) =
      Inr (fold (\<lambda>(k, v). header_add k (sanitize v)) (header_pairs h) []) \<and>
    (\<forall>k v. h = [(k, [v])] \<and> valid_field_name k \<and> sanitize v = v \<longrightarrow>
      DecodeHeadersMsg (headerBytes h) = Inr h)"
  using decode_headerBytes [OF assms] header_single by auto

theorem headers_arrive_witness:
  "DecodeHeadersMsg (headerBytes [(''Done'', [''bad'' @ crlf @ ''news''])]) =
   Inr [(''Done'', [''bad  news''])]"
  using headers_arrive [of "[(''Done'', [''bad'' @ crlf @ ''news''])]"]
  by (simp add: header_pairs_def valid_field_name_def token_char_def header_add_def sanitize_def
      newline_to_space_def trim_string_def ascii_space_def crlf_def)

end
