(* ===== verification/Bufio.thy ===== *)
theory Bufio
  imports GoStd "HOL-Library.Sublist"
begin

text \<open>
  Go's \<open>bufio.Writer\<close>, which the edge puts between \<open>http.Response.Write\<close> and the message
  publishing writer. The underlying writer is a function on its own state that returns the
  number of bytes it took and an error; the interface \<open>io_writer\<close> says what \<open>bufio\<close> may rely
  on, and everything about buffering is proved from it.
\<close>

section \<open>The writer\<close>

type_synonym 's io_write = "'s \<Rightarrow> bytes \<Rightarrow> (nat \<times> go_error option) \<times> 's"

record 's bufio =
  buf :: bytes
  bsize :: nat
  berr :: "go_error option"     \<comment> \<open>sticky\<close>
  sink :: 's

definition Available :: "'s bufio \<Rightarrow> nat" where
  "Available b = bsize b - length (buf b)"

definition Reset :: "'s \<Rightarrow> 's bufio \<Rightarrow> 's bufio" where
  "Reset w b = b\<lparr>buf := [], berr := None, sink := w\<rparr>"

definition ErrShortWrite :: go_error where "ErrShortWrite = ErrVar ''short write''"
definition ErrNoProgress :: go_error where
  "ErrNoProgress = ErrVar ''multiple Read calls return no data or error''"
definition io_EOF :: go_error where "io_EOF = ErrVar ''EOF''"

definition Flush :: "'s io_write \<Rightarrow> 's bufio \<Rightarrow> go_error option \<times> 's bufio" where
  "Flush wr b =
     (if berr b \<noteq> None then (berr b, b)
      else if buf b = [] then (None, b)
      else let ((n, err), s') = wr (sink b) (buf b);
               err' = (if n < length (buf b) \<and> err = None then Some ErrShortWrite else err)
           in (case err' of
                 Some e \<Rightarrow> (Some e, b\<lparr>buf := drop n (buf b), berr := Some e, sink := s'\<rparr>)
               | None \<Rightarrow> (None, b\<lparr>buf := [], sink := s'\<rparr>)))"

text \<open>Copying what fits into the buffer, and flushing it: the step both loops below repeat.\<close>

definition copy_flush :: "'s io_write \<Rightarrow> bytes \<Rightarrow> 's bufio \<Rightarrow> 's bufio" where
  "copy_flush wr p b =
     snd (Flush wr (b\<lparr>buf := buf b @ take (min (Available b) (length p)) p\<rparr>))"

text \<open>\<open>Write\<close>: a write that finds the buffer empty and too small goes straight through.\<close>

partial_function (option) bufio_Write ::
    "'s io_write \<Rightarrow> bytes \<Rightarrow> 's bufio \<Rightarrow> (go_error option \<times> 's bufio) option" where
  "bufio_Write wr p b =
     (if length p > Available b \<and> berr b = None then
        (if buf b = [] then
           (let ((n, err), s') = wr (sink b) p
            in bufio_Write wr (drop n p) (b\<lparr>berr := err, sink := s'\<rparr>))
         else
           bufio_Write wr (drop (min (Available b) (length p)) p) (copy_flush wr p b))
      else if berr b \<noteq> None then Some (berr b, b)
      else Some (None, b\<lparr>buf := buf b @ p\<rparr>))"

text \<open>\<open>WriteString\<close> on a writer that is no \<open>io.StringWriter\<close> always goes through the buffer.\<close>

partial_function (option) bufio_WriteString ::
    "'s io_write \<Rightarrow> bytes \<Rightarrow> 's bufio \<Rightarrow> (go_error option \<times> 's bufio) option" where
  "bufio_WriteString wr s b =
     (if length s > Available b \<and> berr b = None then
        bufio_WriteString wr (drop (min (Available b) (length s)) s) (copy_flush wr s b)
      else if berr b \<noteq> None then Some (berr b, b)
      else Some (None, b\<lparr>buf := buf b @ s\<rparr>))"

text \<open>
  A reader is the list of what its next reads return; data that does not fit the space given is
  returned in parts, and an exhausted reader is at its end.
\<close>

type_synonym reader = "(bytes \<times> go_error option) list"

fun io_read :: "nat \<Rightarrow> reader \<Rightarrow> (bytes \<times> go_error option) \<times> reader" where
  "io_read space [] = (([], Some io_EOF), [])"
| "io_read space ((d, e) # es) =
     (if length d \<le> space then ((d, e), es)
      else ((take space d, None), (drop space d, e) # es))"

text \<open>Up to \<open>n\<close> reads until one returns something; \<open>None\<close> when none did.\<close>

fun read_retry :: "nat \<Rightarrow> nat \<Rightarrow> reader \<Rightarrow> (bytes \<times> go_error option) option \<times> reader" where
  "read_retry 0 space r = (None, r)"
| "read_retry (Suc n) space r =
     (case io_read space r of ((d, e), r') \<Rightarrow>
        if d \<noteq> [] \<or> e \<noteq> None then (Some (d, e), r') else read_retry n space r')"

definition maxConsecutiveEmptyReads :: nat where "maxConsecutiveEmptyReads = 100"

partial_function (option) ReadFrom_loop ::
    "'s io_write \<Rightarrow> reader \<Rightarrow> 's bufio \<Rightarrow> (go_error option \<times> 's bufio) option" where
  "ReadFrom_loop wr r b =
     (case (if Available b = 0 then Flush wr b else (None, b)) of
        (Some e, b1) \<Rightarrow> Some (Some e, b1)
      | (None, b1) \<Rightarrow>
          (case read_retry maxConsecutiveEmptyReads (Available b1) r of
             (None, r') \<Rightarrow> Some (Some ErrNoProgress, b1)
           | (Some (d, None), r') \<Rightarrow> ReadFrom_loop wr r' (b1\<lparr>buf := buf b1 @ d\<rparr>)
           | (Some (d, Some e), r') \<Rightarrow>
               (let b2 = b1\<lparr>buf := buf b1 @ d\<rparr>
                in if e = io_EOF then
                     (if Available b2 = 0 then Some (Flush wr b2) else Some (None, b2))
                   else Some (Some e, b2))))"

definition bufio_ReadFrom ::
    "'s io_write \<Rightarrow> reader \<Rightarrow> 's bufio \<Rightarrow> (go_error option \<times> 's bufio) option" where
  "bufio_ReadFrom wr r b =
     (if berr b \<noteq> None then Some (berr b, b) else ReadFrom_loop wr r b)"

text \<open>
  A serialiser such as \<open>http.Response.Write\<close> is a sequence of calls on the writer: it stops at
  the first that returns an error, and may itself fail at the end.
\<close>

datatype wop = WriteOp bytes | WriteStringOp bytes | ReadFromOp reader

fun do_op :: "'s io_write \<Rightarrow> wop \<Rightarrow> 's bufio \<Rightarrow> (go_error option \<times> 's bufio) option" where
  "do_op wr (WriteOp p) b = bufio_Write wr p b"
| "do_op wr (WriteStringOp p) b = bufio_WriteString wr p b"
| "do_op wr (ReadFromOp r) b = bufio_ReadFrom wr r b"

fun do_ops ::
    "'s io_write \<Rightarrow> wop list \<Rightarrow> go_error option \<Rightarrow> 's bufio \<Rightarrow>
     (go_error option \<times> 's bufio) option" where
  "do_ops wr [] own b = Some (own, b)"
| "do_ops wr (x # xs) own b =
     (case do_op wr x b of
        None \<Rightarrow> None
      | Some (Some e, b') \<Rightarrow> Some (Some e, b')
      | Some (None, b') \<Rightarrow> do_ops wr xs own b')"

text \<open>The bytes a sequence of calls writes when nothing fails, and when nothing can but the writer.\<close>

fun reader_bytes :: "reader \<Rightarrow> bytes" where
  "reader_bytes [] = []"
| "reader_bytes ((d, None) # es) = d @ reader_bytes es"
| "reader_bytes ((d, Some e) # es) = d"

fun reader_clean :: "reader \<Rightarrow> bool" where
  "reader_clean [] = True"
| "reader_clean ((d, None) # es) = (d \<noteq> [] \<and> reader_clean es)"
| "reader_clean ((d, Some e) # es) = (e = io_EOF)"

fun op_bytes :: "wop \<Rightarrow> bytes" where
  "op_bytes (WriteOp p) = p"
| "op_bytes (WriteStringOp p) = p"
| "op_bytes (ReadFromOp r) = reader_bytes r"

fun op_clean :: "wop \<Rightarrow> bool" where
  "op_clean (ReadFromOp r) = reader_clean r"
| "op_clean _ = True"

definition ops_bytes :: "wop list \<Rightarrow> bytes" where
  "ops_bytes xs = concat (map op_bytes xs)"

text \<open>The largest single write an operation can pass straight through the buffer.\<close>

fun op_max :: "wop \<Rightarrow> nat" where
  "op_max (WriteOp p) = length p"
| "op_max _ = 0"

text \<open>The errors an operation can fail with by itself.\<close>

definition op_fail :: "wop \<Rightarrow> go_error set" where
  "op_fail x = (if op_clean x then {} else UNIV)"

section \<open>The interface\<close>

text \<open>
  A writer that takes every write whole: it reports the full length, on success what it has
  accepted grows by just the data, on an error by nothing. \<open>inv\<close> is what the writer keeps, for
  writes of at most \<open>L\<close> bytes.
\<close>

locale io_writer =
  fixes wr :: "'s io_write"
    and out :: "'s \<Rightarrow> bytes"
    and inv :: "'s \<Rightarrow> bool"
    and L :: nat
  assumes wr_full: "wr s d = ((n, e), s') \<Longrightarrow> n = length d"
    and wr_ok: "inv s \<Longrightarrow> length d \<le> L \<Longrightarrow> wr s d = ((n, None), s') \<Longrightarrow> out s' = out s @ d"
    and wr_err: "inv s \<Longrightarrow> length d \<le> L \<Longrightarrow> wr s d = ((n, Some x), s') \<Longrightarrow> out s' = out s"
    and wr_inv: "inv s \<Longrightarrow> length d \<le> L \<Longrightarrow> d \<noteq> [] \<Longrightarrow> inv (snd (wr s d))"
begin

text \<open>
  The state of a buffered writer is sound: the buffer fits, and what it keeps of the sink holds.
  \<open>progress b w F r\<close> says where a call that writes \<open>w\<close> may leave it: either nothing failed and
  all is accounted for in order, or the sink holds a prefix of it and the error is one of the
  sink's or one of \<open>F\<close>.
\<close>

definition sound :: "'s bufio \<Rightarrow> bool" where
  "sound b \<longleftrightarrow> inv (sink b) \<and> 0 < bsize b \<and> bsize b \<le> L \<and> length (buf b) \<le> bsize b"

definition content :: "'s bufio \<Rightarrow> bytes" where
  "content b = out (sink b) @ buf b"

definition sink_error :: "go_error \<Rightarrow> bool" where
  "sink_error e \<longleftrightarrow> (\<exists>s d. inv s \<and> length d \<le> L \<and> snd (fst (wr s d)) = Some e)"

definition progress ::
    "'s bufio \<Rightarrow> bytes \<Rightarrow> go_error set \<Rightarrow> go_error option \<times> 's bufio \<Rightarrow> bool" where
  "progress b w F r \<longleftrightarrow> sound (snd r) \<and> bsize (snd r) = bsize b \<and>
     (fst r = None \<longrightarrow> berr (snd r) = None \<and> content (snd r) = content b @ w) \<and>
     (\<forall>e. fst r = Some e \<longrightarrow> prefix (out (sink (snd r))) (content b @ w) \<and>
        (sink_error e \<or> e \<in> F))"

lemma flush_progress:
  assumes "sound b" "berr b = None"
  shows "sound (snd (Flush wr b))" "bsize (snd (Flush wr b)) = bsize b"
    "fst (Flush wr b) = berr (snd (Flush wr b))"
    "berr (snd (Flush wr b)) = None \<Longrightarrow>
       content (snd (Flush wr b)) = content b \<and> buf (snd (Flush wr b)) = []"
    "berr (snd (Flush wr b)) = Some e \<Longrightarrow>
       prefix (out (sink (snd (Flush wr b)))) (content b) \<and> sink_error e"
proof -
  have "sound (snd (Flush wr b)) \<and> bsize (snd (Flush wr b)) = bsize b \<and>
    fst (Flush wr b) = berr (snd (Flush wr b)) \<and>
    (berr (snd (Flush wr b)) = None \<longrightarrow>
       content (snd (Flush wr b)) = content b \<and> buf (snd (Flush wr b)) = []) \<and>
    (\<forall>e. berr (snd (Flush wr b)) = Some e \<longrightarrow>
       prefix (out (sink (snd (Flush wr b)))) (content b) \<and> sink_error e)"
  proof (cases "buf b = []")
    case True
    then show ?thesis using assms by (auto simp: Flush_def content_def)
  next
    case False
    obtain n x s' where w: "wr (sink b) (buf b) = ((n, x), s')" by (metis prod.exhaust)
    have n: "n = length (buf b)" using wr_full [OF w] .
    have s: "inv (sink b)" "length (buf b) \<le> L" using assms by (auto simp: sound_def)
    have inv': "inv s'" using wr_inv [OF s] False w by simp
    have err: "x = Some e \<Longrightarrow> sink_error e" for e
      using s w unfolding sink_error_def by (metis fst_conv snd_conv)
    show ?thesis
      using False assms w n inv' wr_ok [OF s] wr_err [OF s] err
      by (cases x) (auto simp: Flush_def sound_def content_def)
  qed
  then show "sound (snd (Flush wr b))" "bsize (snd (Flush wr b)) = bsize b"
    "fst (Flush wr b) = berr (snd (Flush wr b))"
    "berr (snd (Flush wr b)) = None \<Longrightarrow>
       content (snd (Flush wr b)) = content b \<and> buf (snd (Flush wr b)) = []"
    "berr (snd (Flush wr b)) = Some e \<Longrightarrow>
       prefix (out (sink (snd (Flush wr b)))) (content b) \<and> sink_error e" by blast+
qed

lemma progress_error:
  assumes "sound b'" "bsize b' = bsize b" "prefix (out (sink b')) (content b @ w)"
    "sink_error e \<or> e \<in> F"
  shows "progress b w F (Some e, b')"
  using assms by (simp add: progress_def)

lemma progress_ok:
  assumes "sound b'" "bsize b' = bsize b" "berr b' = None" "content b' = content b @ w"
  shows "progress b w F (None, b')"
  using assms by (simp add: progress_def)

lemma progress_trans:
  assumes "progress b v F (None, b1)" "progress b1 w F r"
  shows "progress b (v @ w) F r"
  using assms by (auto simp: progress_def)

lemma prefix_weaken: "progress b v F (Some e, b') \<Longrightarrow> progress b (v @ w) F (Some e, b')"
  by (auto simp: progress_def simp flip: append_assoc intro: prefix_prefix)

lemma bufio_Write_err: "berr b = Some e \<Longrightarrow> bufio_Write wr p b = Some (Some e, b)"
  by (subst bufio_Write.simps) simp

lemma bufio_Write_fit:
  "berr b = None \<Longrightarrow> length p \<le> Available b \<Longrightarrow>
   bufio_Write wr p b = Some (None, b\<lparr>buf := buf b @ p\<rparr>)"
  by (subst bufio_Write.simps) simp

lemma fit_progress:
  assumes "sound b" "berr b = None" "length p \<le> Available b"
  shows "progress b p F (None, b\<lparr>buf := buf b @ p\<rparr>)"
  using assms by (intro progress_ok) (auto simp: sound_def Available_def content_def)

lemma bufio_Write_empty:
  assumes "sound b" "berr b = None" "buf b = []" "length p \<le> L"
  shows "\<exists>r. bufio_Write wr p b = Some r \<and> progress b p F r"
proof (cases "length p \<le> Available b")
  case True
  then show ?thesis using bufio_Write_fit fit_progress assms by blast
next
  case False
  obtain n e s' where w: "wr (sink b) p = ((n, e), s')" by (metis prod.exhaust)
  have n: "n = length p" using wr_full [OF w] .
  let ?b = "b\<lparr>berr := e, sink := s'\<rparr>"
  have s: "inv (sink b)" "p \<noteq> []" using assms False by (auto simp: sound_def)
  have err: "e = Some x \<Longrightarrow> sink_error x" for x
    using s assms(4) w unfolding sink_error_def by (metis fst_conv snd_conv)
  have snd': "sound ?b" using assms wr_inv [OF s(1) assms(4) s(2)] w by (simp add: sound_def)
  have "bufio_Write wr p b = bufio_Write wr [] ?b"
    using False assms w n by (subst bufio_Write.simps) simp
  also have "\<dots> = Some (e, ?b)"
    using assms by (cases e) (simp_all add: bufio_Write_err bufio_Write_fit)
  finally have r: "bufio_Write wr p b = Some (e, ?b)" .
  show ?thesis
  proof (cases e)
    case None
    have "progress b p F (None, ?b)"
      using snd' None wr_ok [OF s(1) assms(4)] w assms
      by (intro progress_ok) (auto simp: content_def)
    then show ?thesis using r None by simp
  next
    case (Some x)
    have "progress b p F (Some x, ?b)"
      using snd' wr_err [OF s(1) assms(4)] w assms Some err
      by (intro progress_error) (auto simp: content_def)
    then show ?thesis using r Some by simp
  qed
qed

text \<open>Filling the buffer and flushing it, the step the calls share.\<close>

lemma copy_flush_progress:
  assumes "sound b" "berr b = None" "length p > Available b"
  shows "sound (copy_flush wr p b)" "bsize (copy_flush wr p b) = bsize b"
    "berr (copy_flush wr p b) = None \<Longrightarrow> buf (copy_flush wr p b) = []"
    "progress b (take (Available b) p) F (berr (copy_flush wr p b), copy_flush wr p b)"
proof -
  let ?b = "b\<lparr>buf := buf b @ take (Available b) p\<rparr>"
  have s: "sound ?b" "berr ?b = None" "content ?b = content b @ take (Available b) p"
    using assms by (auto simp: sound_def Available_def content_def)
  have b1: "copy_flush wr p b = snd (Flush wr ?b)" using assms(3) by (simp add: copy_flush_def)
  note f = flush_progress [OF s(1,2), folded b1]
  then show "sound (copy_flush wr p b)" "bsize (copy_flush wr p b) = bsize b"
    "berr (copy_flush wr p b) = None \<Longrightarrow> buf (copy_flush wr p b) = []" by auto
  show "progress b (take (Available b) p) F (berr (copy_flush wr p b), copy_flush wr p b)"
    using f s by (cases "berr (copy_flush wr p b)") (auto intro!: progress_ok progress_error)
qed

lemma after_copy_flush:
  assumes "sound b" "berr b = None" "length p > Available b"
    and "berr (copy_flush wr p b) = None" "progress (copy_flush wr p b) (drop (Available b) p) F r"
  shows "progress b p F r"
  using progress_trans [OF copy_flush_progress(4) [OF assms(1-3), unfolded assms(4)] assms(5)]
  by simp

lemma failed_copy_flush:
  assumes "sound b" "berr b = None" "length p > Available b" "berr (copy_flush wr p b) = Some e"
  shows "progress b p F (Some e, copy_flush wr p b)"
  using prefix_weaken [OF copy_flush_progress(4) [OF assms(1-3), unfolded assms(4)],
      of "drop (Available b) p"]
  by simp

lemma bufio_Write_progress:
  assumes "sound b" "berr b = None" "length p \<le> L"
  shows "\<exists>r. bufio_Write wr p b = Some r \<and> progress b p F r"
proof (cases "length p \<le> Available b \<or> buf b = []")
  case True
  then show ?thesis using bufio_Write_empty bufio_Write_fit fit_progress assms by blast
next
  case False
  then have gt: "length p > Available b" and ne: "buf b \<noteq> []" by auto
  let ?b1 = "copy_flush wr p b"
  have step: "bufio_Write wr p b = bufio_Write wr (drop (Available b) p) ?b1"
    using gt ne assms by (subst bufio_Write.simps) simp
  show ?thesis
  proof (cases "berr ?b1")
    case None
    have "length (drop (Available b) p) \<le> L" using assms(3) by simp
    with bufio_Write_empty [OF copy_flush_progress(1) [OF assms(1,2) gt] None
        copy_flush_progress(3) [OF assms(1,2) gt None]]
    obtain r where "bufio_Write wr (drop (Available b) p) ?b1 = Some r"
      "progress ?b1 (drop (Available b) p) F r" by blast
    then show ?thesis using after_copy_flush [OF assms(1,2) gt None] step by auto
  next
    case (Some e)
    then show ?thesis using failed_copy_flush [OF assms(1,2) gt Some] step bufio_Write_err by auto
  qed
qed

lemma bufio_WriteString_progress:
  assumes "sound b" "berr b = None"
  shows "\<exists>r. bufio_WriteString wr p b = Some r \<and> progress b p F r"
  using assms
proof (induction "2 * length p + (if Available b = 0 then 1 else 0)" arbitrary: p b
    rule: less_induct)
  case less
  show ?case
  proof (cases "length p \<le> Available b")
    case True
    then have "bufio_WriteString wr p b = Some (None, b\<lparr>buf := buf b @ p\<rparr>)"
      using less.prems by (subst bufio_WriteString.simps) simp
    then show ?thesis using fit_progress less.prems True by blast
  next
    case False
    then have gt: "length p > Available b" by simp
    let ?b1 = "copy_flush wr p b"
    note c = copy_flush_progress [OF less.prems gt]
    have step: "bufio_WriteString wr p b = bufio_WriteString wr (drop (Available b) p) ?b1"
      using gt less.prems by (subst bufio_WriteString.simps) simp
    show ?thesis
    proof (cases "berr ?b1")
      case None
      have "Available ?b1 = bsize b" "0 < bsize b"
        using c(2) c(3) [OF None] less.prems by (auto simp: Available_def sound_def)
      then have "2 * length (drop (Available b) p) + (if Available ?b1 = 0 then 1 else 0) <
                 2 * length p + (if Available b = 0 then 1 else 0)"
        using gt by auto
      from less.hyps [OF this c(1) None] obtain r where
        "bufio_WriteString wr (drop (Available b) p) ?b1 = Some r"
        "progress ?b1 (drop (Available b) p) F r" by blast
      then show ?thesis using after_copy_flush [OF less.prems gt None] step by auto
    next
      case (Some e)
      have "bufio_WriteString wr (drop (Available b) p) ?b1 = Some (Some e, ?b1)"
        using Some by (subst bufio_WriteString.simps) simp
      then show ?thesis using failed_copy_flush [OF less.prems gt Some] step by auto
    qed
  qed
qed

subsection \<open>Reading from a reader\<close>

lemma io_read_some:
  assumes "0 < space" "io_read space r = ((d, None), r')"
  shows "length d \<le> space" "reader_bytes r = d @ reader_bytes r'"
    "reader_clean r \<Longrightarrow> reader_clean r' \<and> d \<noteq> []"
    "(\<Sum>(c, _)\<leftarrow>r'. Suc (length c)) < (\<Sum>(c, _)\<leftarrow>r. Suc (length c))"
  using assms
  by (cases r; cases "snd (hd r)"; auto split: if_splits simp flip: append_assoc)+

lemma io_read_end:
  assumes "io_read space r = ((d, Some e), r')"
  shows "length d \<le> space" "reader_bytes r = d" "reader_clean r \<Longrightarrow> e = io_EOF"
  using assms by (cases r; auto split: if_splits)+

lemma read_retry_some:
  assumes "0 < space" "read_retry n space r = (Some (d, None), r')"
  shows "length d \<le> space \<and> reader_bytes r = d @ reader_bytes r' \<and>
    (reader_clean r \<longrightarrow> reader_clean r') \<and>
    (\<Sum>(c, _)\<leftarrow>r'. Suc (length c)) < (\<Sum>(c, _)\<leftarrow>r. Suc (length c))"
  using assms(2)
proof (induction n arbitrary: r)
  case (Suc n)
  obtain d1 e1 r1 where rd: "io_read space r = ((d1, e1), r1)" by (metis prod.exhaust)
  show ?case
  proof (cases "d1 \<noteq> [] \<or> e1 \<noteq> None")
    case True
    then show ?thesis using Suc.prems rd io_read_some [OF assms(1)] by auto
  next
    case False
    then show ?thesis using Suc rd io_read_some [OF assms(1), of r "[]" r1] by fastforce
  qed
qed simp

lemma read_retry_end:
  assumes "0 < space" "read_retry n space r = (Some (d, Some e), r')"
  shows "length d \<le> space \<and> reader_bytes r = d \<and> (reader_clean r \<longrightarrow> e = io_EOF)"
  using assms(2)
proof (induction n arbitrary: r)
  case (Suc n)
  obtain d1 e1 r1 where rd: "io_read space r = ((d1, e1), r1)" by (metis prod.exhaust)
  show ?case
  proof (cases "d1 \<noteq> [] \<or> e1 \<noteq> None")
    case True
    then show ?thesis using Suc.prems rd io_read_end by auto
  next
    case False
    then show ?thesis using Suc rd io_read_some [OF assms(1), of r "[]" r1] by auto
  qed
qed simp

lemma read_retry_none:
  assumes "0 < space" "0 < n" "read_retry n space r = (None, r')"
  shows "\<not> reader_clean r"
  using assms io_read_some(3) [OF assms(1)]
  by (cases n) (auto split: prod.splits if_splits)


lemma ReadFrom_loop_progress:
  assumes "sound b" "berr b = None" "F = (if reader_clean r then {} else UNIV)"
  shows "\<exists>x. ReadFrom_loop wr r b = Some x \<and> progress b (reader_bytes r) F x"
  using assms
proof (induction "\<Sum>(c, _)\<leftarrow>r. Suc (length c)" arbitrary: r b F rule: less_induct)
  case less
  let ?fl = "if Available b = 0 then Flush wr b else (None, b)"
  obtain o0 b1 where fl: "?fl = (o0, b1)" by (metis prod.exhaust)
  note f = flush_progress [OF less.prems(1,2)]
  have b1: "sound b1" "bsize b1 = bsize b" "o0 = berr b1"
    using f(1-3) less.prems(1,2) fl by (auto split: if_splits)
  show ?case
  proof (cases "berr b1")
    case (Some e)
    then have z: "Available b = 0" using less.prems(2) fl by (auto split: if_splits)
    then have b1f: "b1 = snd (Flush wr b)" using fl by auto
    have "ReadFrom_loop wr r b = Some (Some e, b1)"
      using Some by (subst ReadFrom_loop.simps) (simp add: fl b1(3))
    moreover have "progress b (reader_bytes r) F (Some e, b1)"
      using f(5) [folded b1f] Some b1 by (intro progress_error) (auto intro: prefix_prefix)
    ultimately show ?thesis by blast
  next
    case None
    have c1: "content b1 = content b" using f(4) None fl by (auto split: if_splits)
    have sp: "0 < Available b1"
      using f(4) None fl b1 less.prems(1) by (auto simp: Available_def sound_def split: if_splits)
    have prefix_c1: "prefix (out (sink b1)) (content b @ w)" for w
      unfolding c1 [symmetric] by (simp add: content_def)
    have n0: "0 < maxConsecutiveEmptyReads" by (simp add: maxConsecutiveEmptyReads_def)
    have rest: "progress b (reader_bytes r) F x"
      if "progress (b1\<lparr>buf := buf b1 @ d\<rparr>) w F x" "reader_bytes r = d @ w"
        "length d \<le> Available b1" for x d w
    proof -
      have "progress b1 d F (None, b1\<lparr>buf := buf b1 @ d\<rparr>)"
        using fit_progress [OF b1(1) None that(3)] .
      from progress_trans [OF this that(1)] show ?thesis
        using that(2) c1 b1(2) by (simp add: progress_def)
    qed
    have snd1: "sound (b1\<lparr>buf := buf b1 @ d\<rparr>)" if "length d \<le> Available b1" for d
      using b1(1) that by (auto simp: sound_def Available_def)
    obtain o1 r1 where rr: "read_retry maxConsecutiveEmptyReads (Available b1) r = (o1, r1)"
      by (metis prod.exhaust)
    consider (noprog) "o1 = None" | (more) d where "o1 = Some (d, None)"
      | (ended) d e where "o1 = Some (d, Some e)" by (metis prod.exhaust option.exhaust)
    then show ?thesis
    proof cases
      case noprog
      then have F: "F = UNIV" using read_retry_none [OF sp n0] rr less.prems(3) by auto
      have "ReadFrom_loop wr r b = Some (Some ErrNoProgress, b1)"
        using noprog rr None
        by (subst ReadFrom_loop.simps) (simp add: fl b1(3))
      moreover have "progress b (reader_bytes r) F (Some ErrNoProgress, b1)"
        using F b1 prefix_c1 by (intro progress_error) auto
      ultimately show ?thesis by blast
    next
      case (more d)
      note m = read_retry_some [OF sp, of maxConsecutiveEmptyReads r d r1]
      have m': "length d \<le> Available b1" "reader_bytes r = d @ reader_bytes r1"
        "reader_clean r \<Longrightarrow> reader_clean r1"
        "(\<Sum>(c, _)\<leftarrow>r1. Suc (length c)) < (\<Sum>(c, _)\<leftarrow>r. Suc (length c))"
        using m rr more by auto
      let ?b2 = "b1\<lparr>buf := buf b1 @ d\<rparr>"
      have step: "ReadFrom_loop wr r b = ReadFrom_loop wr r1 ?b2"
        using more rr None
        by (subst ReadFrom_loop.simps) (simp add: fl b1(3))
      obtain x where x: "ReadFrom_loop wr r1 ?b2 = Some x"
        "progress ?b2 (reader_bytes r1) (if reader_clean r1 then {} else UNIV) x"
        using less.hyps [OF m'(4) snd1 [OF m'(1)] _ refl] None by auto
      have "progress ?b2 (reader_bytes r1) F x"
        using x(2) m'(3) less.prems(3) by (auto simp: progress_def split: if_splits)
      then show ?thesis using rest [OF _ m'(2,1)] x(1) step by auto
    next
      case (ended d e)
      have m: "length d \<le> Available b1" "reader_bytes r = d @ []"
        "reader_clean r \<Longrightarrow> e = io_EOF"
        using read_retry_end [OF sp, of maxConsecutiveEmptyReads r d e r1] rr ended by auto
      let ?b2 = "b1\<lparr>buf := buf b1 @ d\<rparr>"
      let ?x = "if e = io_EOF then (if Available ?b2 = 0 then Flush wr ?b2 else (None, ?b2))
                else (Some e, ?b2)"
      have step: "ReadFrom_loop wr r b = Some ?x"
        using ended rr None
        by (subst ReadFrom_loop.simps) (simp add: fl b1(3) Let_def)
      note f2 = flush_progress [OF snd1 [OF m(1)], simplified None, simplified]
      have "progress ?b2 [] F ?x"
      proof (cases "e = io_EOF \<and> Available ?b2 = 0")
        case True
        obtain fe b3 where fl2: "Flush wr ?b2 = (fe, b3)" by (metis prod.exhaust)
        with f2 True snd1 [OF m(1)] None show ?thesis
          by (cases "berr b3") (auto intro!: progress_ok progress_error)
      next
        case False
        then show ?thesis
          using snd1 [OF m(1)] None m(3) less.prems(3)
          by (auto intro!: progress_ok progress_error simp: content_def)
      qed
      then show ?thesis using rest [OF _ m(2,1)] step by auto
    qed
  qed
qed

subsection \<open>Sequences of calls\<close>

lemma do_op_progress:
  assumes "sound b" "berr b = None" "op_max x \<le> L"
  shows "\<exists>r. do_op wr x b = Some r \<and> progress b (op_bytes x) (op_fail x) r"
  using assms ReadFrom_loop_progress [OF assms(1,2) refl] bufio_Write_progress
    bufio_WriteString_progress
  by (cases x) (simp_all add: bufio_ReadFrom_def op_fail_def)

text \<open>
  A sequence of calls always returns; on success it has written just its bytes, and a failure
  leaves the sink with a prefix of them.
\<close>

lemma do_ops_progress:
  assumes "sound b" "berr b = None" "\<forall>x\<in>set xs. op_max x \<le> L"
  shows "\<exists>r. do_ops wr xs own b = Some r \<and>
    progress b (ops_bytes xs) ((\<Union>x\<in>set xs. op_fail x) \<union> set_option own) r \<and>
    (fst r = None \<longrightarrow> own = None)"
  using assms
proof (induction xs arbitrary: b)
  case Nil
  then have "progress b [] (set_option own) (own, b)"
    by (cases own) (auto intro: progress_ok progress_error simp: content_def)
  then show ?case by (simp add: ops_bytes_def)
next
  case (Cons x xs)
  let ?F = "(\<Union>x\<in>set (x # xs). op_fail x) \<union> set_option own"
  obtain e b1 where r: "do_op wr x b = Some (e, b1)" "progress b (op_bytes x) (op_fail x) (e, b1)"
    using do_op_progress [of b x] Cons.prems by auto
  have r': "progress b (op_bytes x) ?F (e, b1)"
    using r(2) by (auto simp: progress_def)
  show ?case
  proof (cases e)
    case None
    then have b1: "sound b1" "berr b1 = None" using r(2) by (auto simp: progress_def)
    obtain q where q: "do_ops wr xs own b1 = Some q"
      "progress b1 (ops_bytes xs) ((\<Union>x\<in>set xs. op_fail x) \<union> set_option own) q"
      "fst q = None \<longrightarrow> own = None"
      using Cons.IH [OF b1] Cons.prems by auto
    have "progress b1 (ops_bytes xs) ?F q" using q(2) by (auto simp: progress_def)
    from progress_trans [OF r' [unfolded None] this] show ?thesis
      using r(1) q(1,3) None by (simp add: ops_bytes_def)
  next
    case (Some y)
    from prefix_weaken [OF r' [unfolded Some], of "ops_bytes xs"] show ?thesis
      using r(1) Some by (simp add: ops_bytes_def)
  qed
qed

end

section \<open>A sink that never fails\<close>

locale reliable_writer = io_writer +
  assumes wr_reliable: "inv s \<Longrightarrow> length d \<le> L \<Longrightarrow> snd (fst (wr s d)) = None"
begin

lemma no_sink_error: "\<not> sink_error e"
  using wr_reliable by (auto simp: sink_error_def)

lemma flush_reliable:
  "sound b \<Longrightarrow> berr b = None \<Longrightarrow> fst (Flush wr b) = None"
  using flush_progress(3,5) no_sink_error by (metis not_None_eq)

text \<open>Over such a sink only a serialiser's own failures are left.\<close>

lemma do_ops_reliable:
  assumes "sound b" "berr b = None" "\<forall>x\<in>set xs. op_max x \<le> L \<and> op_clean x"
  shows "\<exists>b'. do_ops wr xs None b = Some (None, b') \<and> sound b' \<and> bsize b' = bsize b \<and>
    berr b' = None \<and> content b' = content b @ ops_bytes xs"
proof -
  obtain r where r: "do_ops wr xs None b = Some r"
    "progress b (ops_bytes xs) ((\<Union>x\<in>set xs. op_fail x) \<union> set_option None) r"
    using do_ops_progress [of b xs None] assms by blast
  have "(\<Union>x\<in>set xs. op_fail x) = {}" using assms(3) by (simp add: op_fail_def)
  then have "fst r = None" using r(2) no_sink_error by (cases "fst r") (auto simp: progress_def)
  then show ?thesis using r by (cases r) (auto simp: progress_def)
qed

end

section \<open>Responses that fill the buffer exactly\<close>

text \<open>Writes that fit stay in the buffer.\<close>

fun plain_write :: "wop \<Rightarrow> bool" where
  "plain_write (ReadFromOp r) = False"
| "plain_write _ = True"

lemma write_fits:
  assumes "berr b = None" "plain_write x" "length (op_bytes x) \<le> Available b"
  shows "do_op wr x b = Some (None, b\<lparr>buf := buf b @ op_bytes x\<rparr>)"
proof (cases x)
  case (WriteOp p)
  then show ?thesis using assms by (simp, subst bufio_Write.simps) simp
next
  case (WriteStringOp p)
  then show ?thesis using assms by (simp, subst bufio_WriteString.simps) simp
qed (use assms in simp)

lemma writes_fit:
  assumes "berr b = None" "list_all plain_write hs" "length (buf b) + length (ops_bytes hs) \<le> bsize b"
  shows "do_ops wr (hs @ xs) own b = do_ops wr xs own (b\<lparr>buf := buf b @ ops_bytes hs\<rparr>)"
  using assms
proof (induction hs arbitrary: b)
  case (Cons x hs)
  have "do_op wr x b = Some (None, b\<lparr>buf := buf b @ op_bytes x\<rparr>)"
    using Cons.prems by (intro write_fits) (simp_all add: Available_def ops_bytes_def)
  then show ?case
    using Cons.prems Cons.IH [of "b\<lparr>buf := buf b @ op_bytes x\<rparr>"] by (simp add: ops_bytes_def)
qed (simp add: ops_bytes_def)

lemma read_retry_first:
  assumes "d \<noteq> [] \<or> e \<noteq> None" "length d \<le> n"
  shows "read_retry maxConsecutiveEmptyReads n ((d, e) # es) = (Some (d, e), es)"
  using assms by (simp add: maxConsecutiveEmptyReads_def numeral_eq_Suc)

lemma read_retry_eof: "read_retry maxConsecutiveEmptyReads n [] = (Some ([], Some io_EOF), [])"
  by (simp add: maxConsecutiveEmptyReads_def numeral_eq_Suc)

text \<open>
  Copying a reader whose bytes fill the buffer flushes it before the copy returns, whether the
  reader's end comes with its last bytes or after them.
\<close>

lemma ReadFrom_fill:
  assumes "reader_clean r" "berr b = None" "length (buf b) + length (reader_bytes r) = bsize b"
    and "Flush wr (b\<lparr>buf := buf b @ reader_bytes r\<rparr>) = (None, f)" "buf f = []" "bsize f = bsize b"
    and "0 < bsize b"
  shows "ReadFrom_loop wr r b = Some (None, f)"
  using assms
proof (induction r arbitrary: b rule: reader_clean.induct)
  case 1
  then show ?case by (subst ReadFrom_loop.simps) (simp add: Available_def read_retry_eof)
next
  case (2 d es)
  have room: "Available b \<noteq> 0" and d: "d \<noteq> []" "length d \<le> Available b"
    using 2 by (cases d; simp add: Available_def)+
  have "ReadFrom_loop wr es (b\<lparr>buf := buf b @ d\<rparr>) = Some (None, f)"
    using 2 by simp
  then show ?case
    using room read_retry_first [of d None "Available b" es] d by (subst ReadFrom_loop.simps) simp
next
  case (3 d e es)
  have e: "e = io_EOF" and l: "length (buf b) + length d = bsize b"
    and f: "Flush wr (b\<lparr>buf := buf b @ d\<rparr>) = (None, f)" using 3 by simp_all
  show ?case
  proof (cases "Available b = 0")
    case True
    then have "bsize b \<le> length (buf b)" by (simp add: Available_def)
    with l have "length d = 0" by linarith
    then have "d = []" by simp
    then show ?thesis
      using 3 True e f read_retry_first [of "[]" "Some io_EOF" "Available f" es]
      by (subst ReadFrom_loop.simps) (simp add: Available_def)
  next
    case False
    then show ?thesis
      using l e f read_retry_first [of d "Some io_EOF" "Available b" es]
      by (subst ReadFrom_loop.simps) (simp add: Available_def)
  qed
qed

end
