(* ===== verification/ResponseWriter.thy ===== *)
theory ResponseWriter
  imports NatsConn Bufio
begin

text \<open>
  How the edge streams a response back (\<open>pkg/cmds/run.go\<close>): \<open>natsWriter\<close> publishes every
  write as one message on the reply subject, an 8 KB \<open>bufio.Writer\<close> from a pool sits in front
  of it, and the last message is marked by the header \<open>Done\<close>, empty on success and the error's
  text otherwise.
\<close>

section \<open>The writer\<close>

definition HeaderKeyDone :: string where "HeaderKeyDone = ''Done''"

record natsWriter =
  NW_nc :: nats_conn
  NW_subj :: string
  NW_final :: bool

definition natsWriter_Write :: "natsWriter io_write" where
  "natsWriter_Write w data =
     (let h = (if NW_final w then header_set HeaderKeyDone [] [] else []);
          (err, nc) = PublishMsg (NW_subj w) [] h data (NW_nc w)
      in ((length data, err), w\<lparr>NW_nc := nc\<rparr>))"

definition WriteError :: "go_error option \<Rightarrow> natsWriter \<Rightarrow> (nat \<times> go_error option) \<times> natsWriter" where
  "WriteError err w =
     (let h = (if NW_final w
               then (case err of None \<Rightarrow> header_set HeaderKeyDone [] []
                     | Some e \<Rightarrow> header_set HeaderKeyDone (err_text e) [])
               else []);
          (e, nc) = PublishMsg (NW_subj w) [] h [] (NW_nc w)
      in ((0, e), w\<lparr>NW_nc := nc\<rparr>))"

definition bufferSize :: nat where "bufferSize = 8 * 1024"

text \<open>
  The end of the subscription callback. A writer from the pool is new or was left there by an
  earlier response, so it holds anything but has the pool's size. The response is the calls
  \<open>http.Response.Write\<close> makes on the writer. What is returned: the errors logged, the
  connection, and the writer that goes back to the pool.
\<close>

definition pooled :: "'s bufio \<Rightarrow> bool" where
  "pooled b \<longleftrightarrow> bsize b = bufferSize"

definition set_final :: "natsWriter bufio \<Rightarrow> natsWriter bufio" where
  "set_final b = b\<lparr>sink := (sink b)\<lparr>NW_final := True\<rparr>\<rparr>"

definition finish_response ::
    "go_error option \<Rightarrow> natsWriter bufio \<Rightarrow> go_error list \<times> natsWriter bufio" where
  "finish_response err w =
     (case err of
        Some e \<Rightarrow> ([], w\<lparr>sink := snd (WriteError (Some e) (sink w))\<rparr>)
      | None \<Rightarrow>
          if length (buf w) > 0 then
            (let (e2, w') = Flush natsWriter_Write w in (case e2 of None \<Rightarrow> [] | Some e \<Rightarrow> [e], w'))
          else
            (let ((_, e2), s) = natsWriter_Write (sink w) []
             in (case e2 of None \<Rightarrow> [] | Some e \<Rightarrow> [e], w\<lparr>sink := s\<rparr>)))"

definition write_response ::
    "wop list \<Rightarrow> go_error option \<Rightarrow> natsWriter bufio \<Rightarrow> string \<Rightarrow> nats_conn \<Rightarrow>
     (go_error list \<times> natsWriter bufio) option" where
  "write_response calls own w0 reply nc =
     (let ncw = \<lparr>NW_nc = nc, NW_subj = reply, NW_final = False\<rparr>;
          w = Reset ncw w0
      in case do_ops natsWriter_Write calls own w of
           None \<Rightarrow> None
         | Some (err, w1) \<Rightarrow> Some (finish_response err (set_final w1)))"

section \<open>Messages of a response\<close>

definition data_message :: "string \<Rightarrow> bytes \<Rightarrow> wire_msg" where
  "data_message subj d = \<lparr>W_Subject = subj, W_Reply = [], W_Header = [], W_Data = d\<rparr>"

definition done_message :: "string \<Rightarrow> string \<Rightarrow> bytes \<Rightarrow> wire_msg" where
  "done_message subj v d =
     \<lparr>W_Subject = subj, W_Reply = [], W_Header = headerBytes [(HeaderKeyDone, [v])], W_Data = d\<rparr>"

definition done_value :: "msg \<Rightarrow> string list option" where
  "done_value m = map_of (M_Header m) HeaderKeyDone"

lemma HeaderKeyDone_valid: "valid_field_name HeaderKeyDone"
  by (simp add: valid_field_name_def HeaderKeyDone_def token_char_def)

lemma deliver_data_message [simp]:
  "deliver (data_message subj d) = \<lparr>M_Reply = [], M_Header = [], M_Data = d\<rparr>"
  by (simp add: deliver_def data_message_def)

lemma deliver_done_message [simp]:
  "deliver (done_message subj v d) =
     \<lparr>M_Reply = [], M_Header = [(HeaderKeyDone, [sanitize v])], M_Data = d\<rparr>"
  using header_single [OF HeaderKeyDone_valid, of v]
  by (simp add: deliver_def done_message_def headerBytes_def hdrLine_def)

lemma done_value_simps [simp]:
  "done_value (deliver (data_message subj d)) = None"
  "done_value (deliver (done_message subj v d)) = Some [sanitize v]"
  by (simp_all add: done_value_def)

lemma message_fields [simp]:
  "W_Data (data_message subj d) = d" "W_Data (done_message subj v d) = d"
  "W_Subject (data_message subj d) = subj" "W_Subject (done_message subj v d) = subj"
  by (simp_all add: data_message_def done_message_def)

lemma natsWriter_Write_plain:
  "\<not> NW_final w \<Longrightarrow> natsWriter_Write w d =
     (let (e, nc) = publish (NW_subj w) [] False [] d (NW_nc w)
      in ((length d, e), w\<lparr>NW_nc := nc\<rparr>))"
  by (simp add: natsWriter_Write_def PublishMsg_def headerBytes_def)

lemma publish_plain_outbox:
  assumes "publish subj [] False [] d nc = (e, nc')"
  shows "outbox nc' = outbox nc @ (if e = None then [data_message subj d] else [])"
  using publish_outbox [of subj "[]" False "[]" d nc] assms by (simp add: data_message_def)

lemma publish_done_outbox:
  assumes "PublishMsg subj [] [(HeaderKeyDone, [v])] d nc = (e, nc')"
  shows "outbox nc' = outbox nc @ (if e = None then [done_message subj v d] else [])"
  using publish_outbox [of subj "[]" False "headerBytes [(HeaderKeyDone, [v])]" d nc] assms
  by (simp add: PublishMsg_def done_message_def)

section \<open>The writer as a sink\<close>

text \<open>
  While a response is written, the connection's output is what it was (\<open>old\<close>) and then plain
  messages with data on the reply subject.
\<close>

definition sent :: "nat \<Rightarrow> natsWriter \<Rightarrow> wire_msg list" where
  "sent k s = drop k (outbox (NW_nc s))"

definition sent_data :: "nat \<Rightarrow> natsWriter \<Rightarrow> bytes" where
  "sent_data k s = concat (map W_Data (sent k s))"

definition plain_message :: "nat \<Rightarrow> string \<Rightarrow> wire_msg \<Rightarrow> bool" where
  "plain_message L subj m \<longleftrightarrow> m = data_message subj (W_Data m) \<and> W_Data m \<noteq> [] \<and> length (W_Data m) \<le> L"

definition writing :: "nat \<Rightarrow> nats_conn \<Rightarrow> string \<Rightarrow> natsWriter \<Rightarrow> bool" where
  "writing L nc subj s \<longleftrightarrow> NW_subj s = subj \<and> \<not> NW_final s \<and>
     status_at (NW_nc s) = status_at nc \<and>
     (\<exists>ms. outbox (NW_nc s) = outbox nc @ ms \<and> (\<forall>m\<in>set ms. plain_message L subj m))"

lemma writing_start: "writing L nc subj \<lparr>NW_nc = nc, NW_subj = subj, NW_final = False\<rparr>"
  by (simp add: writing_def)

lemma writing_publish:
  assumes "writing L nc subj s" "publish subj [] False [] d (NW_nc s) = (e, nc')" "d \<noteq> []"
    "length d \<le> L"
  shows "writing L nc subj (s\<lparr>NW_nc := nc'\<rparr>)"
proof -
  obtain ms where ms: "outbox (NW_nc s) = outbox nc @ ms" "\<forall>m\<in>set ms. plain_message L subj m"
    using assms(1) by (auto simp: writing_def)
  have "outbox nc' = outbox nc @ ms @ (if e = None then [data_message subj d] else [])"
    using publish_plain_outbox [OF assms(2)] ms(1) by simp
  moreover have "status_at nc' = status_at (NW_nc s)"
    using publish_frame(1) [of subj "[]" False "[]" d "NW_nc s"] assms(2) by simp
  moreover have "plain_message L subj (data_message subj d)"
    using assms(3,4) by (simp add: plain_message_def)
  ultimately show ?thesis
    using assms(1) ms(2) by (auto simp: writing_def intro!: exI [of _ "ms @ (if e = None then [data_message subj d] else [])"])
qed

lemma sent_data_publish:
  assumes "writing L nc subj s" "publish subj [] False [] d (NW_nc s) = (e, nc')"
  shows "sent_data (length (outbox nc)) (s\<lparr>NW_nc := nc'\<rparr>) =
    sent_data (length (outbox nc)) s @ (if e = None then d else [])"
  using assms(1) publish_plain_outbox [OF assms(2)]
  by (auto simp: writing_def sent_data_def sent_def)

interpretation nw: io_writer natsWriter_Write "sent_data (length (outbox nc))" "writing L nc subj" L
  for nc subj L
proof unfold_locales
  fix s d n e s' x
  show "natsWriter_Write s d = ((n, e), s') \<Longrightarrow> n = length d"
    by (auto simp: natsWriter_Write_def Let_def split: prod.splits)
  assume w: "writing L nc subj s" and l: "length d \<le> L"
  then have plain: "natsWriter_Write s d =
     (let (e, nc') = publish subj [] False [] d (NW_nc s) in ((length d, e), s\<lparr>NW_nc := nc'\<rparr>))"
    by (subst natsWriter_Write_plain) (auto simp: writing_def)
  note pub = sent_data_publish [OF w]
  show "natsWriter_Write s d = ((n, None), s') \<Longrightarrow>
      sent_data (length (outbox nc)) s' = sent_data (length (outbox nc)) s @ d"
    using pub by (auto simp: plain split: prod.splits)
  show "natsWriter_Write s d = ((n, Some x), s') \<Longrightarrow>
      sent_data (length (outbox nc)) s' = sent_data (length (outbox nc)) s"
    using pub by (auto simp: plain split: prod.splits)
  show "d \<noteq> [] \<Longrightarrow> writing L nc subj (snd (natsWriter_Write s d))"
    using writing_publish [OF w _ _ l] by (simp add: plain split: prod.splits)
qed

text \<open>A connection that stays up and takes messages of at most \<open>M\<close> bytes, headers included.\<close>

definition healthy :: "nat \<Rightarrow> nats_conn \<Rightarrow> bool" where
  "healthy M nc \<longleftrightarrow> (\<forall>i. let st = status_at nc i in
     \<not> closed st \<and> \<not> draining st \<and> headers_supported st \<and>
     (connecting st \<or> int M \<le> max_payload st) \<and> \<not> buffer_full st \<and> append_error st = None)"

lemma healthy_publish:
  assumes "healthy M nc" "validateSubject subj" "length hdr + length d \<le> M"
    "status_at nc' = status_at nc"
  shows "fst (publish subj [] False hdr d nc') = None"
proof -
  let ?st = "status_at nc (ops nc')"
  have "\<not> closed ?st" "\<not> draining ?st" "headers_supported ?st"
    "connecting ?st \<or> int M \<le> max_payload ?st" "\<not> buffer_full ?st" "append_error ?st = None"
    using assms(1) by (auto simp: healthy_def Let_def)
  then show ?thesis
    using assms(2-4) by (auto simp: publish_None_iff publish_check_def)
qed

interpretation rw: reliable_writer natsWriter_Write "sent_data (length (outbox nc))"
  "\<lambda>s. writing M nc subj s \<and> healthy M nc \<and> validateSubject subj" M
  for nc subj M
proof unfold_locales
  fix s d n e s' x
  show "natsWriter_Write s d = ((n, e), s') \<Longrightarrow> n = length d"
    by (rule nw.wr_full)
  assume w: "writing M nc subj s \<and> healthy M nc \<and> validateSubject subj" and l: "length d \<le> M"
  show "natsWriter_Write s d = ((n, None), s') \<Longrightarrow>
      sent_data (length (outbox nc)) s' = sent_data (length (outbox nc)) s @ d"
    using w l nw.wr_ok by blast
  show "natsWriter_Write s d = ((n, Some x), s') \<Longrightarrow>
      sent_data (length (outbox nc)) s' = sent_data (length (outbox nc)) s"
    using w l nw.wr_err by blast
  show "d \<noteq> [] \<Longrightarrow> writing M nc subj (snd (natsWriter_Write s d)) \<and> healthy M nc \<and>
      validateSubject subj"
    using w l nw.wr_inv by blast
  have "fst (publish subj [] False [] d (NW_nc s)) = None"
    using w l healthy_publish [of M nc subj "[]" d "NW_nc s"] by (simp add: writing_def)
  then show "snd (fst (natsWriter_Write s d)) = None"
    using w by (auto simp: natsWriter_Write_plain writing_def split: prod.splits)
qed

section \<open>The end of a response\<close>

lemma header_set_done [simp]: "header_set HeaderKeyDone v [] = [(HeaderKeyDone, [v])]"
  by (simp add: header_set_def)

lemma pooled_Reset [simp]: "pooled (Reset s b) = pooled b"
  by (simp add: pooled_def Reset_def)

text \<open>
  What \<open>finish_response\<close> appends to the output: nothing or one marked message, which holds what
  the buffer had left, or the error's text and no data.
\<close>

definition final_data :: "go_error option \<Rightarrow> natsWriter bufio \<Rightarrow> bytes" where
  "final_data err w = (if err = None then buf w else [])"

definition final_value :: "go_error option \<Rightarrow> string" where
  "final_value err = (case err of None \<Rightarrow> [] | Some e \<Rightarrow> err_text e)"

definition final_error :: "go_error option \<Rightarrow> natsWriter bufio \<Rightarrow> go_error option" where
  "final_error err w = fst (PublishMsg (NW_subj (sink w)) []
     [(HeaderKeyDone, [final_value err])] (final_data err w) (NW_nc (sink w)))"

lemma finish_response_sends:
  assumes "err = None \<Longrightarrow> berr w = None" "finish_response err (set_final w) = (logs, w')"
  shows "bsize w' = bsize w"
    "outbox (NW_nc (sink w')) = outbox (NW_nc (sink w)) @
       (if final_error err w = None
        then [done_message (NW_subj (sink w)) (final_value err) (final_data err w)] else [])"
    "logs = (if err = None then (case final_error err w of None \<Rightarrow> [] | Some e \<Rightarrow> [e]) else [])"
proof -
  obtain fe nc' where p: "PublishMsg (NW_subj (sink w)) [] [(HeaderKeyDone, [final_value err])]
      (final_data err w) (NW_nc (sink w)) = (fe, nc')" by (metis prod.exhaust)
  have fe: "final_error err w = fe" using p by (simp add: final_error_def)
  have out: "outbox nc' = outbox (NW_nc (sink w)) @ (if fe = None
      then [done_message (NW_subj (sink w)) (final_value err) (final_data err w)] else [])"
    using publish_done_outbox [OF p] .
  have "NW_nc (sink w') = nc' \<and> bsize w' = bsize w \<and>
    logs = (if err = None then (case fe of None \<Rightarrow> [] | Some e \<Rightarrow> [e]) else [])"
    using assms p
    by (cases err; cases fe)
      (auto simp: finish_response_def set_final_def Flush_def natsWriter_Write_def WriteError_def
        final_data_def final_value_def Let_def split: if_splits)
  then show "bsize w' = bsize w"
    "outbox (NW_nc (sink w')) = outbox (NW_nc (sink w)) @
       (if final_error err w = None
        then [done_message (NW_subj (sink w)) (final_value err) (final_data err w)] else [])"
    "logs = (if err = None then (case final_error err w of None \<Rightarrow> [] | Some e \<Rightarrow> [e]) else [])"
    using out fe by auto
qed

section \<open>Whole responses\<close>

lemma writing_messages:
  assumes "writing L nc subj s"
  obtains ms where "outbox (NW_nc s) = outbox nc @ ms" "\<forall>m\<in>set ms. plain_message L subj m"
    "sent_data (length (outbox nc)) s = concat (map W_Data ms)"
  using assms by (auto simp: writing_def sent_data_def sent_def)

text \<open>The most data one message can hold: the buffer, or a larger single write.\<close>

definition response_bound :: "wop list \<Rightarrow> nat" where
  "response_bound calls = fold max (map op_max calls) bufferSize"

lemma fold_max_bound: "(n::nat) \<le> fold max xs n \<and> (\<forall>x\<in>set xs. x \<le> fold max xs n)"
  by (induction xs arbitrary: n) (simp, metis fold_simps(2) max.bounded_iff set_ConsD)

lemma response_bound: "bufferSize \<le> response_bound calls"
  "\<forall>x\<in>set calls. op_max x \<le> response_bound calls"
  using fold_max_bound [of bufferSize "map op_max calls"] by (auto simp: response_bound_def)

text \<open>Where a failure comes from: the connection, the serialiser, or the body it reads.\<close>

definition write_error :: "nats_conn \<Rightarrow> string \<Rightarrow> wop list \<Rightarrow> go_error option \<Rightarrow> go_error \<Rightarrow> bool" where
  "write_error nc reply calls own e \<longleftrightarrow>
     nw.sink_error (response_bound calls) nc reply e \<or> own = Some e \<or>
     (\<exists>x\<in>set calls. \<not> op_clean x)"

text \<open>
  Writing a response always ends. The connection has then sent plain messages and at most one
  marked message after them; with the mark empty on success the data is the response, with an
  error's text the data is a beginning of it; and when nothing marked was sent an error was.
\<close>

definition response_sent ::
    "nats_conn \<Rightarrow> string \<Rightarrow> wop list \<Rightarrow> go_error option \<Rightarrow> go_error list \<Rightarrow> wire_msg list \<Rightarrow>
     wire_msg list \<Rightarrow> go_error option \<Rightarrow> bytes \<Rightarrow> bool" where
  "response_sent nc reply calls own logs ms fin err d \<longleftrightarrow>
     (\<forall>m\<in>set ms. plain_message (response_bound calls) reply m) \<and>
     (fin = [] \<or> fin = [done_message reply (final_value err) d]) \<and>
     length d \<le> bufferSize \<and>
     (case err of
       None \<Rightarrow> own = None \<and> concat (map W_Data ms) @ d = ops_bytes calls \<and> (logs = [] \<longleftrightarrow> fin \<noteq> [])
     | Some e \<Rightarrow> d = [] \<and> logs = [] \<and> prefix (concat (map W_Data ms)) (ops_bytes calls) \<and>
         write_error nc reply calls own e)"

lemma start_sound:
  assumes "pooled w0" "w = Reset \<lparr>NW_nc = nc, NW_subj = reply, NW_final = False\<rparr> w0"
  shows "nw.sound (response_bound calls) nc reply w" "berr w = None" "nw.content nc w = []"
    "bsize w = bufferSize"
  using assms response_bound(1) [of calls] writing_start
  by (auto simp: nw.sound_def nw.content_def Reset_def pooled_def bufferSize_def
      sent_data_def sent_def)

lemma write_response_sends:
  assumes "pooled w0"
  shows "\<exists>logs w' ms fin err d. write_response calls own w0 reply nc = Some (logs, w') \<and>
    pooled w' \<and> outbox (NW_nc (sink w')) = outbox nc @ ms @ fin \<and>
    response_sent nc reply calls own logs ms fin err d"
proof -
  let ?w = "Reset \<lparr>NW_nc = nc, NW_subj = reply, NW_final = False\<rparr> w0"
  let ?L = "response_bound calls"
  note s = start_sound [OF assms refl, where nc = nc and reply = reply]
  from nw.do_ops_progress [OF s(1,2) response_bound(2) [of calls], where own = own]
  obtain err w1 where d: "do_ops natsWriter_Write calls own ?w = Some (err, w1)"
    and p: "nw.progress nc ?L reply ?w (ops_bytes calls)
        ((\<Union>x\<in>set calls. op_fail x) \<union> set_option own) (err, w1)"
    and own: "err = None \<longrightarrow> own = None" by auto
  have w1: "writing ?L nc reply (sink w1)" "bsize w1 = bufferSize" "err = None \<Longrightarrow> berr w1 = None"
    "length (buf w1) \<le> bufferSize"
    using p s(4) by (auto simp: nw.progress_def nw.sound_def)
  obtain ms where ms: "outbox (NW_nc (sink w1)) = outbox nc @ ms"
    "\<forall>m\<in>set ms. plain_message ?L reply m"
    "sent_data (length (outbox nc)) (sink w1) = concat (map W_Data ms)"
    using writing_messages [OF w1(1)] by blast
  obtain logs w' where fin: "finish_response err (set_final w1) = (logs, w')"
    by (metis prod.exhaust)
  note f = finish_response_sends [OF w1(3) fin]
  define fm where "fm = (if final_error err w1 = None
    then [done_message reply (final_value err) (final_data err w1)] else [])"
  have "NW_subj (sink w1) = reply" using w1(1) by (simp add: writing_def)
  then have out: "outbox (NW_nc (sink w')) = outbox nc @ ms @ fm"
    using f(2) ms(1) by (simp add: fm_def)
  have "case err of
       None \<Rightarrow> own = None \<and> concat (map W_Data ms) @ final_data err w1 = ops_bytes calls \<and>
         (logs = [] \<longleftrightarrow> fm \<noteq> [])
     | Some e \<Rightarrow> final_data err w1 = [] \<and> logs = [] \<and>
         prefix (concat (map W_Data ms)) (ops_bytes calls) \<and> write_error nc reply calls own e"
  proof (cases err)
    case None
    then show ?thesis
      using p s(3) ms(3) own f(3)
      by (auto simp: nw.progress_def nw.content_def final_data_def fm_def split: option.splits)
  next
    case (Some e)
    have "write_error nc reply calls own e"
      using p Some by (auto simp: nw.progress_def write_error_def op_fail_def split: if_splits)
    then show ?thesis
      using p s(3) ms(3) Some f(3) by (auto simp: nw.progress_def final_data_def)
  qed
  then have "response_sent nc reply calls own logs ms fm err (final_data err w1)"
    using ms(2) w1(4) by (auto simp: response_sent_def fm_def final_data_def)
  moreover have "write_response calls own w0 reply nc = Some (logs, w')"
    using d fin by (simp add: write_response_def Let_def)
  moreover have "pooled w'" using f(1) w1(2) by (simp add: pooled_def)
  ultimately show ?thesis using out by blast
qed

text \<open>Nothing an earlier response left in a pooled writer shows in the next.\<close>

lemma write_response_pool:
  "pooled w \<Longrightarrow> pooled w' \<Longrightarrow>
   write_response calls own w reply nc = write_response calls own w' reply nc"
  by (cases w; cases w') (simp add: write_response_def Reset_def pooled_def)

text \<open>On a healthy connection a response that can be serialised arrives whole.\<close>

definition done_overhead :: nat where
  "done_overhead = length (headerBytes [(HeaderKeyDone, [[]])])"

lemma done_overhead: "done_overhead = 20"
  by (simp add: done_overhead_def headerBytes_def hdrLine_def header_pairs_def HeaderKeyDone_valid
      header_line_def crlf_def) (simp add: HeaderKeyDone_def)

lemma write_response_healthy:
  assumes "pooled w0" "healthy M nc" "validateSubject reply" "bufferSize + done_overhead \<le> M"
    "\<forall>x\<in>set calls. op_max x \<le> M \<and> op_clean x"
  shows "\<exists>w' ms d. write_response calls None w0 reply nc = Some ([], w') \<and> pooled w' \<and>
    outbox (NW_nc (sink w')) = outbox nc @ ms @ [done_message reply [] d] \<and>
    (\<forall>m\<in>set ms. plain_message M reply m) \<and>
    concat (map W_Data ms) @ d = ops_bytes calls"
proof -
  let ?w = "Reset \<lparr>NW_nc = nc, NW_subj = reply, NW_final = False\<rparr> w0"
  have s: "rw.sound M nc reply ?w" "berr ?w = None" "rw.content nc ?w = []"
    "bsize ?w = bufferSize"
    using assms writing_start [of M nc reply] unfolding rw.sound_def rw.content_def
    by (auto simp: Reset_def sent_data_def sent_def pooled_def bufferSize_def)
  obtain w1 where w1: "do_ops natsWriter_Write calls None ?w = Some (None, w1)"
    "rw.sound M nc reply w1" "bsize w1 = bufferSize" "berr w1 = None"
    "rw.content nc w1 = ops_bytes calls"
    using rw.do_ops_reliable [OF s(1,2) assms(5)] s(3,4) by auto
  have wr: "writing M nc reply (sink w1)" "length (buf w1) \<le> bufferSize"
    using w1 unfolding rw.sound_def by auto
  obtain ms where ms: "outbox (NW_nc (sink w1)) = outbox nc @ ms"
    "\<forall>m\<in>set ms. plain_message M reply m"
    "sent_data (length (outbox nc)) (sink w1) = concat (map W_Data ms)"
    using writing_messages [OF wr(1)] by blast
  obtain logs w' where fin: "finish_response None (set_final w1) = (logs, w')"
    by (metis prod.exhaust)
  note f = finish_response_sends [OF w1(4) fin]
  have subj: "NW_subj (sink w1) = reply" "status_at (NW_nc (sink w1)) = status_at nc"
    using wr(1) by (auto simp: writing_def)
  have "final_error None w1 = None"
    using healthy_publish [OF assms(2,3), of "headerBytes [(HeaderKeyDone, [[]])]" "buf w1"]
      subj wr(2) assms(4)
    by (simp add: final_error_def PublishMsg_def final_value_def final_data_def done_overhead_def)
  then have "outbox (NW_nc (sink w')) = outbox nc @ ms @ [done_message reply [] (buf w1)]"
    "logs = []" "pooled w'"
    using f subj ms(1) w1(3) by (simp_all add: final_value_def final_data_def pooled_def)
  moreover have "write_response calls None w0 reply nc = Some (logs, w')"
    using w1(1) fin by (simp add: write_response_def Let_def)
  moreover have "concat (map W_Data ms) @ buf w1 = ops_bytes calls"
    using w1(5) ms(3) by (simp add: rw.content_def)
  ultimately show ?thesis using ms(2) by blast
qed

section \<open>Properties\<close>

text \<open>A new pool writer, and a short response: status line, a header block and a small body.\<close>

definition new_writer :: "natsWriter bufio" where
  "new_writer = \<lparr>buf = [], bsize = bufferSize, berr = None,
     sink = \<lparr>NW_nc = live_conn 0, NW_subj = [], NW_final = False\<rparr>\<rparr>"

definition sample_response :: "wop list" where
  "sample_response = [WriteOp ''HTTP/1.1 200 OK'', WriteStringOp crlf, WriteStringOp crlf,
     ReadFromOp [(''ok'', None)]]"

lemma pooled_new_writer: "pooled new_writer"
  by (simp add: pooled_def new_writer_def)

lemma healthy_live_conn: "int M \<le> K \<Longrightarrow> healthy M (live_conn K)"
  by (simp add: healthy_def live_conn_def)

text \<open>C6: For every response, every connection (whatever it does between operations) and every
  writer the pool may hand out, writing the response ends. What the connection was given are
  plain, non-empty messages on the reply subject and then at most one message marked Done, with
  every message within the size bound. If the serialiser succeeded, the data of all messages in
  order is exactly the serialised response and the mark is empty, and it is missing only when an
  error was logged. If it failed, the data is a beginning of the response, the mark carries the
  error's text and no data, and the error comes from the connection, from the serialiser or from
  the body. The writer goes back to the pool with its size.\<close>

theorem response_stream:
  assumes "pooled w0"
  shows "\<exists>logs w' ms fin err d. write_response calls own w0 reply nc = Some (logs, w') \<and>
    pooled w' \<and> outbox (NW_nc (sink w')) = outbox nc @ ms @ fin \<and>
    response_sent nc reply calls own logs ms fin err d"
  using write_response_sends [OF assms] .

theorem response_stream_witness:
  "\<exists>logs w' ms fin err d.
    write_response sample_response None new_writer ''r'' (live_conn 0) = Some (logs, w') \<and>
    pooled w' \<and> outbox (NW_nc (sink w')) = outbox (live_conn 0) @ ms @ fin \<and>
    response_sent (live_conn 0) ''r'' sample_response None logs ms fin err d"
  by (rule response_stream [OF pooled_new_writer])

text \<open>C7: On a connection that stays up and takes messages of the buffer's size with the mark's
  header, a response whose single writes fit and whose body reads without an error is delivered
  whole: nothing is logged, the data of the messages in order is exactly the serialised response,
  and the last message, and only the last, is marked Done with an empty value.\<close>

theorem response_delivered:
  assumes "pooled w0" "healthy M nc" "validateSubject reply" "bufferSize + done_overhead \<le> M"
    "\<forall>x\<in>set calls. op_max x \<le> M \<and> op_clean x"
  shows "\<exists>w' ms d. write_response calls None w0 reply nc = Some ([], w') \<and> pooled w' \<and>
    outbox (NW_nc (sink w')) = outbox nc @ ms @ [done_message reply [] d] \<and>
    (\<forall>m\<in>set ms. plain_message M reply m) \<and>
    concat (map W_Data ms) @ d = ops_bytes calls"
  using write_response_healthy [OF assms] .

theorem response_delivered_witness:
  "\<exists>w' ms d.
    write_response sample_response None new_writer ''r'' (live_conn 10000) = Some ([], w') \<and>
    pooled w' \<and>
    outbox (NW_nc (sink w')) = outbox (live_conn 10000) @ ms @ [done_message ''r'' [] d] \<and>
    (\<forall>m\<in>set ms. plain_message 10000 ''r'' m) \<and>
    concat (map W_Data ms) @ d = ops_bytes sample_response"
  by (rule response_delivered [OF pooled_new_writer healthy_live_conn])
    (simp_all add: validateSubject_def nats_space_def bufferSize_def done_overhead
      sample_response_def)

text \<open>C37: What one response leaves in a pooled writer never shows in the next: the messages sent
  and the errors logged do not depend on which writer the pool hands out.\<close>

theorem response_pool_clean:
  assumes "write_response calls1 own1 w1 reply1 nc1 = Some (logs1, w2)" "pooled w1" "pooled w3"
  shows "write_response calls own w2 reply nc = write_response calls own w3 reply nc"
proof -
  have "pooled w2"
    using write_response_sends [OF assms(2), of calls1 own1 reply1 nc1] assms(1) by auto
  then show ?thesis using write_response_pool assms(3) by blast
qed

theorem response_pool_clean_witness:
  "\<exists>w2. write_response [] None new_writer ''r'' (live_conn 10000) = Some ([], w2) \<and>
    write_response sample_response None w2 ''s'' (live_conn 9000) =
    write_response sample_response None new_writer ''s'' (live_conn 9000)"
proof -
  obtain w2 where "write_response [] None new_writer ''r'' (live_conn 10000) = Some ([], w2)"
    using write_response_healthy [OF pooled_new_writer healthy_live_conn [of 10000 10000], where reply = "''r''" and calls = "[]"]
    by (auto simp: validateSubject_def nats_space_def bufferSize_def done_overhead)
  with response_pool_clean [OF this pooled_new_writer pooled_new_writer] show ?thesis by blast
qed

end
