(* ===== verification/Json.thy ===== *)
theory Json
  imports GoStd
begin

text \<open>
  The JSON text that Go's \<open>encoding/json\<close> writes and reads, as far as the messages of this
  program use it: values, numbers kept as their literal, strings with the escapes the encoder
  makes (HTML characters and invalid UTF-8 included), standard base 64 for byte slices, and
  decimal integers of 64 bits. The decoder reads what the encoder writes.
\<close>

section \<open>Values\<close>

datatype json =
    JNull
  | JBool bool
  | JNum string
  | JStr string
  | JArr "json list"
  | JObj "(string \<times> json) list"

abbreviation quote :: char where "quote \<equiv> CHR 0x22"
abbreviation backslash :: char where "backslash \<equiv> CHR 0x5C"

section \<open>UTF-8\<close>

text \<open>The number of bytes of the valid UTF-8 sequence a string begins with, 0 when there is none.\<close>

definition cont_byte :: "nat \<Rightarrow> bool" where
  "cont_byte b \<longleftrightarrow> 0x80 \<le> b \<and> b \<le> 0xBF"

fun utf8_width :: "nat list \<Rightarrow> nat" where
  "utf8_width [] = 0"
| "utf8_width (a # s) =
     (if a < 0x80 then 1
      else case s of
        [] \<Rightarrow> 0
      | b # s1 \<Rightarrow>
          if 0xC2 \<le> a \<and> a \<le> 0xDF then (if cont_byte b then 2 else 0)
          else case s1 of
            [] \<Rightarrow> 0
          | c # s2 \<Rightarrow>
              if 0xE0 \<le> a \<and> a \<le> 0xEF then
                (if cont_byte b \<and> cont_byte c \<and> (a = 0xE0 \<longrightarrow> 0xA0 \<le> b) \<and>
                    (a = 0xED \<longrightarrow> b \<le> 0x9F) then 3 else 0)
              else case s2 of
                [] \<Rightarrow> 0
              | d # _ \<Rightarrow>
                  if 0xF0 \<le> a \<and> a \<le> 0xF4 \<and> cont_byte b \<and> cont_byte c \<and> cont_byte d \<and>
                     (a = 0xF0 \<longrightarrow> 0x90 \<le> b) \<and> (a = 0xF4 \<longrightarrow> b \<le> 0x8F)
                  then 4 else 0)"

definition rune_width :: "string \<Rightarrow> nat" where
  "rune_width s = utf8_width (map of_char (take 4 s))"

definition byte :: "nat \<Rightarrow> char" where "byte n = char_of n"

definition utf8_encode :: "nat \<Rightarrow> string" where
  "utf8_encode r =
     (if r < 0x80 then [byte r]
      else if r < 0x800 then [byte (0xC0 + r div 64), byte (0x80 + r mod 64)]
      else if r < 0x10000 then
        [byte (0xE0 + r div 4096), byte (0x80 + r div 64 mod 64), byte (0x80 + r mod 64)]
      else [byte (0xF0 + r div 262144), byte (0x80 + r div 4096 mod 64),
            byte (0x80 + r div 64 mod 64), byte (0x80 + r mod 64)])"

definition replacement :: string where "replacement = utf8_encode 0xFFFD"

section \<open>Writing\<close>

definition hex_digit :: "nat \<Rightarrow> char" where
  "hex_digit n = ''0123456789abcdef'' ! n"

definition esc_ascii :: "char \<Rightarrow> string" where
  "esc_ascii c =
     (if c = quote \<or> c = backslash then [backslash, c]
      else if c = CHR 0x08 then [backslash, CHR ''b'']
      else if c = CHR 0x0C then [backslash, CHR ''f'']
      else if c = CHR 0x0A then [backslash, CHR ''n'']
      else if c = CHR 0x0D then [backslash, CHR ''r'']
      else if c = CHR 0x09 then [backslash, CHR ''t'']
      else if of_char c < (0x20 :: nat) \<or> c = CHR ''<'' \<or> c = CHR ''>'' \<or> c = CHR ''&''
        then [backslash, CHR ''u'', CHR ''0'', CHR ''0'',
              hex_digit (of_char c div 16), hex_digit (of_char c mod 16)]
      else [c])"

text \<open>The line and paragraph separators U+2028 and U+2029 are escaped too.\<close>

fun esc_string :: "string \<Rightarrow> string" where
  "esc_string [] = []"
| "esc_string (c # s) =
     (if of_char c < (0x80 :: nat) then esc_ascii c @ esc_string s
      else let w = rune_width (c # s); r = take w (c # s) in
        if w = 0 then [backslash] @ ''ufffd'' @ esc_string s
        else if r = utf8_encode 0x2028 then [backslash] @ ''u2028'' @ esc_string (drop (w - 1) s)
        else if r = utf8_encode 0x2029 then [backslash] @ ''u2029'' @ esc_string (drop (w - 1) s)
        else r @ esc_string (drop (w - 1) s))"

definition str_text :: "string \<Rightarrow> string" where
  "str_text s = quote # esc_string s @ [quote]"

fun json_text :: "json \<Rightarrow> string" where
  "json_text JNull = ''null''"
| "json_text (JBool b) = (if b then ''true'' else ''false'')"
| "json_text (JNum n) = n"
| "json_text (JStr s) = str_text s"
| "json_text (JArr vs) = ''['' @ join_with '','' (map json_text vs) @ '']''"
| "json_text (JObj ms) =
     ''{'' @ join_with '','' (map (\<lambda>(k, v). str_text k @ '':'' @ json_text v) ms) @ ''}''"

section \<open>Reading\<close>

definition json_space :: "char \<Rightarrow> bool" where
  "json_space c \<longleftrightarrow> c = CHR '' '' \<or> c = CHR 0x09 \<or> c = CHR 0x0A \<or> c = CHR 0x0D"

definition skip_ws :: "string \<Rightarrow> string" where
  "skip_ws s = dropWhile json_space s"

definition digit :: "char \<Rightarrow> bool" where
  "digit c \<longleftrightarrow> c \<in> set ''0123456789''"

definition hex_value :: "char \<Rightarrow> nat option" where
  "hex_value c =
     (let n = of_char c in
      if digit c then Some (n - 48)
      else if 97 \<le> n \<and> n \<le> 102 then Some (n - 87)
      else if 65 \<le> n \<and> n \<le> 70 then Some (n - 55) else None)"

fun hex4 :: "string \<Rightarrow> nat option" where
  "hex4 (a # b # c # d # _) =
     (case (hex_value a, hex_value b, hex_value c, hex_value d) of
        (Some a, Some b, Some c, Some d) \<Rightarrow> Some (((a * 16 + b) * 16 + c) * 16 + d)
      | _ \<Rightarrow> None)"
| "hex4 _ = None"

text \<open>
  The rest of a string after its opening quote. A \<open>\u\<close> escape of a surrogate takes the escape
  after it when the two make a pair, and is replaced otherwise; so are invalid bytes.
\<close>

definition surrogate :: "nat \<Rightarrow> bool" where
  "surrogate r \<longleftrightarrow> 0xD800 \<le> r \<and> r < 0xE000"

definition second_half :: "string \<Rightarrow> nat option" where
  "second_half s =
     (if take 2 s = [backslash, CHR ''u''] then
        (case hex4 (drop 2 s) of
           Some r \<Rightarrow> if 0xDC00 \<le> r \<and> r < 0xE000 then Some r else None
         | None \<Rightarrow> None)
      else None)"

definition simple_escape :: "char \<Rightarrow> char option" where
  "simple_escape e =
     (if e = quote \<or> e = backslash \<or> e = CHR ''/'' then Some e
      else if e = CHR ''b'' then Some (CHR 0x08) else if e = CHR ''f'' then Some (CHR 0x0C)
      else if e = CHR ''n'' then Some (CHR 0x0A) else if e = CHR ''r'' then Some (CHR 0x0D)
      else if e = CHR ''t'' then Some (CHR 0x09) else None)"

definition prepend :: "string \<Rightarrow> (string \<times> string) option \<Rightarrow> (string \<times> string) option" where
  "prepend p = map_option (\<lambda>(s, r). (p @ s, r))"

function read_str :: "string \<Rightarrow> (string \<times> string) option" where
  "read_str [] = None"
| "read_str (c # s) =
     (if c = quote then Some ([], s)
      else if c = backslash then
        (case s of
           [] \<Rightarrow> None
         | e # s1 \<Rightarrow>
             if e = CHR ''u'' then
               (case hex4 s1 of
                  None \<Rightarrow> None
                | Some r \<Rightarrow>
                    if \<not> surrogate r then prepend (utf8_encode r) (read_str (drop 4 s1))
                    else (case (if r < 0xDC00 then second_half (drop 4 s1) else None) of
                        None \<Rightarrow> prepend replacement (read_str (drop 4 s1))
                      | Some r2 \<Rightarrow>
                          prepend (utf8_encode ((r - 0xD800) * 1024 + (r2 - 0xDC00) + 0x10000))
                            (read_str (drop 10 s1))))
             else (case simple_escape e of
                 None \<Rightarrow> None
               | Some x \<Rightarrow> prepend [x] (read_str s1)))
      else if of_char c < (0x20 :: nat) then None
      else if of_char c < (0x80 :: nat) then prepend [c] (read_str s)
      else let w = rune_width (c # s) in
        if w = 0 then prepend replacement (read_str s)
        else prepend (take w (c # s)) (read_str (drop (w - 1) s)))"
  by pat_completeness auto
termination
  by (relation "measure length") auto

declare read_str.simps [simp del]

text \<open>A number literal: an optional sign, an integer part, a fraction and an exponent.\<close>

definition digits1 :: "string \<Rightarrow> (string \<times> string) option" where
  "digits1 s = (if takeWhile digit s = [] then None
                else Some (takeWhile digit s, dropWhile digit s))"

definition read_int :: "string \<Rightarrow> (string \<times> string) option" where
  "read_int s =
     (case s of
        [] \<Rightarrow> None
      | c # r \<Rightarrow> if c = CHR ''0'' then Some ([c], r) else digits1 s)"

definition read_frac :: "string \<Rightarrow> (string \<times> string) option" where
  "read_frac s =
     (case s of
        [] \<Rightarrow> Some ([], s)
      | c # r \<Rightarrow> if c = CHR ''.'' then prepend [c] (digits1 r) else Some ([], s))"

definition read_exp :: "string \<Rightarrow> (string \<times> string) option" where
  "read_exp s =
     (case s of
        [] \<Rightarrow> Some ([], s)
      | c # r \<Rightarrow>
          if c = CHR ''e'' \<or> c = CHR ''E'' then
            (case r of
               [] \<Rightarrow> None
             | d # r1 \<Rightarrow> if d = CHR ''+'' \<or> d = CHR ''-'' then prepend [c, d] (digits1 r1)
                         else prepend [c] (digits1 r))
          else Some ([], s))"

definition read_num :: "string \<Rightarrow> (string \<times> string) option" where
  "read_num s =
     (let (sign, s1) = (case s of [] \<Rightarrow> ([], s)
                        | c # r \<Rightarrow> if c = CHR ''-'' then ([c], r) else ([], s))
      in case read_int s1 of None \<Rightarrow> None
       | Some (i, s2) \<Rightarrow>
           (case read_frac s2 of None \<Rightarrow> None
            | Some (f, s3) \<Rightarrow> prepend (sign @ i @ f) (read_exp s3)))"

definition expect :: "string \<Rightarrow> 'a \<Rightarrow> string \<Rightarrow> ('a \<times> string) option" where
  "expect w v s = (if take (length w) s = w then Some (v, drop (length w) s) else None)"

text \<open>
  Values by recursive descent; the fuel bounds the calls, and the length of the text is always
  enough of it.
\<close>

fun read_value :: "nat \<Rightarrow> string \<Rightarrow> (json \<times> string) option"
  and read_elems :: "nat \<Rightarrow> string \<Rightarrow> (json list \<times> string) option"
  and read_members :: "nat \<Rightarrow> string \<Rightarrow> ((string \<times> json) list \<times> string) option" where
  "read_value 0 s = None"
| "read_value (Suc n) s =
     (case skip_ws s of
        [] \<Rightarrow> None
      | c # r \<Rightarrow>
          if c = CHR ''{'' then
            (case skip_ws r of
               [] \<Rightarrow> None
             | d # r1 \<Rightarrow> if d = CHR ''}'' then Some (JObj [], r1)
                         else map_option (\<lambda>(ms, q). (JObj ms, q)) (read_members n (d # r1)))
          else if c = CHR ''['' then
            (case skip_ws r of
               [] \<Rightarrow> None
             | d # r1 \<Rightarrow> if d = CHR '']'' then Some (JArr [], r1)
                         else map_option (\<lambda>(vs, q). (JArr vs, q)) (read_elems n (d # r1)))
          else if c = quote then map_option (\<lambda>(t, q). (JStr t, q)) (read_str r)
          else if c = CHR ''n'' then expect ''null'' JNull (c # r)
          else if c = CHR ''t'' then expect ''true'' (JBool True) (c # r)
          else if c = CHR ''f'' then expect ''false'' (JBool False) (c # r)
          else map_option (\<lambda>(t, q). (JNum t, q)) (read_num (c # r)))"
| "read_elems 0 s = None"
| "read_elems (Suc n) s =
     (case read_value n s of
        None \<Rightarrow> None
      | Some (v, r) \<Rightarrow>
          (case skip_ws r of
             [] \<Rightarrow> None
           | c # r1 \<Rightarrow>
               if c = CHR '','' then map_option (\<lambda>(vs, q). (v # vs, q)) (read_elems n r1)
               else if c = CHR '']'' then Some ([v], r1) else None))"
| "read_members 0 s = None"
| "read_members (Suc n) s =
     (case skip_ws s of
        [] \<Rightarrow> None
      | c # r \<Rightarrow>
          if c \<noteq> quote then None
          else case read_str r of None \<Rightarrow> None
          | Some (k, r1) \<Rightarrow>
              (case skip_ws r1 of
                 [] \<Rightarrow> None
               | d # r2 \<Rightarrow>
                   if d \<noteq> CHR '':'' then None
                   else case read_value n r2 of None \<Rightarrow> None
                   | Some (v, r3) \<Rightarrow>
                       (case skip_ws r3 of
                          [] \<Rightarrow> None
                        | e # r4 \<Rightarrow>
                            if e = CHR '','' then
                              map_option (\<lambda>(ms, q). ((k, v) # ms, q)) (read_members n r4)
                            else if e = CHR ''}'' then Some ([(k, v)], r4) else None)))"

definition json_parse :: "string \<Rightarrow> json option" where
  "json_parse s =
     (case read_value (Suc (length s)) s of
        Some (v, r) \<Rightarrow> if skip_ws r = [] then Some v else None
      | None \<Rightarrow> None)"

section \<open>Integers\<close>

definition digit_char :: "nat \<Rightarrow> char" where
  "digit_char n = ''0123456789'' ! n"

fun nat_text :: "nat \<Rightarrow> string" where
  "nat_text n = (if n < 10 then [digit_char n] else nat_text (n div 10) @ [digit_char (n mod 10)])"

declare nat_text.simps [simp del]

definition int_text :: "int \<Rightarrow> string" where
  "int_text i = (if i < 0 then CHR ''-'' # nat_text (nat (- i)) else nat_text (nat i))"

definition digits_value :: "string \<Rightarrow> nat" where
  "digits_value s = foldl (\<lambda>a c. 10 * a + (of_char c - 48)) 0 s"

text \<open>\<open>strconv.ParseInt(s, 10, 64)\<close> on a number literal; a fraction or an exponent is an error.\<close>

definition parse_int :: "string \<Rightarrow> int option" where
  "parse_int s =
     (let (neg, t) = (case s of [] \<Rightarrow> (False, s)
                      | c # r \<Rightarrow> if c = CHR ''-'' then (True, r) else (False, s))
      in if t = [] \<or> \<not> list_all digit t then None
         else let i = (if neg then - int (digits_value t) else int (digits_value t))
              in if in_int64 i then Some i else None)"

lemma digit_char_cases: "n < 10 \<Longrightarrow> n \<in> {0, 1, 2, 3, 4, 5, 6, 7, 8, 9 :: nat}"
  by (simp, arith)

lemma digit_digit_char [simp]: "n < 10 \<Longrightarrow> digit (digit_char n)"
  by (drule digit_char_cases) (auto simp: digit_def digit_char_def)

lemma of_char_digit_char: "n < 10 \<Longrightarrow> of_char (digit_char n) = n + 48"
  by (drule digit_char_cases) (auto simp: digit_char_def)

lemma nat_text_digits: "list_all digit (nat_text n)"
  by (induction n rule: nat_text.induct) (subst nat_text.simps, simp)

lemma nat_text_nonempty [simp]: "nat_text n \<noteq> []"
  by (subst nat_text.simps) simp

lemma digits_value_snoc: "digits_value (s @ [c]) = 10 * digits_value s + (of_char c - 48)"
  by (simp add: digits_value_def)

lemma digits_value_nat_text: "digits_value (nat_text n) = n"
proof (induction n rule: nat_text.induct)
  case (1 n)
  then show ?case
    by (subst nat_text.simps) (simp add: digits_value_snoc of_char_digit_char,
        simp add: digits_value_def of_char_digit_char)
qed

lemma nat_text_hd: "0 < n \<Longrightarrow> hd (nat_text n) \<noteq> CHR ''0''"
proof (induction n rule: nat_text.induct)
  case (1 n)
  show ?case
  proof (cases "n < 10")
    case True
    then show ?thesis using 1(2) digit_char_cases [OF True]
      by (subst nat_text.simps) (auto simp: digit_char_def)
  next
    case False
    then show ?thesis using 1 by (subst nat_text.simps) auto
  qed
qed

lemma minus_not_digit [simp]: "\<not> digit (CHR ''-'')"
  by (simp add: digit_def)

lemma nat_text_no_minus: "nat_text n = CHR ''-'' # r \<Longrightarrow> False"
  using nat_text_digits [of n] by simp

lemma parse_int_text:
  assumes "in_int64 i"
  shows "parse_int (int_text i) = Some i"
proof (cases "i < 0")
  case True
  then show ?thesis
    using assms nat_text_digits digits_value_nat_text by (simp add: parse_int_def int_text_def)
next
  case False
  obtain c r where cr: "nat_text (nat i) = c # r" by (cases "nat_text (nat i)") auto
  then have "c \<noteq> CHR ''-''" using nat_text_no_minus by auto
  then show ?thesis
    using False assms cr nat_text_digits [of "nat i"] digits_value_nat_text [of "nat i"]
    by (simp add: parse_int_def int_text_def)
qed

section \<open>Reading what was written\<close>

lemma hex_value_digit: "n < 16 \<Longrightarrow> hex_value (hex_digit n) = Some n"
proof -
  assume "n < 16"
  then have "n \<in> {0, 1, 2, 3, 4, 5, 6, 7, 8, 9, 10, 11, 12, 13, 14, 15}" by (simp, arith)
  then show ?thesis by (auto simp: hex_digit_def hex_value_def digit_def)
qed

lemma hex_value_zero: "hex_value (CHR ''0'') = Some 0"
  by (simp add: hex_value_def digit_def)

lemma read_str_plain:
  "c \<noteq> quote \<Longrightarrow> c \<noteq> backslash \<Longrightarrow> 0x20 \<le> (of_char c :: nat) \<Longrightarrow> of_char c < (0x80 :: nat) \<Longrightarrow>
   read_str (c # s) = prepend [c] (read_str s)"
  by (subst read_str.simps) simp

lemma read_str_simple:
  "simple_escape e = Some x \<Longrightarrow> e \<noteq> CHR ''u'' \<Longrightarrow>
   read_str (backslash # e # s) = prepend [x] (read_str s)"
  by (subst read_str.simps) simp

lemma read_str_hex:
  assumes "of_char c < (0x80 :: nat)"
  shows "read_str (backslash # CHR ''u'' # CHR ''0'' # CHR ''0'' #
    hex_digit (of_char c div 16) # hex_digit (of_char c mod 16) # s) = prepend [c] (read_str s)"
proof -
  let ?n = "of_char c :: nat"
  have "hex4 (CHR ''0'' # CHR ''0'' # hex_digit (?n div 16) # hex_digit (?n mod 16) # s) = Some ?n"
    using assms by (simp add: hex_value_digit hex_value_zero)
  moreover have "utf8_encode ?n = [c]" using assms by (simp add: utf8_encode_def byte_def)
  ultimately show ?thesis
    using assms by (subst read_str.simps) (simp add: surrogate_def)
qed

lemma read_str_esc:
  assumes "of_char c < (0x80 :: nat)"
  shows "read_str (esc_ascii c @ s) = prepend [c] (read_str s)"
  using assms read_str_hex [OF assms] read_str_plain [of c s]
  by (auto simp: esc_ascii_def read_str_simple simple_escape_def)

definition ascii :: "string \<Rightarrow> bool" where
  "ascii s \<longleftrightarrow> list_all (\<lambda>c. of_char c < (0x80 :: nat)) s"

lemma read_str_text: "ascii s \<Longrightarrow> read_str (esc_string s @ quote # rest) = Some (s, rest)"
proof (induction s)
  case Nil
  show ?case by (simp, subst read_str.simps, simp)
next
  case (Cons c s)
  then show ?case by (simp add: ascii_def read_str_esc prepend_def)
qed

text \<open>After a number literal something must follow that is no part of one.\<close>

definition stop :: "string \<Rightarrow> bool" where
  "stop s \<longleftrightarrow> s = [] \<or> \<not> digit (hd s) \<and> hd s \<noteq> CHR ''.'' \<and> hd s \<noteq> CHR ''e'' \<and> hd s \<noteq> CHR ''E''"

lemma takeWhile_digits:
  "list_all digit t \<Longrightarrow> stop rest \<Longrightarrow> takeWhile digit (t @ rest) = t \<and> dropWhile digit (t @ rest) = rest"
  by (induction t) (cases rest; auto simp: stop_def)+

lemma read_int_nat_text:
  assumes "stop rest"
  shows "read_int (nat_text n @ rest) = Some (nat_text n, rest)"
proof (cases "n = 0")
  case True
  then show ?thesis by (subst (1 2) nat_text.simps) (simp add: read_int_def digit_char_def)
next
  case False
  obtain c r where cr: "nat_text n = c # r" by (cases "nat_text n") auto
  with nat_text_hd [of n] False have "c \<noteq> CHR ''0''" by simp
  moreover have "digits1 (nat_text n @ rest) = Some (nat_text n, rest)"
    using takeWhile_digits [OF nat_text_digits assms] by (simp add: digits1_def)
  ultimately show ?thesis using cr by (simp add: read_int_def)
qed

lemma read_tail_stop: "stop rest \<Longrightarrow> read_frac rest = Some ([], rest) \<and> read_exp rest = Some ([], rest)"
  by (cases rest) (auto simp: stop_def read_frac_def read_exp_def)

lemma read_num_text:
  assumes "stop rest"
  shows "read_num (int_text i @ rest) = Some (int_text i, rest)"
proof (cases "i < 0")
  case True
  then show ?thesis
    using read_int_nat_text [OF assms] read_tail_stop [OF assms]
    by (simp add: read_num_def int_text_def prepend_def)
next
  case False
  obtain c r where cr: "nat_text (nat i) = c # r" by (cases "nat_text (nat i)") auto
  then have "c \<noteq> CHR ''-''" using nat_text_no_minus by auto
  then show ?thesis
    using False cr read_int_nat_text [OF assms, of "nat i"] read_tail_stop [OF assms]
    by (simp add: read_num_def int_text_def prepend_def)
qed

fun json_ok :: "json \<Rightarrow> bool" where
  "json_ok JNull = True"
| "json_ok (JBool b) = True"
| "json_ok (JNum n) = (\<exists>i. n = int_text i)"
| "json_ok (JStr s) = ascii s"
| "json_ok (JArr vs) = (\<forall>v\<in>set vs. json_ok v)"
| "json_ok (JObj ms) = (\<forall>m\<in>set ms. ascii (fst m) \<and> json_ok (snd m))"

lemma digit_start: "digit c \<or> c = CHR ''-'' \<Longrightarrow> \<not> json_space c \<and> c \<noteq> CHR '']'' \<and> c \<noteq> CHR ''}'' \<and>
    c \<noteq> CHR ''{'' \<and> c \<noteq> CHR ''['' \<and> c \<noteq> quote \<and> c \<noteq> CHR ''n'' \<and> c \<noteq> CHR ''t'' \<and> c \<noteq> CHR ''f''"
  by (auto simp: digit_def json_space_def)

lemma int_text_start: "\<exists>c r. int_text i = c # r \<and> (digit c \<or> c = CHR ''-'')"
proof (cases "i < 0")
  case False
  obtain c r where "nat_text (nat i) = c # r" by (cases "nat_text (nat i)") auto
  then show ?thesis using False nat_text_digits [of "nat i"] by (simp add: int_text_def)
qed (simp add: int_text_def)

lemma json_text_start:
  "json_ok v \<Longrightarrow> \<exists>c r. json_text v = c # r \<and> \<not> json_space c \<and> c \<noteq> CHR '']'' \<and> c \<noteq> CHR ''}''"
proof (cases v)
  case (JNum n)
  assume "json_ok v"
  then show ?thesis using JNum int_text_start digit_start by auto metis
qed (auto simp: str_text_def json_space_def)

lemma skip_ws_start [simp]: "\<not> json_space c \<Longrightarrow> skip_ws (c # s) = c # s"
  by (simp add: skip_ws_def)

lemma not_space [simp]:
  "\<not> json_space (CHR '','')" "\<not> json_space (CHR '']'')" "\<not> json_space (CHR ''}'')"
  "\<not> json_space (CHR ''['')" "\<not> json_space (CHR ''{'')" "\<not> json_space (CHR '':'')"
  "\<not> json_space quote" "\<not> json_space (CHR ''n'')" "\<not> json_space (CHR ''t'')"
  "\<not> json_space (CHR ''f'')"
  by (simp_all add: json_space_def)

lemma stop_delimiter [simp]: "stop (CHR '','' # s)" "stop (CHR '']'' # s)" "stop (CHR ''}'' # s)"
  by (simp_all add: stop_def digit_def)

abbreviation member_text :: "string \<times> json \<Rightarrow> string" where
  "member_text m \<equiv> str_text (fst m) @ CHR '':'' # json_text (snd m)"

lemma member_text_case:
  "map (\<lambda>(k, v). str_text k @ CHR '':'' # json_text v) ms = map member_text ms"
  by (simp add: case_prod_beta)

definition reads :: "nat \<Rightarrow> bool" where
  "reads n \<longleftrightarrow>
     (\<forall>v rest. json_ok v \<longrightarrow> stop rest \<longrightarrow> length (json_text v) \<le> n \<longrightarrow>
        read_value n (json_text v @ rest) = Some (v, rest)) \<and>
     (\<forall>vs rest. vs \<noteq> [] \<longrightarrow> (\<forall>v\<in>set vs. json_ok v) \<longrightarrow>
        length (join_with '','' (map json_text vs)) < n \<longrightarrow>
        read_elems n (join_with '','' (map json_text vs) @ CHR '']'' # rest) = Some (vs, rest)) \<and>
     (\<forall>ms rest. ms \<noteq> [] \<longrightarrow> (\<forall>m\<in>set ms. ascii (fst m) \<and> json_ok (snd m)) \<longrightarrow>
        length (join_with '','' (map member_text ms)) < n \<longrightarrow>
        read_members n (join_with '','' (map member_text ms) @ CHR ''}'' # rest) = Some (ms, rest))"

lemma reads_value:
  assumes "reads n" "json_ok v" "stop rest" "length (json_text v) \<le> Suc n"
  shows "read_value (Suc n) (json_text v @ rest) = Some (v, rest)"
proof (cases v)
  case (JNum t)
  then obtain i where i: "t = int_text i" using assms(2) by auto
  obtain c r where cr: "int_text i = c # r" "digit c \<or> c = CHR ''-''"
    using int_text_start by blast
  show ?thesis
    using JNum i cr digit_start [OF cr(2)] read_num_text [OF assms(3), of i] by simp
next
  case (JStr s)
  then show ?thesis using assms(2) read_str_text [of s rest] by (simp add: str_text_def)
next
  case (JArr vs)
  show ?thesis
  proof (cases "vs = []")
    case False
    then obtain c r where "join_with '','' (map json_text vs) = c # r" "\<not> json_space c"
      "c \<noteq> CHR '']''"
      using assms(2) JArr json_text_start [of "hd vs"]
      by (cases vs rule: list.exhaust; cases "tl vs") auto
    moreover have "read_elems n (join_with '','' (map json_text vs) @ CHR '']'' # rest) =
        Some (vs, rest)"
      using assms(1,2,4) JArr False by (simp add: reads_def)
    ultimately show ?thesis using JArr by simp
  qed (simp add: JArr)
next
  case (JObj ms)
  show ?thesis
  proof (cases "ms = []")
    case False
    then obtain r where "join_with '','' (map member_text ms) = quote # r"
      by (cases ms rule: list.exhaust; cases "tl ms") (auto simp: str_text_def)
    moreover have "read_members n (join_with '','' (map member_text ms) @ CHR ''}'' # rest) =
        Some (ms, rest)"
      using assms(1,2,4) JObj False by (simp add: reads_def member_text_case)
    ultimately show ?thesis using JObj by (simp add: member_text_case)
  qed (simp add: JObj)
qed (auto simp: expect_def)

lemma reads_elems:
  assumes "reads n" "vs \<noteq> []" "\<forall>v\<in>set vs. json_ok v"
    "length (join_with '','' (map json_text vs)) < Suc n"
  shows "read_elems (Suc n) (join_with '','' (map json_text vs) @ CHR '']'' # rest) = Some (vs, rest)"
proof (cases vs)
  case (Cons v ws)
  show ?thesis
  proof (cases "ws = []")
    case True
    then show ?thesis using assms Cons by (simp add: reads_def)
  next
    case False
    let ?t = "join_with '','' (map json_text ws)"
    have j: "join_with '','' (map json_text vs) = json_text v @ CHR '','' # ?t"
      using False Cons by (simp add: join_with_cons)
    have l: "length (json_text v) \<le> n" "length ?t < n" using assms(4) unfolding j by auto
    have "read_value n (json_text v @ CHR '','' # ?t @ CHR '']'' # rest) =
        Some (v, CHR '','' # ?t @ CHR '']'' # rest)"
      "read_elems n (?t @ CHR '']'' # rest) = Some (ws, rest)"
      using assms(1,3) Cons False l by (auto simp: reads_def)
    then show ?thesis unfolding j by (simp add: Cons)
  qed
qed (simp add: assms(2))

lemma reads_members:
  assumes "reads n" "ms \<noteq> []" "\<forall>m\<in>set ms. ascii (fst m) \<and> json_ok (snd m)"
    "length (join_with '','' (map member_text ms)) < Suc n"
  shows "read_members (Suc n) (join_with '','' (map member_text ms) @ CHR ''}'' # rest) =
    Some (ms, rest)"
proof (cases ms)
  case (Cons m ns)
  have str: "read_str (esc_string (fst m) @ quote # q) = Some (fst m, q)" for q
    using assms(3) Cons read_str_text by simp
  show ?thesis
  proof (cases "ns = []")
    case True
    have "length (json_text (snd m)) \<le> n" using assms(4) Cons True by (simp add: str_text_def)
    then have "read_value n (json_text (snd m) @ CHR ''}'' # rest) = Some (snd m, CHR ''}'' # rest)"
      using assms(1,3) Cons by (simp add: reads_def)
    then show ?thesis using Cons True str by (simp add: str_text_def)
  next
    case False
    let ?t = "join_with '','' (map member_text ns)"
    have j: "join_with '','' (map member_text ms) = member_text m @ CHR '','' # ?t"
      using False Cons by (simp add: join_with_cons)
    have l: "length (json_text (snd m)) \<le> n" "length ?t < n"
      using assms(4) unfolding j by (auto simp: str_text_def)
    have "read_value n (json_text (snd m) @ CHR '','' # ?t @ CHR ''}'' # rest) =
        Some (snd m, CHR '','' # ?t @ CHR ''}'' # rest)"
      "read_members n (?t @ CHR ''}'' # rest) = Some (ns, rest)"
      using assms(1,3) Cons False l by (auto simp: reads_def)
    then show ?thesis unfolding j using str by (simp add: Cons str_text_def)
  qed
qed (simp add: assms(2))

lemma reads_all: "reads n"
proof (induction n)
  case 0
  have "json_text v \<noteq> []" if "json_ok v" for v using json_text_start [OF that] by auto
  then show ?case by (simp add: reads_def)
next
  case (Suc n)
  show ?case
    unfolding reads_def [of "Suc n"]
    using reads_value [OF Suc] reads_elems [OF Suc] reads_members [OF Suc] by blast
qed

text \<open>Reading undoes writing, a newline after the value included (\<open>json.Encoder\<close>).\<close>

lemma json_parse_text:
  assumes "json_ok v" "list_all json_space ws"
  shows "json_parse (json_text v @ ws) = Some v"
proof -
  have "stop ws" using assms(2) by (cases ws) (auto simp: stop_def json_space_def digit_def)
  moreover have "skip_ws ws = []" using assms(2) by (simp add: skip_ws_def list_all_iff)
  ultimately show ?thesis
    using reads_all [of "Suc (length (json_text v @ ws))"] assms(1)
    by (simp add: json_parse_def reads_def)
qed

interpretation json_codec: codec json_text json_parse json_ok
  by unfold_locales (use json_parse_text [of _ "[]"] in simp)

end
