(* ===== verification/Wire.thy ===== *)
theory Wire
  imports Json Shared TlsConfig
begin

text \<open>
  What travels: the request record \<open>R\<close> of \<open>pkg/transport/types.go\<close>, in which the client sends a
  serialised HTTP request, the TLS options, the timeout and the compression flag to the edge,
  and the requests of \<open>pkg/shared/types.go\<close>. Each has the JSON form that its struct's fields
  and tags give it, and the decoder that \<open>json.Unmarshal\<close> is on that struct.
\<close>

section \<open>Base 64\<close>

definition b64_alphabet :: string where
  "b64_alphabet = ''ABCDEFGHIJKLMNOPQRSTUVWXYZabcdefghijklmnopqrstuvwxyz0123456789+/''"

definition b64_char :: "nat \<Rightarrow> char" where "b64_char n = b64_alphabet ! n"

definition b64_value :: "char \<Rightarrow> nat option" where
  "b64_value c = map_option fst (find (\<lambda>(i, d). d = c) (enumerate 0 b64_alphabet))"

fun b64_encode :: "bytes \<Rightarrow> string" where
  "b64_encode [] = []"
| "b64_encode [x] =
     (let a = of_char x :: nat in
      [b64_char (a div 4), b64_char (a mod 4 * 16), CHR ''='', CHR ''=''])"
| "b64_encode [x, y] =
     (let a = of_char x :: nat; b = of_char y :: nat in
      [b64_char (a div 4), b64_char (a mod 4 * 16 + b div 16), b64_char (b mod 16 * 4), CHR ''=''])"
| "b64_encode (x # y # z # s) =
     (let a = of_char x :: nat; b = of_char y :: nat; c = of_char z :: nat in
      b64_char (a div 4) # b64_char (a mod 4 * 16 + b div 16) #
      b64_char (b mod 16 * 4 + c div 64) # b64_char (c mod 64) # b64_encode s)"

text \<open>The decoder skips line breaks, and ignores the unused bits of the last group.\<close>

fun b64_groups :: "string \<Rightarrow> bytes option" where
  "b64_groups [] = Some []"
| "b64_groups (w # x # y # z # s) =
     (case (b64_value w, b64_value x) of
        (Some i, Some j) \<Rightarrow>
          (if y = CHR ''='' \<and> z = CHR ''='' then
             (if s = [] then Some [byte (i * 4 + j div 16)] else None)
           else case b64_value y of None \<Rightarrow> None
           | Some k \<Rightarrow>
             if z = CHR ''='' then
               (if s = [] then Some [byte (i * 4 + j div 16), byte (j mod 16 * 16 + k div 4)]
                else None)
             else (case (b64_value z, b64_groups s) of
                 (Some l, Some r) \<Rightarrow>
                   Some (byte (i * 4 + j div 16) # byte (j mod 16 * 16 + k div 4) #
                     byte (k mod 4 * 64 + l) # r)
               | _ \<Rightarrow> None))
      | _ \<Rightarrow> None)"
| "b64_groups _ = None"

definition b64_decode :: "string \<Rightarrow> bytes option" where
  "b64_decode s = b64_groups (filter (\<lambda>c. c \<noteq> CHR 0x0A \<and> c \<noteq> CHR 0x0D) s)"

lemma b64_table: "\<forall>n<64. b64_value (b64_char n) = Some n \<and> b64_char n \<noteq> CHR ''='' \<and>
    b64_char n \<noteq> CHR 0x0A \<and> b64_char n \<noteq> CHR 0x0D \<and> of_char (b64_char n) < (0x80 :: nat)"
proof -
  have "list_all (\<lambda>n. b64_value (b64_char n) = Some n \<and> b64_char n \<noteq> CHR ''='' \<and>
    b64_char n \<noteq> CHR 0x0A \<and> b64_char n \<noteq> CHR 0x0D \<and> of_char (b64_char n) < (0x80 :: nat)) [0..<64]"
    by code_simp
  then show ?thesis by (simp add: list_all_iff)
qed

lemma byte_value: "(of_char c :: nat) < 256"
  by (rule nat_of_char_less_256)

lemma byte_of_char [simp]: "byte (of_char c) = c"
  by (simp add: byte_def)

lemma b64_value_char: "n < 64 \<Longrightarrow> b64_value (b64_char n) = Some n"
  using b64_table by blast

lemma b64_char_not_pad: "n < 64 \<Longrightarrow> b64_char n \<noteq> CHR ''=''"
  using b64_table by blast

lemma div_lt: "(a::nat) < 256 \<Longrightarrow> a div 4 < 64" "(a::nat) < 256 \<Longrightarrow> a div 16 < 16"
  "(a::nat) < 256 \<Longrightarrow> a div 64 < 4"
  by (simp_all add: less_mult_imp_div_less)

lemma mod_lt: "(a::nat) mod 4 < 4" "(a::nat) mod 16 < 16" "(a::nat) mod 64 < 64"
  by simp_all

lemma b64_group_bounds:
  assumes "(a::nat) < 256" "b < 256" "c < 256"
  shows "a div 4 < 64" "a mod 4 * 16 < 64" "a mod 4 * 16 + b div 16 < 64" "b mod 16 * 4 < 64"
    "b mod 16 * 4 + c div 64 < 64" "c mod 64 < 64"
  using div_lt(1) [OF assms(1)] div_lt(2) [OF assms(2)] div_lt(3) [OF assms(3)]
    mod_lt(1) [of a] mod_lt(2) [of b] mod_lt(3) [of c] by linarith+

lemma unpack: "p < k \<Longrightarrow> (r * k + p) div k = (r::nat)" "p < k \<Longrightarrow> (r * k + p) mod k = (p::nat)"
  by simp_all

lemma b64_group_values:
  assumes "(a::nat) < 256" "b < 256" "c < 256"
  shows "a div 4 * 4 + a mod 4 * 16 div 16 = a"
    "a div 4 * 4 + (a mod 4 * 16 + b div 16) div 16 = a"
    "(a mod 4 * 16 + b div 16) mod 16 * 16 + b mod 16 * 4 div 4 = b"
    "(a mod 4 * 16 + b div 16) mod 16 * 16 + (b mod 16 * 4 + c div 64) div 4 = b"
    "(b mod 16 * 4 + c div 64) mod 4 * 64 + c mod 64 = c"
  using unpack [OF div_lt(2) [OF assms(2)], of "a mod 4"]
    unpack [OF div_lt(3) [OF assms(3)], of "b mod 16"]
  by simp_all

lemmas char_bounds = b64_group_bounds [OF byte_value byte_value byte_value]
lemmas char_values = b64_group_values [OF byte_value byte_value byte_value]

lemma b64_groups_1:
  "i < 64 \<Longrightarrow> j < 64 \<Longrightarrow>
   b64_groups [b64_char i, b64_char j, CHR ''='', CHR ''=''] = Some [byte (i * 4 + j div 16)]"
  by (simp add: b64_value_char)

lemma b64_groups_2:
  "i < 64 \<Longrightarrow> j < 64 \<Longrightarrow> k < 64 \<Longrightarrow>
   b64_groups [b64_char i, b64_char j, b64_char k, CHR ''=''] =
   Some [byte (i * 4 + j div 16), byte (j mod 16 * 16 + k div 4)]"
  by (simp add: b64_value_char b64_char_not_pad)

lemma b64_groups_3:
  "i < 64 \<Longrightarrow> j < 64 \<Longrightarrow> k < 64 \<Longrightarrow> l < 64 \<Longrightarrow> b64_groups s = Some r \<Longrightarrow>
   b64_groups (b64_char i # b64_char j # b64_char k # b64_char l # s) =
   Some (byte (i * 4 + j div 16) # byte (j mod 16 * 16 + k div 4) # byte (k mod 4 * 64 + l) # r)"
  by (simp add: b64_value_char b64_char_not_pad)

lemma b64_groups_encode: "b64_groups (b64_encode s) = Some s"
proof (induction s rule: b64_encode.induct)
  case (2 x)
  show ?case
    unfolding b64_encode.simps Let_def b64_groups_1 [OF char_bounds(1,2)] char_values
    by (rule arg_cong [where f = "\<lambda>c. Some [c]"], rule byte_of_char)
next
  case (3 x y)
  show ?case
    unfolding b64_encode.simps Let_def b64_groups_2 [OF char_bounds(1,3,4)] char_values
      byte_of_char ..
next
  case (4 x y z s)
  show ?case
    unfolding b64_encode.simps Let_def b64_groups_3 [OF char_bounds(1,3) char_bounds(5,6) 4 [OF refl refl refl]]
      char_values byte_of_char ..
qed simp

definition b64_letter :: "char \<Rightarrow> bool" where
  "b64_letter c \<longleftrightarrow> c = CHR ''='' \<or> (\<exists>n<64. c = b64_char n)"

lemma b64_letter_char: "n < 64 \<Longrightarrow> b64_letter (b64_char n)"
  by (auto simp: b64_letter_def)

lemma b64_letter_pad: "b64_letter (CHR ''='')"
  by (simp add: b64_letter_def)

lemma b64_encode_chars: "list_all b64_letter (b64_encode s)"
  by (induction s rule: b64_encode.induct)
    (simp_all only: b64_encode.simps Let_def list.pred_inject b64_letter_pad
      b64_letter_char [OF char_bounds(1)] b64_letter_char [OF char_bounds(2)]
      b64_letter_char [OF char_bounds(3)] b64_letter_char [OF char_bounds(4)]
      b64_letter_char [OF char_bounds(5)] b64_letter_char [OF char_bounds(6)] simp_thms)

lemma b64_letter_facts:
  "b64_letter c \<Longrightarrow> of_char c < (0x80 :: nat) \<and> c \<noteq> CHR 0x0A \<and> c \<noteq> CHR 0x0D"
  using b64_table by (auto simp: b64_letter_def)

lemma ascii_b64: "ascii (b64_encode s)"
  unfolding ascii_def using b64_encode_chars [of s]
  by (rule list.pred_mono_strong) (blast dest: b64_letter_facts)

lemma b64_decode_encode: "b64_decode (b64_encode s) = Some s"
proof -
  have "filter (\<lambda>c. c \<noteq> CHR 0x0A \<and> c \<noteq> CHR 0x0D) (b64_encode s) = b64_encode s"
    using b64_encode_chars [of s] by (intro filter_True) (auto simp: list_all_iff dest: b64_letter_facts)
  then show ?thesis by (simp add: b64_decode_def b64_groups_encode)
qed

interpretation b64: codec b64_encode b64_decode "\<lambda>_. True"
  by unfold_locales (rule b64_decode_encode)

section \<open>Decoding into a struct\<close>

text \<open>
  A member's name selects the field with that name, or else one equal to it up to case. Members
  are taken in order, unknown ones skipped, and a later one overwrites. A value of the wrong
  kind is an error of the whole decoding; \<open>null\<close> leaves a scalar field as it is and empties a
  slice or a pointer.
\<close>

definition lower :: "char \<Rightarrow> char" where
  "lower c = (if 65 \<le> (of_char c :: nat) \<and> of_char c \<le> (90 :: nat) then byte (of_char c + 32) else c)"

definition field_name :: "string list \<Rightarrow> string \<Rightarrow> string option" where
  "field_name names k =
     (if k \<in> set names then Some k else find (\<lambda>n. map lower n = map lower k) names)"

fun decode_members ::
    "string list \<Rightarrow> (string \<Rightarrow> json \<Rightarrow> 'r \<Rightarrow> 'r option) \<Rightarrow> (string \<times> json) list \<Rightarrow> 'r \<Rightarrow> 'r option" where
  "decode_members names set_field [] r = Some r"
| "decode_members names set_field ((k, v) # ms) r =
     (case field_name names k of
        None \<Rightarrow> decode_members names set_field ms r
      | Some f \<Rightarrow>
          (case set_field f v r of
             None \<Rightarrow> None
           | Some r' \<Rightarrow> decode_members names set_field ms r'))"

lemma decode_members_append:
  "decode_members names st (xs @ ys) r =
     (case decode_members names st xs r of
        None \<Rightarrow> None | Some r' \<Rightarrow> decode_members names st ys r')"
  by (induction xs arbitrary: r) (auto split: option.splits)

lemma field_name_exact [simp]: "k \<in> set names \<Longrightarrow> field_name names k = Some k"
  by (simp add: field_name_def)

text \<open>A struct is decoded from an object; \<open>null\<close> leaves it as it was.\<close>

definition decode_struct ::
    "string list \<Rightarrow> (string \<Rightarrow> json \<Rightarrow> 'r \<Rightarrow> 'r option) \<Rightarrow> 'r \<Rightarrow> json \<Rightarrow> 'r option" where
  "decode_struct names set_field r v =
     (case v of
        JObj ms \<Rightarrow> decode_members names set_field ms r
      | JNull \<Rightarrow> Some r
      | _ \<Rightarrow> None)"

definition unmarshal :: "(json \<Rightarrow> 'r option) \<Rightarrow> bytes \<Rightarrow> 'r option" where
  "unmarshal dec s = (case json_parse s of None \<Rightarrow> None | Some v \<Rightarrow> dec v)"

fun dec_byte :: "json \<Rightarrow> char option" where
  "dec_byte JNull = Some (byte 0)"
| "dec_byte (JNum t) =
     (case parse_int t of
        Some i \<Rightarrow> if 0 \<le> i \<and> i < 256 then Some (byte (nat i)) else None
      | None \<Rightarrow> None)"
| "dec_byte _ = None"

fun all_some :: "'a option list \<Rightarrow> 'a list option" where
  "all_some [] = Some []"
| "all_some (None # xs) = None"
| "all_some (Some x # xs) = map_option (Cons x) (all_some xs)"

lemma all_some_map [simp]: "all_some (map (Some \<circ> f) xs) = Some (map f xs)"
  by (induction xs) simp_all

fun dec_bytes :: "json \<Rightarrow> bytes option" where
  "dec_bytes JNull = Some []"
| "dec_bytes (JStr s) = b64_decode s"
| "dec_bytes (JArr vs) = all_some (map dec_byte vs)"
| "dec_bytes _ = None"

fun dec_string :: "json \<Rightarrow> string \<Rightarrow> string option" where
  "dec_string JNull old = Some old"
| "dec_string (JStr s) old = Some s"
| "dec_string _ old = None"

fun dec_bool :: "json \<Rightarrow> bool \<Rightarrow> bool option" where
  "dec_bool JNull old = Some old"
| "dec_bool (JBool b) old = Some b"
| "dec_bool _ old = None"

fun dec_strings :: "json \<Rightarrow> string list option" where
  "dec_strings JNull = Some []"
| "dec_strings (JArr vs) = all_some (map (\<lambda>v. dec_string v []) vs)"
| "dec_strings _ = None"

fun dec_duration :: "json \<Rightarrow> duration \<Rightarrow> duration option" where
  "dec_duration JNull old = Some old"
| "dec_duration (JNum t) old = map_option word_of_int (parse_int t)"
| "dec_duration _ old = None"

section \<open>TLS options on the wire\<close>

definition omit_empty :: "bool \<Rightarrow> string \<Rightarrow> json \<Rightarrow> (string \<times> json) list" where
  "omit_empty nonempty k v = (if nonempty then [(k, v)] else [])"

definition PersistableTLSConfig_json :: "PersistableTLSConfig \<Rightarrow> json" where
  "PersistableTLSConfig_json p = JObj (
     omit_empty (P_Insecure p) ''insecure'' (JBool (P_Insecure p)) @
     omit_empty (P_ServerName p \<noteq> []) ''serverName'' (JStr (P_ServerName p)) @
     omit_empty (P_CAData p \<noteq> []) ''caData'' (JStr (b64_encode (P_CAData p))) @
     omit_empty (P_CertData p \<noteq> []) ''certData'' (JStr (b64_encode (P_CertData p))) @
     omit_empty (P_KeyData p \<noteq> []) ''keyData'' (JStr (b64_encode (P_KeyData p))) @
     omit_empty (P_NextProtos p \<noteq> []) ''nextProtos'' (JArr (map JStr (P_NextProtos p))))"

definition tls_names :: "string list" where
  "tls_names = [''insecure'', ''serverName'', ''caData'', ''certData'', ''keyData'', ''nextProtos'']"

definition tls_field :: "string \<Rightarrow> json \<Rightarrow> PersistableTLSConfig \<Rightarrow> PersistableTLSConfig option" where
  "tls_field f v p =
     (if f = ''insecure'' then map_option (\<lambda>x. p\<lparr>P_Insecure := x\<rparr>) (dec_bool v (P_Insecure p))
      else if f = ''serverName''
        then map_option (\<lambda>x. p\<lparr>P_ServerName := x\<rparr>) (dec_string v (P_ServerName p))
      else if f = ''caData'' then map_option (\<lambda>x. p\<lparr>P_CAData := x\<rparr>) (dec_bytes v)
      else if f = ''certData'' then map_option (\<lambda>x. p\<lparr>P_CertData := x\<rparr>) (dec_bytes v)
      else if f = ''keyData'' then map_option (\<lambda>x. p\<lparr>P_KeyData := x\<rparr>) (dec_bytes v)
      else map_option (\<lambda>x. p\<lparr>P_NextProtos := x\<rparr>) (dec_strings v))"

definition empty_persistable :: PersistableTLSConfig where
  "empty_persistable = \<lparr>P_Insecure = False, P_ServerName = [], P_CAData = [], P_CertData = [],
     P_KeyData = [], P_NextProtos = []\<rparr>"

definition PersistableTLSConfig_decode ::
    "PersistableTLSConfig \<Rightarrow> json \<Rightarrow> PersistableTLSConfig option" where
  "PersistableTLSConfig_decode p v = decode_struct tls_names tls_field p v"

definition persistable_ok :: "PersistableTLSConfig \<Rightarrow> bool" where
  "persistable_ok p \<longleftrightarrow> ascii (P_ServerName p) \<and> list_all ascii (P_NextProtos p)"

text \<open>Each optional member sets its field, and leaving it out leaves the field empty.\<close>

lemma omit_field:
  assumes "f \<in> set names" "st f v r = Some r'" "\<not> nonempty \<Longrightarrow> r' = r"
  shows "decode_members names st (omit_empty nonempty f v @ ms) r = decode_members names st ms r'"
  using assms by (auto simp: omit_empty_def)

lemma dec_strings_map [simp]: "all_some (map ((\<lambda>v. dec_string v []) \<circ> JStr) ps) = Some ps"
  using all_some_map [of "\<lambda>x. x" ps] by (simp add: comp_def)

lemma tls_names_set [simp]: "''insecure'' \<in> set tls_names" "''serverName'' \<in> set tls_names"
  "''caData'' \<in> set tls_names" "''certData'' \<in> set tls_names" "''keyData'' \<in> set tls_names"
  "''nextProtos'' \<in> set tls_names"
  by (simp_all add: tls_names_def)

lemma tls_field_at [simp]:
  "tls_field ''insecure'' v p = map_option (\<lambda>x. p\<lparr>P_Insecure := x\<rparr>) (dec_bool v (P_Insecure p))"
  "tls_field ''serverName'' v p =
     map_option (\<lambda>x. p\<lparr>P_ServerName := x\<rparr>) (dec_string v (P_ServerName p))"
  "tls_field ''caData'' v p = map_option (\<lambda>x. p\<lparr>P_CAData := x\<rparr>) (dec_bytes v)"
  "tls_field ''certData'' v p = map_option (\<lambda>x. p\<lparr>P_CertData := x\<rparr>) (dec_bytes v)"
  "tls_field ''keyData'' v p = map_option (\<lambda>x. p\<lparr>P_KeyData := x\<rparr>) (dec_bytes v)"
  "tls_field ''nextProtos'' v p = map_option (\<lambda>x. p\<lparr>P_NextProtos := x\<rparr>) (dec_strings v)"
  by (simp_all add: tls_field_def)

lemma tls_steps:
  "\<not> P_Insecure p \<Longrightarrow>
   decode_members tls_names tls_field (omit_empty i ''insecure'' (JBool i) @ ms) p =
   decode_members tls_names tls_field ms (p\<lparr>P_Insecure := i\<rparr>)"
  "P_ServerName p = [] \<Longrightarrow>
   decode_members tls_names tls_field (omit_empty (t \<noteq> []) ''serverName'' (JStr t) @ ms) p =
   decode_members tls_names tls_field ms (p\<lparr>P_ServerName := t\<rparr>)"
  "P_CAData p = [] \<Longrightarrow>
   decode_members tls_names tls_field (omit_empty (d \<noteq> []) ''caData'' (JStr (b64_encode d)) @ ms) p =
   decode_members tls_names tls_field ms (p\<lparr>P_CAData := d\<rparr>)"
  "P_CertData p = [] \<Longrightarrow>
   decode_members tls_names tls_field (omit_empty (d \<noteq> []) ''certData'' (JStr (b64_encode d)) @ ms) p =
   decode_members tls_names tls_field ms (p\<lparr>P_CertData := d\<rparr>)"
  "P_KeyData p = [] \<Longrightarrow>
   decode_members tls_names tls_field (omit_empty (d \<noteq> []) ''keyData'' (JStr (b64_encode d)) @ ms) p =
   decode_members tls_names tls_field ms (p\<lparr>P_KeyData := d\<rparr>)"
  "P_NextProtos p = [] \<Longrightarrow>
   decode_members tls_names tls_field (omit_empty (ps \<noteq> []) ''nextProtos'' (JArr (map JStr ps))) p =
   Some (p\<lparr>P_NextProtos := ps\<rparr>)"
       apply (rule omit_field; simp)
      apply (rule omit_field; simp)
     apply (rule omit_field; simp add: b64_decode_encode)
    apply (rule omit_field; simp add: b64_decode_encode)
   apply (rule omit_field; simp add: b64_decode_encode)
  apply (simp add: omit_empty_def)
  done

lemma tls_decode:
  "PersistableTLSConfig_decode empty_persistable (PersistableTLSConfig_json p) = Some p"
  by (cases p) (simp add: PersistableTLSConfig_decode_def decode_struct_def
      PersistableTLSConfig_json_def tls_steps empty_persistable_def)

lemma ascii_names [simp]: "ascii ''insecure''" "ascii ''serverName''" "ascii ''caData''"
  "ascii ''certData''" "ascii ''keyData''" "ascii ''nextProtos''" "ascii ''Request''"
  "ascii ''TLS''" "ascii ''Timeout''" "ascii ''DisableCompression''" "ascii ''linkID''"
  "ascii ''clusterID''" "ascii ''kubeConfig''"
  by (simp_all add: ascii_def)

lemma tls_json_ok: "persistable_ok p \<Longrightarrow> json_ok (PersistableTLSConfig_json p)"
  by (auto simp: PersistableTLSConfig_json_def omit_empty_def persistable_ok_def ascii_b64
      list_all_iff)

section \<open>The request record\<close>

record R =
  R_Request :: bytes
  R_TLS :: "PersistableTLSConfig option"
  R_Timeout :: duration
  R_DisableCompression :: bool

definition R_json :: "R \<Rightarrow> json" where
  "R_json r = JObj [
     (''Request'', JStr (b64_encode (R_Request r))),
     (''TLS'', (case R_TLS r of None \<Rightarrow> JNull | Some p \<Rightarrow> PersistableTLSConfig_json p)),
     (''Timeout'', JNum (int_text (sint (R_Timeout r)))),
     (''DisableCompression'', JBool (R_DisableCompression r))]"

definition R_names :: "string list" where
  "R_names = [''Request'', ''TLS'', ''Timeout'', ''DisableCompression'']"

definition R_field :: "string \<Rightarrow> json \<Rightarrow> R \<Rightarrow> R option" where
  "R_field f v r =
     (if f = ''Request'' then map_option (\<lambda>x. r\<lparr>R_Request := x\<rparr>) (dec_bytes v)
      else if f = ''TLS'' then
        (if v = JNull then Some (r\<lparr>R_TLS := None\<rparr>)
         else map_option (\<lambda>x. r\<lparr>R_TLS := Some x\<rparr>)
                (PersistableTLSConfig_decode
                  (case R_TLS r of None \<Rightarrow> empty_persistable | Some p \<Rightarrow> p) v))
      else if f = ''Timeout''
        then map_option (\<lambda>x. r\<lparr>R_Timeout := x\<rparr>) (dec_duration v (R_Timeout r))
      else map_option (\<lambda>x. r\<lparr>R_DisableCompression := x\<rparr>) (dec_bool v (R_DisableCompression r)))"

definition empty_R :: R where
  "empty_R = \<lparr>R_Request = [], R_TLS = None, R_Timeout = 0, R_DisableCompression = False\<rparr>"

text \<open>\<open>json.Marshal\<close>, the encoder that adds a newline, and \<open>json.Unmarshal\<close> into a new \<open>R\<close>.\<close>

definition R_marshal :: "R \<Rightarrow> bytes" where
  "R_marshal r = json_text (R_json r)"

definition R_encode :: "R \<Rightarrow> bytes" where
  "R_encode r = R_marshal r @ [CHR 0x0A]"

definition R_unmarshal :: "bytes \<Rightarrow> R option" where
  "R_unmarshal s = unmarshal (decode_struct R_names R_field empty_R) s"

definition R_ok :: "R \<Rightarrow> bool" where
  "R_ok r \<longleftrightarrow> (case R_TLS r of None \<Rightarrow> True | Some p \<Rightarrow> persistable_ok p)"

lemma PersistableTLSConfig_json_not_null [simp]: "PersistableTLSConfig_json p \<noteq> JNull"
  by (simp add: PersistableTLSConfig_json_def)

lemma R_decode: "decode_struct R_names R_field empty_R (R_json r) = Some r"
proof -
  obtain q t d c where r: "r = \<lparr>R_Request = q, R_TLS = t, R_Timeout = d,
    R_DisableCompression = c\<rparr>" by (cases r)
  have "parse_int (int_text (sint d)) = Some (sint d)"
    by (rule parse_int_text [OF in_int64_sint])
  then show ?thesis
    by (cases t) (simp_all add: r decode_struct_def R_json_def R_names_def R_field_def empty_R_def
        b64_decode_encode tls_decode)
qed

lemma R_json_ok: "R_ok r \<Longrightarrow> json_ok (R_json r)"
  by (auto simp: R_ok_def R_json_def ascii_b64 tls_json_ok split: option.splits)

lemma R_unmarshal_encode: "R_ok r \<Longrightarrow> R_unmarshal (R_encode r) = Some r"
  using json_parse_text [OF R_json_ok, of r "[CHR 0x0A]"] R_decode [of r]
  by (simp add: R_unmarshal_def unmarshal_def R_encode_def R_marshal_def json_space_def)

interpretation R_codec: codec R_encode R_unmarshal R_ok
  by unfold_locales (rule R_unmarshal_encode)

section \<open>Link requests (pkg/shared/types.go)\<close>

definition CallbackRequest_json :: "CallbackRequest \<Rightarrow> json" where
  "CallbackRequest_json r = JObj [(''linkID'', JStr (LinkID r)), (''clusterID'', JStr (ClusterID r))]"

definition CallbackRequest_field :: "string \<Rightarrow> json \<Rightarrow> CallbackRequest \<Rightarrow> CallbackRequest option" where
  "CallbackRequest_field f v r =
     (if f = ''linkID'' then map_option (\<lambda>x. r\<lparr>LinkID := x\<rparr>) (dec_string v (LinkID r))
      else map_option (\<lambda>x. r\<lparr>ClusterID := x\<rparr>) (dec_string v (ClusterID r)))"

definition CallbackRequest_marshal :: "CallbackRequest \<Rightarrow> bytes" where
  "CallbackRequest_marshal r = json_text (CallbackRequest_json r)"

definition CallbackRequest_unmarshal :: "bytes \<Rightarrow> CallbackRequest option" where
  "CallbackRequest_unmarshal s =
     unmarshal (decode_struct [''linkID'', ''clusterID''] CallbackRequest_field
       \<lparr>LinkID = [], ClusterID = []\<rparr>) s"

definition CallbackRequest_ok :: "CallbackRequest \<Rightarrow> bool" where
  "CallbackRequest_ok r \<longleftrightarrow> ascii (LinkID r) \<and> ascii (ClusterID r)"

interpretation callback_codec:
  codec CallbackRequest_marshal CallbackRequest_unmarshal CallbackRequest_ok
proof unfold_locales
  fix r assume "CallbackRequest_ok r"
  then have "json_ok (CallbackRequest_json r)"
    by (simp add: CallbackRequest_ok_def CallbackRequest_json_def)
  then have "json_parse (CallbackRequest_marshal r) = Some (CallbackRequest_json r)"
    unfolding CallbackRequest_marshal_def by (rule json_codec.dec_enc)
  then show "CallbackRequest_unmarshal (CallbackRequest_marshal r) = Some r"
    by (cases r) (simp add: CallbackRequest_unmarshal_def unmarshal_def decode_struct_def
        CallbackRequest_json_def CallbackRequest_field_def)
qed

definition LinkRequest_field :: "string \<Rightarrow> json \<Rightarrow> LinkRequest \<Rightarrow> LinkRequest option" where
  "LinkRequest_field f v r = map_option (\<lambda>x. r\<lparr>KubeConfig := x\<rparr>) (dec_string v (KubeConfig r))"

definition LinkRequest_unmarshal :: "bytes \<Rightarrow> LinkRequest option" where
  "LinkRequest_unmarshal s =
     unmarshal (decode_struct [''kubeConfig''] LinkRequest_field \<lparr>KubeConfig = []\<rparr>) s"

section \<open>Properties\<close>

text \<open>C40: The record a client encodes is the record the connector decodes, with the request's bytes
  whatever they are, the timeout at its full width, and TLS options whose names are ASCII.\<close>

theorem record_roundtrip:
  assumes "R_ok r"
  shows "R_unmarshal (R_encode r) = Some r"
  by (rule R_codec.dec_enc [OF assms])

theorem record_roundtrip_witness:
  "R_unmarshal (R_encode \<lparr>R_Request = [CHR 0x00, CHR 0xFF], R_TLS = Some \<lparr>P_Insecure = True,
       P_ServerName = ''a\"b'', P_CAData = [], P_CertData = [CHR 0x0A], P_KeyData = [],
       P_NextProtos = [''h2'']\<rparr>, R_Timeout = - 5, R_DisableCompression = True\<rparr>) =
   Some \<lparr>R_Request = [CHR 0x00, CHR 0xFF], R_TLS = Some \<lparr>P_Insecure = True,
       P_ServerName = ''a\"b'', P_CAData = [], P_CertData = [CHR 0x0A], P_KeyData = [],
       P_NextProtos = [''h2'']\<rparr>, R_Timeout = - 5, R_DisableCompression = True\<rparr>"
  by (rule record_roundtrip) (simp add: R_ok_def persistable_ok_def ascii_def)

text \<open>The callback's body decodes on the server to the request that was made.\<close>

theorem callback_roundtrip:
  assumes "CallbackRequest_ok r"
  shows "CallbackRequest_unmarshal (CallbackRequest_marshal r) = Some r"
  by (rule callback_codec.dec_enc [OF assms])

theorem callback_roundtrip_witness:
  "CallbackRequest_unmarshal (CallbackRequest_marshal \<lparr>LinkID = ''<l>'', ClusterID = ''c''\<rparr>) =
   Some \<lparr>LinkID = ''<l>'', ClusterID = ''c''\<rparr>"
  by (rule callback_roundtrip) (simp add: CallbackRequest_ok_def ascii_def)

end
