(* ===== verification/NatsTransport.thy ===== *)
theory NatsTransport
  imports TlsCache ResponseWriter Wire
begin

text \<open>
  The client side of the tunnel (\<open>pkg/transport/nats.go\<close>): the timeout of a request, the pooled
  buffer that holds first the serialised request and then the record that is published, the
  subscription and publication of one request, and the loop that pumps response messages into a
  pipe that the HTTP parser reads. \<open>NewConnection\<close> and the connection's log handlers are here too.
\<close>

section \<open>Timeouts\<close>

definition natsConnectionTimeout :: duration where
  "natsConnectionTimeout = 350 * millisecond"
definition natsConnectionRetryInterval :: duration where
  "natsConnectionRetryInterval = 100 * millisecond"

definition dur_max :: "duration \<Rightarrow> duration \<Rightarrow> duration" where
  "dur_max x y = (if sint x > sint y then x else y)"

definition dur_min :: "duration \<Rightarrow> duration \<Rightarrow> duration" where
  "dur_min x y = (if sint x < sint y then x else y)"

definition defaultTimeout :: duration where "defaultTimeout = 30 * second"

text \<open>The deadline of the request's context, if it has one, and the present instant.\<close>

definition transport_timeout :: "NatsTransport \<Rightarrow> int option \<Rightarrow> int \<Rightarrow> duration" where
  "transport_timeout rt deadline now =
     (let timeout = (case deadline of
            None \<Rightarrow> NT_Timeout rt
          | Some d \<Rightarrow> dur_min (NT_Timeout rt) (time_sub d now))
      in if sint timeout > 0 then timeout else defaultTimeout)"

text \<open>What is left for the edge: half a second less, but never negative.\<close>

definition edge_timeout :: "duration \<Rightarrow> duration" where
  "edge_timeout timeout = dur_max 0 (timeout - 500 * millisecond)"

lemma sint_defaultTimeout: "sint defaultTimeout = 30000000000"
  by (simp add: defaultTimeout_def second_def)

lemma transport_timeout_pos: "0 < sint (transport_timeout rt deadline now)"
  by (simp add: transport_timeout_def Let_def sint_defaultTimeout)

lemma sint_edge_timeout:
  assumes "0 < sint t"
  shows "sint (edge_timeout t) = max 0 (sint t - 500000000)"
proof -
  have h: "sint (500 * millisecond) = 500000000" by (simp add: millisecond_def)
  have "sint (t - 500 * millisecond) = sint t - 500000000"
    using sint_diff_int64 [of t "500 * millisecond"] assms in_int64_sint [of t]
    unfolding h by (simp add: in_int64_def)
  then show ?thesis by (simp add: edge_timeout_def dur_max_def)
qed

section \<open>The pooled buffer\<close>

text \<open>
  A \<open>bytes.Buffer\<close> from the pool: its backing array, of which \<open>used\<close> bytes are its content.
  \<open>Bytes()\<close> is a slice of the array: what it holds when it is read, not when it was taken.
  \<open>Reset\<close> keeps the array. (A write that outgrows the array moves to a new one, which only
  makes old slices safer.)
\<close>

record gobuf =
  storage :: bytes
  used :: nat

definition gobuf_ok :: "gobuf \<Rightarrow> bool" where
  "gobuf_ok b \<longleftrightarrow> used b \<le> length (storage b)"

definition gobuf_Reset :: "gobuf \<Rightarrow> gobuf" where
  "gobuf_Reset b = b\<lparr>used := 0\<rparr>"

definition gobuf_Write :: "bytes \<Rightarrow> gobuf \<Rightarrow> gobuf" where
  "gobuf_Write d b = b\<lparr>
     storage := take (used b) (storage b) @ d @ drop (used b + length d) (storage b),
     used := used b + length d\<rparr>"

definition read_slice :: "nat \<Rightarrow> gobuf \<Rightarrow> bytes" where
  "read_slice n b = take n (storage b)"

definition gobuf_bytes :: "gobuf \<Rightarrow> bytes" where
  "gobuf_bytes b = read_slice (used b) b"

lemma gobuf_write_reset: "gobuf_bytes (gobuf_Write d (gobuf_Reset b)) = d"
  "gobuf_ok (gobuf_Write d (gobuf_Reset b))"
  "used (gobuf_Write d (gobuf_Reset b)) = length d"
  by (simp_all add: gobuf_bytes_def read_slice_def gobuf_Write_def gobuf_Reset_def gobuf_ok_def)

section \<open>A round trip's payload\<close>

text \<open>
  What the code reads of a request: the bytes that \<open>WriteProxy\<close> writes of it, the error it ends
  with if any, and the deadline of its context.
\<close>

record http_request =
  HR_wire :: bytes
  HR_write_error :: "go_error option"
  HR_deadline :: "int option"

text \<open>
  The request slice aliases the buffer that the record is then encoded into: the encoder reads
  it (\<open>read_slice\<close>) from the buffer after \<open>Reset\<close>, and writes its output in one call at the end.
\<close>

definition RoundTrip_payload ::
    "NatsTransport \<Rightarrow> http_request \<Rightarrow> int \<Rightarrow> gobuf \<Rightarrow> (bytes \<times> duration) result \<times> gobuf" where
  "RoundTrip_payload rt r now buf0 =
     (let buf1 = gobuf_Write (HR_wire r) (gobuf_Reset buf0)
      in case HR_write_error r of
           Some err \<Rightarrow> (Inl err, buf1)
         | None \<Rightarrow>
             let timeout = transport_timeout rt (HR_deadline r) now;
                 n = used buf1;
                 buf2 = gobuf_Reset buf1;
                 r2 = \<lparr>R_Request = read_slice n buf2, R_TLS = NT_TLS rt,
                       R_Timeout = edge_timeout timeout,
                       R_DisableCompression = NT_DisableCompression rt\<rparr>;
                 buf3 = gobuf_Write (R_encode r2) buf2
             in (Inr (gobuf_bytes buf3, timeout), buf3))"

definition request_record :: "NatsTransport \<Rightarrow> http_request \<Rightarrow> duration \<Rightarrow> R" where
  "request_record rt r timeout = \<lparr>R_Request = HR_wire r, R_TLS = NT_TLS rt,
     R_Timeout = edge_timeout timeout, R_DisableCompression = NT_DisableCompression rt\<rparr>"

lemma payload_error:
  "HR_write_error r = Some e \<Longrightarrow> fst (RoundTrip_payload rt r now b) = Inl e"
  by (simp add: RoundTrip_payload_def Let_def)

text \<open>The payload is the encoding of the request itself, whatever the pooled buffer held.\<close>

lemma payload_ok:
  assumes "HR_write_error r = None"
  shows "fst (RoundTrip_payload rt r now b) =
    (let t = transport_timeout rt (HR_deadline r) now in Inr (R_encode (request_record rt r t), t))"
proof -
  have "read_slice (length (HR_wire r)) (gobuf_Reset (gobuf_Write (HR_wire r) (gobuf_Reset b))) =
      HR_wire r"
    by (simp add: read_slice_def gobuf_Write_def gobuf_Reset_def)
  then show ?thesis
    using assms by (simp add: RoundTrip_payload_def Let_def gobuf_write_reset request_record_def)
qed

section \<open>Sending a request\<close>

text \<open>
  The first half of \<open>Proxy\<close>. It returns the subscription that waits for the response; when the
  request cannot be published, the subscription made for it stays.
\<close>

definition Proxy_send ::
    "xid_env \<Rightarrow> int \<Rightarrow> names \<Rightarrow> bytes \<Rightarrow> nats_conn \<Rightarrow> 32 word \<Rightarrow>
     subscription result \<times> nats_conn \<times> 32 word" where
  "Proxy_send env unix_secs n data nc ctr =
     (let ((hubRespSub, edgeRespSub), ctr') = ProxyResponseSubjects env unix_secs ctr n
      in case SubscribeSync hubRespSub nc of
           (Inl err, nc1) \<Rightarrow> (Inl err, nc1, ctr')
         | (Inr sub, nc1) \<Rightarrow>
             let (hubReqSub, _) = ProxyHandlerSubjects n
             in case PublishRequest hubReqSub edgeRespSub data nc1 of
                  (Some err, nc2) \<Rightarrow> (Inl err, nc2, ctr')
                | (None, nc2) \<Rightarrow> (Inr sub, nc2, ctr'))"

text \<open>Giving a subscription up, with the checks in the code's order.\<close>

definition Unsubscribe :: "subscription \<Rightarrow> nats_conn \<Rightarrow> go_error option \<times> nats_conn" where
  "Unsubscribe sub nc =
     (let st = status_at nc (ops nc); nc1 = nc\<lparr>ops := Suc (ops nc)\<rparr>
      in if closed st then (Some ErrConnectionClosed, nc1)
         else if sub \<notin> set (subs nc) then (Some ErrBadSubscription, nc1)
         else if draining st then (Some ErrConnectionDraining, nc1)
         else (None, nc1\<lparr>subs := remove1 sub (subs nc)\<rparr>))"

lemma Unsubscribe_subs:
  "subs (snd (Unsubscribe sub nc)) = subs nc \<or>
   subs (snd (Unsubscribe sub nc)) = remove1 sub (subs nc)"
  by (simp add: Unsubscribe_def Let_def)

section \<open>Receiving messages\<close>

text \<open>What \<open>NextMsg\<close> meets: a message, a quiet spell as long as the timeout, or an error.\<close>

datatype sub_event = Arrived msg | Quiet | SubError go_error

definition header_get :: "string \<Rightarrow> header \<Rightarrow> string" where
  "header_get k h = (case map_of h k of Some (v # _) \<Rightarrow> v | _ \<Rightarrow> [])"

fun NextMsg :: "sub_event \<Rightarrow> msg result" where
  "NextMsg (Arrived m) =
     (if length (M_Data m) = 0 \<and> header_get ''Status'' (M_Header m) = ''503''
      then Inl ErrNoResponders else Inr m)"
| "NextMsg Quiet = Inl ErrTimeout"
| "NextMsg (SubError e) = Inl e"

text \<open>
  The pipe. A write hands its bytes to the reader and returns when they are all taken. The
  reader takes everything (\<open>P_demand = None\<close>) or stops after some bytes: the HTTP parser reads
  no further than the body's end, and nothing closes the reading side, so a write it does not
  take never returns. \<open>P_gone\<close> is the error of a closed reading side.
\<close>

record pipe =
  P_taken :: bytes
  P_demand :: "nat option"
  P_gone :: "go_error option"
  P_closed :: "go_error option"

datatype write_outcome = Taken pipe | Refused go_error | Never pipe

definition pipe_write :: "bytes \<Rightarrow> pipe \<Rightarrow> write_outcome" where
  "pipe_write d p =
     (case P_gone p of
        Some e \<Rightarrow> Refused e
      | None \<Rightarrow>
          (case P_demand p of
             None \<Rightarrow> Taken (p\<lparr>P_taken := P_taken p @ d\<rparr>)
           | Some n \<Rightarrow>
               if n = 0 \<or> n < length d
               then Never (p\<lparr>P_taken := P_taken p @ take n d, P_demand := Some 0\<rparr>)
               else Taken (p\<lparr>P_taken := P_taken p @ d, P_demand := Some (n - length d)\<rparr>)))"

definition new_pipe :: pipe where
  "new_pipe = \<lparr>P_taken = [], P_demand = None, P_gone = None, P_closed = None\<rparr>"

text \<open>
  The pump: \<open>Waiting\<close> for the next event, \<open>Stuck\<close> in a write that does not return, \<open>Ended\<close> with
  the pipe closed and the subscription given up, or panicked on an empty header value.
\<close>

datatype pump_state = Waiting pipe | Stuck pipe | Ended pipe | Panicked

definition close_pipe :: "go_error option \<Rightarrow> pipe \<Rightarrow> pipe" where
  "close_pipe e2 p = p\<lparr>P_closed := Some (case e2 of Some e \<Rightarrow> e | None \<Rightarrow> io_EOF)\<rparr>"

fun pump :: "sub_event list \<Rightarrow> pipe \<Rightarrow> pump_state" where
  "pump [] p = Waiting p"
| "pump (ev # evs) p =
     (case NextMsg ev of
        Inl e2 \<Rightarrow> if e2 = ErrTimeout then pump evs p else Ended (close_pipe (Some e2) p)
      | Inr msg \<Rightarrow>
          (case pipe_write (M_Data msg) p of
             Never p' \<Rightarrow> Stuck p'
           | Refused e2 \<Rightarrow> Ended (close_pipe (Some e2) p)
           | Taken p' \<Rightarrow>
               (case map_of (M_Header msg) HeaderKeyDone of
                  Some [] \<Rightarrow> Panicked
                | Some (v # _) \<Rightarrow>
                    Ended (close_pipe (if v \<noteq> [] then Some (ErrNew v) else None) p')
                | None \<Rightarrow> pump evs p')))"

text \<open>
  The deferred calls: the subscription is given up only when the loop ends, and the result of
  giving it up is ignored.
\<close>

definition Proxy_receive :: "subscription \<Rightarrow> sub_event list \<Rightarrow> nats_conn \<Rightarrow> pump_state \<times> nats_conn" where
  "Proxy_receive sub evs nc =
     (case pump evs new_pipe of
        Ended p \<Rightarrow> (Ended p, snd (Unsubscribe sub nc))
      | Panicked \<Rightarrow> (Panicked, snd (Unsubscribe sub nc))
      | s \<Rightarrow> (s, nc))"

section \<open>The whole round trip\<close>

definition RoundTrip ::
    "xid_env \<Rightarrow> int \<Rightarrow> NatsTransport \<Rightarrow> http_request \<Rightarrow> gobuf \<Rightarrow> nats_conn \<Rightarrow> 32 word \<Rightarrow>
     (subscription \<times> duration) result \<times> gobuf \<times> nats_conn \<times> 32 word" where
  "RoundTrip env now rt r b nc ctr =
     (case RoundTrip_payload rt r now b of
        (Inl err, b') \<Rightarrow> (Inl err, b', nc, ctr)
      | (Inr (data, timeout), b') \<Rightarrow>
          (case Proxy_send env (now div 1000000000) (Names rt) data nc ctr of
             (Inl err, nc', ctr') \<Rightarrow> (Inl err, b', nc', ctr')
           | (Inr sub, nc', ctr') \<Rightarrow> (Inr (sub, timeout), b', nc', ctr')))"

section \<open>Connecting\<close>

text \<open>
  \<open>NewConnection\<close>: the credentials file is used unless it is known not to exist; then a user
  name and password from the environment, if both are set and not empty.
\<close>

datatype stat_result = Exists | NotExist | StatError

record connect_env =
  hostname :: string
  stat :: "string \<Rightarrow> stat_result"
  lookup_env :: "string \<Rightarrow> string option"

datatype nats_option =
    Name string | MaxReconnects int | ErrorHandler | ReconnectHandler | DisconnectErrHandler
  | UserInfo string string | UserCredentials string

definition env_or_empty :: "connect_env \<Rightarrow> string \<Rightarrow> string" where
  "env_or_empty env k = (case lookup_env env k of Some v \<Rightarrow> v | None \<Rightarrow> [])"

definition connect_options :: "connect_env \<Rightarrow> string \<Rightarrow> nats_option list" where
  "connect_options env credFile =
     (let opts = [Name (''scanner-backend.'' @ hostname env), MaxReconnects (-1), ErrorHandler,
            ReconnectHandler, DisconnectErrHandler]
      in if stat env credFile = NotExist then
           (let username = env_or_empty env ''NATS_USERNAME'';
                password = env_or_empty env ''NATS_PASSWORD''
            in if username \<noteq> [] \<and> password \<noteq> [] then opts @ [UserInfo username password] else opts)
         else opts @ [UserCredentials credFile])"

text \<open>
  The loop selects between the ticker and the context's end, in the order the environment makes
  them ready. It is waiting (\<open>None\<close>) until one of them decides.
\<close>

datatype select_event = Tick | Expired

definition DeadlineExceeded :: go_error where
  "DeadlineExceeded = ErrVar ''context deadline exceeded''"

fun connect_loop ::
    "(nat \<Rightarrow> string \<Rightarrow> nats_option list \<Rightarrow> 'c result) \<Rightarrow> string \<Rightarrow> nats_option list \<Rightarrow>
     select_event list \<Rightarrow> nat \<Rightarrow> ('c result \<times> string list) option" where
  "connect_loop connect addr opts [] k = None"
| "connect_loop connect addr opts (Expired # evs) k = Some (Inl DeadlineExceeded, [])"
| "connect_loop connect addr opts (Tick # evs) k =
     (case connect k addr opts of
        Inr nc \<Rightarrow> Some (Inr nc, [])
      | Inl err \<Rightarrow>
          map_option (\<lambda>(r, ls).
              (r, (''failed to connect to event receiver: '' @ err_text err) # ls))
            (connect_loop connect addr opts evs (Suc k)))"

definition NewConnection ::
    "connect_env \<Rightarrow> (nat \<Rightarrow> string \<Rightarrow> nats_option list \<Rightarrow> 'c result) \<Rightarrow> select_event list \<Rightarrow>
     string \<Rightarrow> string \<Rightarrow> ('c result \<times> string list) option" where
  "NewConnection env connect evs addr credFile =
     connect_loop connect addr (connect_options env credFile) evs 0"

text \<open>What the connection's callbacks log.\<close>

definition errorHandler :: "string \<Rightarrow> subscription option \<Rightarrow> go_error \<Rightarrow> string" where
  "errorHandler url s err =
     (case s of
        Some sub \<Rightarrow> ''error in event receiver connection: '' @ url @ '': subscription: '' @
          S_Subject sub @ '': '' @ err_text err
      | None \<Rightarrow> ''Error in event receiver connection: '' @ url @ '': '' @ err_text err)"

definition reconnectHandler :: "string \<Rightarrow> string" where
  "reconnectHandler url = ''Reconnected to '' @ url"

definition disconnectHandler :: "go_error option \<Rightarrow> string" where
  "disconnectHandler err =
     (case err of
        Some e \<Rightarrow> ''Disconnected from event receiver due to error: '' @ err_text e
      | None \<Rightarrow> ''Disconnected from event receiver'')"

section \<open>The pump: lemmas\<close>

fun event_data :: "sub_event \<Rightarrow> bytes" where
  "event_data (Arrived m) = M_Data m"
| "event_data _ = []"

fun pump_pipe :: "pump_state \<Rightarrow> pipe option" where
  "pump_pipe (Waiting p) = Some p"
| "pump_pipe (Stuck p) = Some p"
| "pump_pipe (Ended p) = Some p"
| "pump_pipe Panicked = None"

lemma pump_ignores_quiet: "pump (filter (\<lambda>ev. ev \<noteq> Quiet) evs) p = pump evs p"
  by (induction evs arbitrary: p)
    (auto simp: ErrTimeout_def split: sum.splits write_outcome.splits option.splits list.splits)

lemma close_pipe_taken [simp]: "P_taken (close_pipe e p) = P_taken p"
  by (simp add: close_pipe_def)

text \<open>What the reader has taken is always a beginning of the data that arrived.\<close>

lemma pipe_write_prefix:
  "(\<forall>q. pipe_write d p = Taken q \<longrightarrow> P_taken q = P_taken p @ d \<and> P_gone q = P_gone p) \<and>
   (\<forall>q. pipe_write d p = Never q \<longrightarrow> prefix (P_taken q) (P_taken p @ d))"
  by (auto simp: pipe_write_def take_is_prefix split: option.splits if_splits)

lemma NextMsg_Inr: "NextMsg ev = Inr m \<longleftrightarrow>
    ev = Arrived m \<and> \<not> (length (M_Data m) = 0 \<and> header_get ''Status'' (M_Header m) = ''503'')"
  by (cases ev) auto

lemma NextMsg_Inl: "NextMsg ev = Inl e \<Longrightarrow> event_data ev = []"
  by (cases ev) (auto split: if_splits)

lemma pump_prefix:
  "pump_pipe (pump evs p) = Some q \<Longrightarrow>
   prefix (P_taken q) (P_taken p @ concat (map event_data evs))"
proof (induction evs arbitrary: p)
  case (Cons ev evs)
  show ?case
  proof (cases "NextMsg ev")
    case (Inl e)
    show ?thesis
      using Cons.prems Cons.IH [of p] Inl NextMsg_Inl [OF Inl]
      by (cases "e = ErrTimeout") auto
  next
    case (Inr m)
    then have ev: "ev = Arrived m" by (simp add: NextMsg_Inr)
    show ?thesis
    proof (cases "pipe_write (M_Data m) p")
      case (Taken p')
      then have t: "P_taken p' = P_taken p @ M_Data m" using pipe_write_prefix by blast
      show ?thesis
        using Cons.prems Cons.IH [of p'] Inr Taken ev t
        by (auto split: option.splits list.splits)
    next
      case (Never p')
      then have "prefix (P_taken p') (P_taken p @ M_Data m)" using pipe_write_prefix by blast
      then show ?thesis using Cons.prems Inr Never ev
        by (auto simp flip: append_assoc intro: prefix_prefix)
    qed (use Cons.prems Inr ev in auto)
  qed
qed auto

text \<open>
  A pipe that ends without an error was closed by a message marked done with an empty value, all
  the messages before it unmarked, and its reader took the data of all of them.
\<close>

definition error_free :: "sub_event list \<Rightarrow> bool" where
  "error_free evs \<longleftrightarrow> (\<forall>e. SubError e \<in> set evs \<longrightarrow> e = ErrTimeout)"

lemma error_free_Cons: "error_free (ev # evs) \<longleftrightarrow>
    (\<forall>e. ev = SubError e \<longrightarrow> e = ErrTimeout) \<and> error_free evs"
  by (auto simp: error_free_def)

lemma close_pipe_eof:
  "P_closed (close_pipe e p) = Some io_EOF \<longleftrightarrow> e = None \<or> e = Some io_EOF"
  by (auto simp: close_pipe_def split: option.splits)

lemma pump_clean_end:
  assumes "pump evs p = Ended q" "P_closed q = Some io_EOF" "P_gone p = None"
    "SubError io_EOF \<notin> set evs"
  shows "\<exists>evs1 m vs evs2. evs = evs1 @ Arrived m # evs2 \<and> done_value m = Some ([] # vs) \<and>
    error_free evs1 \<and> (\<forall>m'. Arrived m' \<in> set evs1 \<longrightarrow> done_value m' = None) \<and>
    P_taken q = P_taken p @ concat (map event_data evs1) @ M_Data m"
  using assms
proof (induction evs arbitrary: p)
  case (Cons ev evs)
  have step: ?case
    if a: "pump evs p' = Ended q" "P_taken p' = P_taken p @ event_data ev" "P_gone p' = None"
      "\<forall>e. ev = SubError e \<longrightarrow> e = ErrTimeout"
      "\<forall>m'. ev = Arrived m' \<longrightarrow> done_value m' = None" for p'
  proof -
    obtain evs1 m vs evs2 where "evs = evs1 @ Arrived m # evs2" "done_value m = Some ([] # vs)"
      "error_free evs1" "\<forall>m'. Arrived m' \<in> set evs1 \<longrightarrow> done_value m' = None"
      "P_taken q = P_taken p' @ concat (map event_data evs1) @ M_Data m"
      using Cons.IH [OF a(1) Cons.prems(2) a(3)] Cons.prems(4) by auto
    with a(2,4,5) show ?thesis
      by (intro exI [of _ "ev # evs1"] exI [of _ m] exI [of _ vs] exI [of _ evs2])
        (auto simp: error_free_Cons)
  qed
  show ?case
  proof (cases "NextMsg ev")
    case (Inl e)
    show ?thesis
    proof (cases "e = ErrTimeout")
      case True
      have "\<forall>e'. ev = SubError e' \<longrightarrow> e' = ErrTimeout" "\<forall>m'. ev \<noteq> Arrived m'"
        using Inl True by (cases ev; auto simp: ErrNoResponders_def ErrTimeout_def split: if_splits)+
      then show ?thesis
        using step [of p] Cons.prems Inl True NextMsg_Inl [OF Inl] by auto
    next
      case False
      then have "q = close_pipe (Some e) p" using Cons.prems(1) Inl by simp
      then have "e = io_EOF" using Cons.prems(2) by (simp add: close_pipe_eof)
      moreover have "e \<noteq> ErrNoResponders \<Longrightarrow> ev = SubError e"
        using Inl False by (cases ev) (auto split: if_splits)
      ultimately have False using Cons.prems(4) by (auto simp: ErrNoResponders_def io_EOF_def)
      then show ?thesis ..
    qed
  next
    case (Inr m)
    then have ev: "ev = Arrived m" by (simp add: NextMsg_Inr)
    obtain p' where w: "pipe_write (M_Data m) p = Taken p'"
      using Cons.prems(1,3) Inr by (auto simp: pipe_write_def split: option.splits if_splits)
    then have t: "P_taken p' = P_taken p @ M_Data m" "P_gone p' = None"
      using pipe_write_prefix Cons.prems(3) by (blast, metis)
    show ?thesis
    proof (cases "done_value m")
      case None
      then show ?thesis
        using step [of p'] Cons.prems(1) Inr w t ev by (auto simp: done_value_def)
    next
      case (Some rs)
      then obtain v vs where rs: "rs = v # vs"
        using Cons.prems(1) Inr w by (cases rs) (auto simp: done_value_def)
      then have q: "q = close_pipe (if v \<noteq> [] then Some (ErrNew v) else None) p'"
        using Cons.prems(1) Inr w Some by (simp add: done_value_def)
      then have "v = []" using Cons.prems(2) close_pipe_eof [of "Some (ErrNew v)" p']
        by (auto simp: io_EOF_def split: if_splits)
      then show ?thesis
        using Some rs q t ev by (intro exI [of _ "[]"] exI [of _ m] exI [of _ vs] exI [of _ evs])
          (auto simp: error_free_def)
    qed
  qed
qed simp

text \<open>Messages of a response, one after another, into a pipe that is read to the end.\<close>

definition arrivals :: "wire_msg list \<Rightarrow> sub_event list" where
  "arrivals = map (Arrived \<circ> deliver)"

lemma pump_plain:
  assumes "\<forall>m\<in>set ms. plain_message L subj m" "P_demand p = None" "P_gone p = None"
  shows "pump (arrivals ms @ evs) p = pump evs (p\<lparr>P_taken := P_taken p @ concat (map W_Data ms)\<rparr>)"
  using assms
proof (induction ms arbitrary: p)
  case (Cons m ms)
  then obtain d where m: "m = data_message subj d" "d \<noteq> []"
    by (auto simp: plain_message_def)
  show ?case
    using Cons.IH [of "p\<lparr>P_taken := P_taken p @ d\<rparr>"] Cons.prems m
    by (simp add: arrivals_def pipe_write_def)
qed (simp add: arrivals_def)

lemma pump_done:
  assumes "P_demand p = None" "P_gone p = None"
  shows "pump (arrivals [done_message subj v d] @ evs) p =
    Ended (close_pipe (if sanitize v \<noteq> [] then Some (ErrNew (sanitize v)) else None)
      (p\<lparr>P_taken := P_taken p @ d\<rparr>))"
  using assms by (simp add: arrivals_def pipe_write_def header_get_def HeaderKeyDone_def)

lemma pump_nothing: "pump [] p = Waiting p"
  by simp

section \<open>Sending: lemmas\<close>

lemma subscribe_result:
  "subscribe subj q k nc = (r, nc') \<Longrightarrow>
   status_at nc' = status_at nc \<and> outbox nc' = outbox nc \<and> ops nc' = Suc (ops nc) \<and>
   (case r of Inl e \<Rightarrow> subs nc' = subs nc
    | Inr sub \<Rightarrow> sub = \<lparr>S_Subject = subj, S_Queue = q, S_Kind = k\<rparr> \<and> subs nc' = subs nc @ [sub])"
  by (auto simp: subscribe_def Let_def split: if_splits)

lemma ProxyResponseSubjects_eq:
  "ProxyResponseSubjects env t ctr n =
     (response_subjects n (xid_string (fst (xid_new env t ctr))), ctr + 1)"
  by (simp add: ProxyResponseSubjects_def xid_new_def Let_def split: prod.splits)

text \<open>
  A request that was sent: the subscription is on its own response subject, the message that
  went out asks for the reply on the edge's side of that subject.
\<close>

lemma Proxy_send_ok:
  assumes "Proxy_send env t n data nc ctr = (Inr sub, nc', ctr')"
  shows "ctr' = ctr + 1"
    "S_Subject sub = fst (response_subjects n (xid_string (fst (xid_new env t ctr))))"
    "subs nc' = subs nc @ [sub]"
    "outbox nc' = outbox nc @ [\<lparr>W_Subject = fst (ProxyHandlerSubjects n),
       W_Reply = snd (response_subjects n (xid_string (fst (xid_new env t ctr)))),
       W_Header = [], W_Data = data\<rparr>]"
proof -
  let ?uid = "xid_string (fst (xid_new env t ctr))"
  obtain h e where rs: "response_subjects n ?uid = (h, e)" by (metis prod.exhaust)
  have prs: "ProxyResponseSubjects env t ctr n = ((h, e), ctr + 1)"
    using rs by (simp add: ProxyResponseSubjects_eq)
  obtain s1 nc1 where sub: "SubscribeSync h nc = (Inr s1, nc1)"
    using assms prs by (auto simp: Proxy_send_def split: sum.splits prod.splits)
  obtain nc2 where pub: "PublishRequest (fst (ProxyHandlerSubjects n)) e data nc1 = (None, nc2)"
    using assms prs sub by (auto simp: Proxy_send_def Let_def split: option.splits prod.splits)
  have res: "sub = s1" "nc' = nc2" "ctr' = ctr + 1"
    using assms prs sub pub by (auto simp: Proxy_send_def Let_def split: prod.splits)
  note sr = subscribe_result [OF sub [unfolded SubscribeSync_def]]
  have ob: "outbox nc2 = outbox nc1 @ [\<lparr>W_Subject = fst (ProxyHandlerSubjects n), W_Reply = e,
      W_Header = [], W_Data = data\<rparr>]" "subs nc2 = subs nc1"
    using publish_outbox [of "fst (ProxyHandlerSubjects n)" e True "[]" data nc1]
      publish_frame(3) [of "fst (ProxyHandlerSubjects n)" e True "[]" data nc1] pub
    by (simp_all add: PublishRequest_def)
  show "ctr' = ctr + 1" "S_Subject sub = fst (response_subjects n ?uid)"
    "subs nc' = subs nc @ [sub]"
    "outbox nc' = outbox nc @ [\<lparr>W_Subject = fst (ProxyHandlerSubjects n),
       W_Reply = snd (response_subjects n ?uid), W_Header = [], W_Data = data\<rparr>]"
    using res sr ob rs by auto
qed

lemma Proxy_send_error:
  assumes "Proxy_send env t n data nc ctr = (Inl e, nc', ctr')"
  shows "outbox nc' = outbox nc \<and> ctr' = ctr + 1 \<and>
    (subs nc' = subs nc \<or> (\<exists>sub. subs nc' = subs nc @ [sub] \<and>
       S_Subject sub = fst (response_subjects n (xid_string (fst (xid_new env t ctr))))))"
proof -
  let ?uid = "xid_string (fst (xid_new env t ctr))"
  obtain h e1 where rs: "response_subjects n ?uid = (h, e1)" by (metis prod.exhaust)
  have prs: "ProxyResponseSubjects env t ctr n = ((h, e1), ctr + 1)"
    using rs by (simp add: ProxyResponseSubjects_eq)
  obtain r nc1 where sub: "SubscribeSync h nc = (r, nc1)" by (metis prod.exhaust)
  note sr = subscribe_result [OF sub [unfolded SubscribeSync_def]]
  show ?thesis
  proof (cases r)
    case (Inl x)
    then show ?thesis using assms prs sub sr by (simp add: Proxy_send_def)
  next
    case (Inr s1)
    obtain x nc2 where pub: "PublishRequest (fst (ProxyHandlerSubjects n)) e1 data nc1 = (x, nc2)"
      by (metis prod.exhaust)
    have "x \<noteq> None" "nc' = nc2" "ctr' = ctr + 1"
      using assms prs sub Inr pub
      by (auto simp: Proxy_send_def Let_def split: prod.splits option.splits)
    then show ?thesis
      using sr Inr rs publish_outbox [of "fst (ProxyHandlerSubjects n)" e1 True "[]" data nc1]
        publish_frame(3) [of "fst (ProxyHandlerSubjects n)" e1 True "[]" data nc1] pub
      by (auto simp: PublishRequest_def)
  qed
qed

section \<open>When a request can be sent\<close>

lemma split_on_join: "split_on c (p @ c # q) = split_on c p @ split_on c q"
  by (induction p) (auto split: list.splits)

lemma badSubject_join:
  "badSubject (p @ CHR ''.'' # q) \<longleftrightarrow> badSubject p \<or> badSubject q"
  by (auto simp: badSubject_def split_on_join nats_space_def)

lemma xid_encoding_no_space: "\<not> list_ex nats_space xid_encoding"
  by (simp add: xid_encoding_def nats_space_def)

lemma xid_string_chars: "set (xid_string (fst (xid_new env t ctr))) \<subseteq> set xid_encoding"
  using xid_string_alphabet by blast

lemma xid_not_bad: "\<not> badSubject (xid_string (fst (xid_new env t ctr)))"
proof -
  let ?u = "xid_string (fst (xid_new env t ctr))"
  have "\<not> list_ex nats_space ?u"
    using xid_encoding_no_space xid_string_chars [of env t ctr] by (auto simp: list_ex_iff)
  moreover have "split_on (CHR ''.'') ?u = [?u]"
    by (rule split_on_no_sep) (rule xid_string_no_dot)
  moreover have "?u \<noteq> []"
    using xid_string_length [OF length_xid_new, of env t ctr] by auto
  ultimately show ?thesis by (simp add: badSubject_def)
qed

lemma prefixes_not_bad: "\<not> badSubject handler_prefix" "\<not> badSubject resp_prefix"
  by (simp_all add: badSubject_def handler_prefix_def resp_prefix_def nats_space_def)

lemma not_bad_valid: "\<not> badSubject s \<Longrightarrow> validateSubject s"
  by (cases s) (auto simp: badSubject_def validateSubject_def)

lemma hub_response_bad:
  "badSubject (fst (response_subjects n (xid_string (fst (xid_new env t ctr))))) \<longleftrightarrow>
   badSubject (GetLinkID n)"
  using badSubject_join xid_not_bad prefixes_not_bad by (simp add: hub_response_shape)

lemma edge_response_not_bad:
  "\<not> badSubject (GetLinkID n) \<Longrightarrow>
   \<not> badSubject (snd (response_subjects n (xid_string (fst (xid_new env t ctr)))))"
  using badSubject_join xid_not_bad prefixes_not_bad
  by (cases n) (auto simp: Let_def)

lemma hub_request_not_bad:
  "\<not> badSubject (GetLinkID n) \<Longrightarrow> \<not> badSubject (fst (ProxyHandlerSubjects n))"
  using badSubject_join prefixes_not_bad by (simp add: hub_request_shape)

text \<open>
  On a healthy connection a request goes out exactly when the link id is a proper subject: not
  empty, no blanks, no empty part.
\<close>

lemma Proxy_send_steps:
  fixes env t n ctr
  defines "rs \<equiv> response_subjects n (xid_string (fst (xid_new env t ctr)))"
  shows "SubscribeSync (fst rs) nc = (Inl err, nc1) \<Longrightarrow>
      Proxy_send env t n data nc ctr = (Inl err, nc1, ctr + 1)"
    "SubscribeSync (fst rs) nc = (Inr sub, nc1) \<Longrightarrow>
     fst (PublishRequest (fst (ProxyHandlerSubjects n)) (snd rs) data nc1) = None \<Longrightarrow>
      \<exists>nc2. Proxy_send env t n data nc ctr = (Inr sub, nc2, ctr + 1)"
  by (cases "response_subjects n (xid_string (fst (xid_new env t ctr)))";
      cases "ProxyHandlerSubjects n";
      auto simp: rs_def Proxy_send_def ProxyResponseSubjects_eq split: prod.splits)+

lemma Proxy_send_bad:
  assumes "badSubject (GetLinkID n)"
  shows "Proxy_send env t n data nc ctr = (Inl ErrBadSubject, nc\<lparr>ops := Suc (ops nc)\<rparr>, ctr + 1)"
  by (rule Proxy_send_steps(1)) (use assms hub_response_bad in \<open>simp add: SubscribeSync_def subscribe_def\<close>)

lemma Proxy_send_healthy:
  assumes "healthy M nc" "length data \<le> M"
  shows "(\<exists>sub. fst (Proxy_send env t n data nc ctr) = Inr sub) \<longleftrightarrow> \<not> badSubject (GetLinkID n)"
    "badSubject (GetLinkID n) \<Longrightarrow> fst (Proxy_send env t n data nc ctr) = Inl ErrBadSubject"
proof -
  let ?u = "xid_string (fst (xid_new env t ctr))"
  have h: "\<And>i. \<not> closed (status_at nc i) \<and> \<not> draining (status_at nc i) \<and>
      headers_supported (status_at nc i) \<and>
      (connecting (status_at nc i) \<or> int M \<le> max_payload (status_at nc i)) \<and>
      \<not> buffer_full (status_at nc i) \<and> append_error (status_at nc i) = None"
    using assms(1) by (auto simp: healthy_def Let_def)
  have bad: "fst (Proxy_send env t n data nc ctr) = Inl ErrBadSubject" if "badSubject (GetLinkID n)"
    using Proxy_send_bad [OF that] by simp
  have good: "\<exists>sub. fst (Proxy_send env t n data nc ctr) = Inr sub" if g: "\<not> badSubject (GetLinkID n)"
  proof -
    have v: "\<not> badSubject (fst (response_subjects n ?u))"
      "validateSubject (fst (ProxyHandlerSubjects n))"
      "validateSubject (snd (response_subjects n ?u))"
      using g hub_response_bad hub_request_not_bad edge_response_not_bad not_bad_valid by auto
    let ?sub = "\<lparr>S_Subject = fst (response_subjects n ?u), S_Queue = [], S_Kind = SyncSubscription\<rparr>"
    let ?nc1 = "nc\<lparr>ops := Suc (ops nc), subs := subs nc @ [?sub]\<rparr>"
    have sub: "SubscribeSync (fst (response_subjects n ?u)) nc = (Inr ?sub, ?nc1)"
      using v(1) h by (simp add: SubscribeSync_def subscribe_def Let_def)
    have "publish_check (status_at ?nc1 (ops ?nc1)) (fst (ProxyHandlerSubjects n))
        (snd (response_subjects n ?u)) True [] data = None"
      using v h [of "Suc (ops nc)"] assms(2) by (auto simp: publish_check_def)
    then have pub: "fst (PublishRequest (fst (ProxyHandlerSubjects n))
        (snd (response_subjects n ?u)) data ?nc1) = None"
      by (simp add: PublishRequest_def publish_None_iff)
    show ?thesis using Proxy_send_steps(2) [OF sub pub] by auto
  qed
  show "(\<exists>sub. fst (Proxy_send env t n data nc ctr) = Inr sub) \<longleftrightarrow> \<not> badSubject (GetLinkID n)"
    using bad good by (metis sum.distinct(1))
  show "badSubject (GetLinkID n) \<Longrightarrow> fst (Proxy_send env t n data nc ctr) = Inl ErrBadSubject"
    by (rule bad)
qed

lemma Proxy_send_status:
  "Proxy_send env t n data nc ctr = (r, nc', ctr') \<Longrightarrow> status_at nc' = status_at nc"
  by (auto simp: Proxy_send_def ProxyResponseSubjects_eq SubscribeSync_def PublishRequest_def
      dest!: subscribe_result split: prod.splits sum.splits option.splits)
    (metis publish_frame(1) snd_conv)+

lemma publish_oversize:
  assumes "validateSubject subj" "validateSubject reply" "\<not> closed (status_at nc (ops nc))"
    "\<not> draining (status_at nc (ops nc))" "\<not> connecting (status_at nc (ops nc))"
    "max_payload (status_at nc (ops nc)) < int (length data)"
  shows "fst (PublishRequest subj reply data nc) = Some ErrMaxPayload"
  using assms by (simp add: PublishRequest_def publish_def publish_check_def Let_def)

section \<open>Properties\<close>

text \<open>C23: What a client publishes is its request. Although the slice of the serialised request
  aliases the pooled buffer that the record is encoded into after a reset, the payload decodes to
  the record of exactly this request: the request's bytes, the transport's TLS options and
  compression setting, and the timeout left for the edge, whatever the buffer held before.\<close>

theorem payload_decodes:
  assumes "HR_write_error r = None"
    and "R_ok (request_record rt r (transport_timeout rt (HR_deadline r) now))"
  shows "\<exists>data. fst (RoundTrip_payload rt r now b) =
      Inr (data, transport_timeout rt (HR_deadline r) now) \<and>
    R_unmarshal data = Some (request_record rt r (transport_timeout rt (HR_deadline r) now))"
  using payload_ok [OF assms(1), of rt now b] R_codec.dec_enc [OF assms(2)]
  by (simp add: Let_def)

theorem payload_decodes_witness:
  "\<exists>data. fst (RoundTrip_payload
      \<lparr>Conn = None, Names = CrossAccountNames ''l'', NT_Timeout = 5, NT_DisableCompression = True,
        NT_TLS = Some \<lparr>P_Insecure = True, P_ServerName = ''s'', P_CAData = [], P_CertData = [],
          P_KeyData = [], P_NextProtos = [''h2'']\<rparr>\<rparr>
      \<lparr>HR_wire = ''GET /'', HR_write_error = None, HR_deadline = Some 7\<rparr> 4
      \<lparr>storage = ''garbage'', used = 3\<rparr>) = Inr (data, 3) \<and>
    R_unmarshal data = Some \<lparr>R_Request = ''GET /'', R_TLS = Some \<lparr>P_Insecure = True,
      P_ServerName = ''s'', P_CAData = [], P_CertData = [], P_KeyData = [],
      P_NextProtos = [''h2'']\<rparr>, R_Timeout = 0, R_DisableCompression = True\<rparr>"
proof -
  let ?rt = "\<lparr>Conn = None, Names = CrossAccountNames ''l'', NT_Timeout = 5,
    NT_DisableCompression = True, NT_TLS = Some \<lparr>P_Insecure = True, P_ServerName = ''s'',
    P_CAData = [], P_CertData = [], P_KeyData = [], P_NextProtos = [''h2'']\<rparr>\<rparr>"
  let ?r = "\<lparr>HR_wire = ''GET /'', HR_write_error = None, HR_deadline = Some 7\<rparr>"
  have t: "transport_timeout ?rt (HR_deadline ?r) 4 = 3"
    by (simp add: transport_timeout_def dur_min_def time_sub_def)
  have e: "edge_timeout 3 = 0" by (simp add: edge_timeout_def dur_max_def millisecond_def)
  have ok: "R_ok (request_record ?rt ?r (transport_timeout ?rt (HR_deadline ?r) 4))"
    by (simp add: R_ok_def request_record_def persistable_ok_def ascii_def)
  have w: "HR_write_error ?r = None" by simp
  show ?thesis
    using payload_decodes [OF w ok, of "\<lparr>storage = ''garbage'', used = 3\<rparr>"] t
    by (simp add: request_record_def e)
qed

text \<open>C24: The timeout of a request is always positive, so the subscription never waits for zero
  time. It is the transport's timeout capped by the time left to the context's deadline when that
  is positive, and 30 s otherwise: in particular an expired deadline and a deadline on a transport
  without a timeout both give 30 s. The edge is sent half a second less, never a negative time
  and without wrapping around.\<close>

theorem request_timeouts:
  "0 < sint (transport_timeout rt deadline now) \<and>
   (deadline = None \<longrightarrow> transport_timeout rt deadline now =
      (if 0 < sint (NT_Timeout rt) then NT_Timeout rt else defaultTimeout)) \<and>
   (\<forall>d. deadline = Some d \<and> (d \<le> now \<or> sint (NT_Timeout rt) \<le> 0) \<longrightarrow>
      transport_timeout rt deadline now = defaultTimeout) \<and>
   (\<forall>d. deadline = Some d \<and> now < d \<and> 0 < sint (NT_Timeout rt) \<longrightarrow>
      sint (transport_timeout rt deadline now) =
      min (sint (NT_Timeout rt)) (min (d - now) (2 ^ 63 - 1))) \<and>
   sint (edge_timeout (transport_timeout rt deadline now)) =
     max 0 (sint (transport_timeout rt deadline now) - 500000000)"
proof (intro conjI)
  show "0 < sint (transport_timeout rt deadline now)" by (rule transport_timeout_pos)
  show "sint (edge_timeout (transport_timeout rt deadline now)) =
     max 0 (sint (transport_timeout rt deadline now) - 500000000)"
    by (rule sint_edge_timeout [OF transport_timeout_pos])
  show "deadline = None \<longrightarrow> transport_timeout rt deadline now =
      (if 0 < sint (NT_Timeout rt) then NT_Timeout rt else defaultTimeout)"
    by (simp add: transport_timeout_def)
  show "\<forall>d. deadline = Some d \<and> (d \<le> now \<or> sint (NT_Timeout rt) \<le> 0) \<longrightarrow>
      transport_timeout rt deadline now = defaultTimeout"
    by (auto simp: transport_timeout_def Let_def dur_min_def sint_time_sub)
  show "\<forall>d. deadline = Some d \<and> now < d \<and> 0 < sint (NT_Timeout rt) \<longrightarrow>
      sint (transport_timeout rt deadline now) =
      min (sint (NT_Timeout rt)) (min (d - now) (2 ^ 63 - 1))"
    using sint_less [of "NT_Timeout rt"]
    by (auto simp: transport_timeout_def Let_def dur_min_def sint_time_sub)
qed

theorem request_timeouts_witness:
  "0 < sint (transport_timeout \<lparr>Conn = None, Names = SameAccountNames [], NT_Timeout = 0,
     NT_DisableCompression = False, NT_TLS = None\<rparr> (Some 9) 4)"
  using request_timeouts [of "\<lparr>Conn = None, Names = SameAccountNames [], NT_Timeout = 0,
     NT_DisableCompression = False, NT_TLS = None\<rparr>" "Some 9" 4] by blast

text \<open>The pump closes the pipe without an error only on a message marked Done with an empty
  value. When it does, every earlier message was unmarked, no error of the subscription
  other than its timeout came before, and the reader got the data of all the messages up to and
  with the marked one, in order and nothing else.\<close>

theorem pump_end_marked:
  assumes "pump evs p = Ended q" "P_closed q = Some io_EOF" "P_gone p = None"
    "SubError io_EOF \<notin> set evs"
  shows "\<exists>evs1 m vs evs2. evs = evs1 @ Arrived m # evs2 \<and> done_value m = Some ([] # vs) \<and>
    error_free evs1 \<and> (\<forall>m'. Arrived m' \<in> set evs1 \<longrightarrow> done_value m' = None) \<and>
    P_taken q = P_taken p @ concat (map event_data evs1) @ M_Data m"
  by (rule pump_clean_end [OF assms])

theorem pump_end_marked_witness:
  "\<exists>evs1 m vs evs2. [Quiet, Arrived \<lparr>M_Reply = [], M_Header = [], M_Data = ''a''\<rparr>,
      Arrived \<lparr>M_Reply = [], M_Header = [(HeaderKeyDone, [[]])], M_Data = ''b''\<rparr>] =
      evs1 @ Arrived m # evs2 \<and> done_value m = Some ([] # vs) \<and>
    error_free evs1 \<and> (\<forall>m'. Arrived m' \<in> set evs1 \<longrightarrow> done_value m' = None) \<and>
    ''ab'' = P_taken new_pipe @ concat (map event_data evs1) @ M_Data m"
proof -
  let ?q = "close_pipe None (new_pipe\<lparr>P_taken := ''ab''\<rparr>)"
  have "pump [Quiet, Arrived \<lparr>M_Reply = [], M_Header = [], M_Data = ''a''\<rparr>,
      Arrived \<lparr>M_Reply = [], M_Header = [(HeaderKeyDone, [[]])], M_Data = ''b''\<rparr>] new_pipe = Ended ?q"
    by (simp add: pipe_write_def new_pipe_def)
  from pump_end_marked [OF this] show ?thesis by (simp add: close_pipe_def new_pipe_def)
qed

text \<open>C38: A request that no one answers is never given up. Timeouts of the subscription are
  ignored, so however often they occur the pump keeps waiting, the pipe stays open and empty and
  the subscription stays in place. A no-responders message, without data and with the status 503,
  does end it after any number of timeouts: the pipe is closed with the no-responders error before
  anything was read, and the subscription is given up.\<close>

theorem silence_never_ends:
  assumes "set evs \<subseteq> {Quiet}"
  shows "Proxy_receive sub evs nc = (Waiting new_pipe, nc) \<and>
    (M_Data m = [] \<and> header_get ''Status'' (M_Header m) = ''503'' \<longrightarrow>
      Proxy_receive sub (evs @ [Arrived m]) nc =
        (Ended (close_pipe (Some ErrNoResponders) new_pipe), snd (Unsubscribe sub nc)))"
proof -
  have quiet: "filter (\<lambda>ev. ev \<noteq> Quiet) evs = []" using assms by (auto simp: filter_empty_conv)
  then have "pump evs new_pipe = Waiting new_pipe"
    using pump_ignores_quiet [of evs new_pipe] by (metis pump.simps(1))
  moreover have "pump (evs @ [Arrived m]) new_pipe = pump [Arrived m] new_pipe"
    using pump_ignores_quiet [of "evs @ [Arrived m]" new_pipe] quiet by simp
  ultimately show ?thesis
    by (simp add: Proxy_receive_def ErrNoResponders_def ErrTimeout_def)
qed

text \<open>The message the server sends when no one is subscribed.\<close>

definition no_responders :: "string \<Rightarrow> wire_msg" where
  "no_responders subj = \<lparr>W_Subject = subj, W_Reply = [], W_Header = ''NATS/1.0 503'' @ crlf @ crlf, W_Data = []\<rparr>"

lemma no_responders_status:
  "M_Data (deliver (no_responders s)) = []" "header_get ''Status'' (M_Header (deliver (no_responders s))) = ''503''"
  by (simp add: deliver_def no_responders_def) code_simp

theorem silence_never_ends_witness:
  "Proxy_receive \<lparr>S_Subject = ''s'', S_Queue = [], S_Kind = SyncSubscription\<rparr>
     (replicate 1000 Quiet) (live_conn 0) = (Waiting new_pipe, live_conn 0) \<and>
   fst (Proxy_receive \<lparr>S_Subject = ''s'', S_Queue = [], S_Kind = SyncSubscription\<rparr>
     (replicate 1000 Quiet @ [Arrived (deliver (no_responders ''s''))]) (live_conn 0)) =
     Ended (close_pipe (Some ErrNoResponders) new_pipe)"
  using silence_never_ends [of "replicate 1000 Quiet"] no_responders_status by simp

text \<open>C8: On a healthy connection a request that is no longer than the payload limit goes out exactly
  when its link id is a proper subject part: not empty, without blanks and without empty parts. It
  is refused with the bad-subject error otherwise. When it goes out, the subscription waits on the
  hub side of the response subject of a new identifier, which differs from the response subjects,
  on either side, of the \<open>2 ^ 24 - 1\<close> identifiers that follow it; and one message, which asks for
  replies on the edge side of the same subject, is published on the link's handler subject.\<close>

theorem request_sent_iff:
  assumes "healthy M nc" "length data \<le> M"
  shows "case Proxy_send env t n data nc ctr of
      (Inl e, nc', ctr') \<Rightarrow> badSubject (GetLinkID n) \<and> e = ErrBadSubject \<and> outbox nc' = outbox nc \<and>
        ctr' = ctr + 1
    | (Inr sub, nc', ctr') \<Rightarrow> \<not> badSubject (GetLinkID n) \<and> subs nc' = subs nc @ [sub] \<and> ctr' = ctr + 1 \<and>
        (let token = \<lambda>t k. xid_string (fst (xid_new env t (ctr + of_nat k)));
             rs = response_subjects n (token t 0)
         in S_Subject sub = fst rs \<and>
            outbox nc' = outbox nc @ [\<lparr>W_Subject = handler_prefix @ ''.'' @ GetLinkID n,
              W_Reply = snd rs, W_Header = [], W_Data = data\<rparr>] \<and>
            (\<forall>t' k n'. 0 < k \<and> k < 2 ^ 24 \<longrightarrow> fst (response_subjects n' (token t' k)) \<noteq> fst rs \<and>
              snd (response_subjects n' (token t' k)) \<noteq> snd rs))"
proof (cases "Proxy_send env t n data nc ctr")
  case (fields r nc' ctr')
  show ?thesis
  proof (cases r)
    case (Inl e)
    with fields have s: "Proxy_send env t n data nc ctr = (Inl e, nc', ctr')" by simp
    then have "badSubject (GetLinkID n)" "e = ErrBadSubject"
      using Proxy_send_healthy [OF assms, where env = env and t = t and n = n and ctr = ctr] by auto
    then show ?thesis unfolding s using Proxy_send_error [OF s] by simp
  next
    case (Inr sub)
    with fields have s: "Proxy_send env t n data nc ctr = (Inr sub, nc', ctr')" by simp
    then have "\<not> badSubject (GetLinkID n)"
      using Proxy_send_healthy(1) [OF assms, where env = env and t = t and n = n and ctr = ctr] by auto
    moreover have "fst (response_subjects n' (xid_string (fst (xid_new env t' (ctr + of_nat k))))) \<noteq>
          fst (response_subjects n (xid_string (fst (xid_new env t ctr)))) \<and>
        snd (response_subjects n' (xid_string (fst (xid_new env t' (ctr + of_nat k))))) \<noteq>
          snd (response_subjects n (xid_string (fst (xid_new env t ctr))))"
      if "0 < k" "k < 2 ^ 24" for t' k n'
      using link_names.response_routing xid_string_distinct [of k 0 env t' ctr t] that by simp
    ultimately show ?thesis
      unfolding s using Proxy_send_ok [OF s] by (simp add: hub_request_shape)
  qed
qed

theorem request_sent_iff_witness:
  "\<exists>sub nc'. Proxy_send \<lparr>machineID = (1, 2, 3), pid = 4\<rparr> 0 (CrossAccountNames ''l'') ''d'' (live_conn 9) 0 =
      (Inr sub, nc', 1) \<and>
    S_Subject sub = fst (response_subjects (CrossAccountNames ''l'')
      (xid_string (fst (xid_new \<lparr>machineID = (1, 2, 3), pid = 4\<rparr> 0 0)))) \<and>
    length (outbox nc') = 1"
proof -
  let ?env = "\<lparr>machineID = (1, 2, 3), pid = 4\<rparr>" and ?n = "CrossAccountNames ''l''"
  have good: "\<not> badSubject (GetLinkID ?n)" by (simp add: badSubject_def nats_space_def)
  have h: "healthy 9 (live_conn 9)" by (rule healthy_live_conn) simp
  have d: "length ''d'' \<le> 9" by simp
  obtain r nc' ctr' where p: "Proxy_send ?env 0 ?n ''d'' (live_conn 9) 0 = (r, nc', ctr')"
    by (metis prod.exhaust)
  have o: "outbox (live_conn 9) = []" by (simp add: live_conn_def)
  show ?thesis
    using request_sent_iff [OF h d, where t = 0 and ctr = 0 and env = ?env and n = ?n] good
    unfolding p by (cases r) (simp_all add: Let_def o)
qed

text \<open>C39: A request that is too large for the server is refused, and the subscription that was made
  for its response stays on the connection: nothing gives it up.\<close>

theorem refused_request_keeps_subscription:
  assumes "\<not> badSubject (GetLinkID n)" "max_payload (status_at nc (Suc (ops nc))) < int (length data)"
    and "\<forall>i. \<not> closed (status_at nc i) \<and> \<not> draining (status_at nc i) \<and>
      \<not> connecting (status_at nc i)"
  shows "\<exists>sub nc' ctr'. Proxy_send env t n data nc ctr = (Inl ErrMaxPayload, nc', ctr') \<and>
    subs nc' = subs nc @ [sub] \<and> outbox nc' = outbox nc"
proof -
  let ?rs = "response_subjects n (xid_string (fst (xid_new env t ctr)))"
  let ?sub = "\<lparr>S_Subject = fst ?rs, S_Queue = [], S_Kind = SyncSubscription\<rparr>"
  let ?nc1 = "nc\<lparr>ops := Suc (ops nc), subs := subs nc @ [?sub]\<rparr>"
  have sub: "SubscribeSync (fst ?rs) nc = (Inr ?sub, ?nc1)"
    using assms hub_response_bad by (simp add: SubscribeSync_def subscribe_def Let_def)
  have "fst (PublishRequest (fst (ProxyHandlerSubjects n)) (snd ?rs) data ?nc1) = Some ErrMaxPayload"
    using assms hub_request_not_bad edge_response_not_bad
    by (intro publish_oversize) (auto intro: not_bad_valid)
  then obtain nc2 where pub: "PublishRequest (fst (ProxyHandlerSubjects n)) (snd ?rs) data ?nc1 =
      (Some ErrMaxPayload, nc2)" by (metis prod.collapse)
  have s: "Proxy_send env t n data nc ctr = (Inl ErrMaxPayload, nc2, ctr + 1)"
    using sub pub
    by (cases "?rs"; cases "ProxyHandlerSubjects n")
      (simp add: Proxy_send_def ProxyResponseSubjects_eq)
  have "subs nc2 = subs nc @ [?sub]"
    using publish_frame(3) [of "fst (ProxyHandlerSubjects n)" "snd ?rs" True "[]" data ?nc1] pub
    by (simp add: PublishRequest_def)
  then show ?thesis using s Proxy_send_error [OF s] by blast
qed

theorem refused_request_keeps_subscription_witness:
  "\<exists>sub nc' ctr'. Proxy_send \<lparr>machineID = (1, 2, 3), pid = 4\<rparr> 0 (CrossAccountNames ''l'') ''data''
      (live_conn 2) 0 = (Inl ErrMaxPayload, nc', ctr') \<and>
    subs nc' = subs (live_conn 2) @ [sub] \<and> outbox nc' = outbox (live_conn 2)"
  by (rule refused_request_keeps_subscription)
    (simp_all add: live_conn_def badSubject_def nats_space_def)

end
