(* ===== verification/Agent.thy ===== *)
theory Agent
  imports NatsTransport
begin

text \<open>
  The edge side (\<open>pkg/cmds/run.go\<close>): how a request message is carried out (\<open>respond\<close>), how a
  failure becomes a Kubernetes status response, the subscription of \<open>addSubscribers\<close> with its
  queue name, the link callback, and the start-up sequence of the command.

  Parsing an HTTP request, carrying it out against the API server, and the writing of the API
  server's own response are the work of \<open>net/http\<close> on bytes of the network; they are arguments,
  collected in \<open>edge_env\<close>.
\<close>

section \<open>Carrying out a request\<close>

text \<open>The parts of an HTTP request the code reads or changes; the rest of it is \<open>SR_Rest\<close>.\<close>

record server_request =
  SR_Method :: string
  SR_Proto :: string
  SR_ProtoMajor :: nat
  SR_ProtoMinor :: nat
  SR_TransferEncoding :: "string list"
  SR_RequestURI :: string
  SR_Rest :: bytes

datatype proxy_func = ProxyFromEnvironment | ProxyWithNoProxyCIDR

record http_transport =
  HT_Proxy :: proxy_func
  HT_TLSHandshakeTimeout :: duration
  HT_TLSClientConfig :: "tls_Config option"
  HT_MaxIdleConnsPerHost :: nat
  HT_DialTimeout :: duration
  HT_DialKeepAlive :: duration
  HT_DisableCompression :: bool
  HT_IdleConnTimeout :: duration
  HT_HTTP2 :: bool

datatype edge_transport = DefaultTransport | Transport_of http_transport

definition idleConnsPerHost :: nat where "idleConnsPerHost = 25"

text \<open>\<open>SetTransportDefaults\<close> (apimachinery); the idle timeout it copies is the default's 90 s.\<close>

definition allowsHTTP2 :: "http_transport \<Rightarrow> bool" where
  "allowsHTTP2 t \<longleftrightarrow>
     (case HT_TLSClientConfig t of
        None \<Rightarrow> True
      | Some c \<Rightarrow> length (T_NextProtos c) = 0 \<or> ''h2'' \<in> set (T_NextProtos c))"

definition SetOldTransportDefaults :: "http_transport \<Rightarrow> http_transport" where
  "SetOldTransportDefaults t =
     (let t1 = (if HT_Proxy t = ProxyFromEnvironment
                then t\<lparr>HT_Proxy := ProxyWithNoProxyCIDR\<rparr> else t);
          t2 = (if HT_TLSHandshakeTimeout t1 = 0
                then t1\<lparr>HT_TLSHandshakeTimeout := 10 * second\<rparr> else t1)
      in if HT_IdleConnTimeout t2 = 0 then t2\<lparr>HT_IdleConnTimeout := 90 * second\<rparr> else t2)"

definition SetTransportDefaults :: "bool \<Rightarrow> http_transport \<Rightarrow> http_transport" where
  "SetTransportDefaults disable_http2 t =
     (let t1 = SetOldTransportDefaults t
      in if disable_http2 then t1
         else if allowsHTTP2 t1 then t1\<lparr>HT_HTTP2 := True\<rparr> else t1)"

record http_client =
  HC_Transport :: edge_transport
  HC_Timeout :: duration

record 'resp edge_env =
  unmarshal_error :: "bytes \<Rightarrow> string"            \<comment> \<open>the decoder's error text\<close>
  ReadRequest :: "bytes \<Rightarrow> server_request result"
  edge_crypto :: crypto
  disable_http2 :: bool                              \<comment> \<open>\<open>DISABLE_HTTP2\<close> is set\<close>
  client_Do :: "http_client \<Rightarrow> server_request \<Rightarrow> 'resp result"
  resp_calls :: "'resp \<Rightarrow> wop list \<times> go_error option"   \<comment> \<open>what \<open>Response.Write\<close> calls\<close>

text \<open>
  \<open>respond\<close> returns what it got to know: the record, the request, and the response or the error.
  It does not return (\<open>None\<close>) only if building the TLS configuration does not.
\<close>

definition edge_timeout_of :: "R \<Rightarrow> duration" where
  "edge_timeout_of r = (if R_Timeout r = 0 then 30 * second else R_Timeout r)"

definition tls_transport :: "bool \<Rightarrow> R \<Rightarrow> tls_Config option \<Rightarrow> edge_transport" where
  "tls_transport no_http2 r tlsconfig =
     Transport_of (SetTransportDefaults no_http2
       \<lparr>HT_Proxy = ProxyFromEnvironment, HT_TLSHandshakeTimeout = 10 * second,
        HT_TLSClientConfig = tlsconfig, HT_MaxIdleConnsPerHost = idleConnsPerHost,
        HT_DialTimeout = 30 * second, HT_DialKeepAlive = 30 * second,
        HT_DisableCompression = R_DisableCompression r, HT_IdleConnTimeout = 0,
        HT_HTTP2 = False\<rparr>)"

definition send_request :: "'resp edge_env \<Rightarrow> R \<Rightarrow> server_request \<Rightarrow> edge_transport \<Rightarrow> 'resp result" where
  "send_request env r req rt =
     client_Do env \<lparr>HC_Transport = rt, HC_Timeout = edge_timeout_of r\<rparr>
       (req\<lparr>SR_RequestURI := []\<rparr>)"

definition respond ::
    "'resp edge_env \<Rightarrow> bytes \<Rightarrow> (R option \<times> server_request option \<times> 'resp result) option" where
  "respond env inp =
     (case R_unmarshal inp of
        None \<Rightarrow> Some (None, None, Inl (ErrNew (unmarshal_error env inp)))
      | Some r \<Rightarrow>
          (case ReadRequest env (R_Request r) of
             Inl err \<Rightarrow> Some (Some r, None, Inl err)
           | Inr req \<Rightarrow>
               (case R_TLS r of
                  None \<Rightarrow>
                    Some (Some r, Some (req\<lparr>SR_RequestURI := []\<rparr>),
                      send_request env r req DefaultTransport)
                | Some p \<Rightarrow>
                    (case TLSConfigFor (edge_crypto env) p of
                       None \<Rightarrow> None
                     | Some (Inl err) \<Rightarrow> Some (Some r, Some req, Inl err)
                     | Some (Inr tlsconfig) \<Rightarrow>
                         Some (Some r, Some (req\<lparr>SR_RequestURI := []\<rparr>),
                           send_request env r req (tls_transport (disable_http2 env) r tlsconfig))))))"

section \<open>Failures as responses\<close>

text \<open>
  \<open>ErrorToAPIStatus\<close>: no error \<open>respond\<close> returns carries a status of its own or is a storage
  conflict, so it is the default branch, with code 500 and the error's text.
\<close>

record api_status =
  AS_Kind :: string
  AS_APIVersion :: string
  AS_Status :: string
  AS_Message :: string
  AS_Reason :: string
  AS_Code :: int

definition ErrorToAPIStatus :: "go_error \<Rightarrow> api_status" where
  "ErrorToAPIStatus err = \<lparr>AS_Kind = ''Status'', AS_APIVersion = ''v1'', AS_Status = ''Failure'',
     AS_Message = err_text err, AS_Reason = [], AS_Code = 500\<rparr>"

definition api_status_json :: "api_status \<Rightarrow> json" where
  "api_status_json s = JObj (
     omit_empty (AS_Kind s \<noteq> []) ''kind'' (JStr (AS_Kind s)) @
     omit_empty (AS_APIVersion s \<noteq> []) ''apiVersion'' (JStr (AS_APIVersion s)) @
     [(''metadata'', JObj [])] @
     omit_empty (AS_Status s \<noteq> []) ''status'' (JStr (AS_Status s)) @
     omit_empty (AS_Message s \<noteq> []) ''message'' (JStr (AS_Message s)) @
     omit_empty (AS_Reason s \<noteq> []) ''reason'' (JStr (AS_Reason s)) @
     omit_empty (AS_Code s \<noteq> 0) ''code'' (JNum (int_text (AS_Code s))))"

record error_response =
  ER_StatusCode :: int
  ER_ProtoMajor :: nat
  ER_ProtoMinor :: nat
  ER_Body :: bytes
  ER_Close :: bool
  ER_TransferEncoding :: "string list"
  ER_Method :: string          \<comment> \<open>of the request it answers, empty if there is none\<close>
  ER_Uncompressed :: bool

definition make_error_response ::
    "go_error \<Rightarrow> R option \<Rightarrow> server_request option \<Rightarrow> error_response" where
  "make_error_response err r2 req =
     (let status = ErrorToAPIStatus err;
          resp = \<lparr>ER_StatusCode = AS_Code status, ER_ProtoMajor = 0, ER_ProtoMinor = 0,
            ER_Body = json_text (api_status_json status), ER_Close = True,
            ER_TransferEncoding = [], ER_Method = [], ER_Uncompressed = False\<rparr>;
          resp1 = (case req of None \<Rightarrow> resp
            | Some q \<Rightarrow> resp\<lparr>ER_ProtoMajor := SR_ProtoMajor q, ER_ProtoMinor := SR_ProtoMinor q,
                ER_TransferEncoding := SR_TransferEncoding q, ER_Method := SR_Method q\<rparr>)
      in (case r2 of None \<Rightarrow> resp1
          | Some r \<Rightarrow> resp1\<lparr>ER_Uncompressed := R_DisableCompression r\<rparr>))"

text \<open>
  What \<open>http.Response.Write\<close> does with such a response: its body is in memory, not empty, and of
  known length; without a response header of its own there are only the lines of the transfer.
\<close>

fun nat_hex :: "nat \<Rightarrow> string" where
  "nat_hex n = (if n < 16 then [hex_digit n] else nat_hex (n div 16) @ [hex_digit (n mod 16)])"

declare nat_hex.simps [simp del]

definition pad3 :: "string \<Rightarrow> string" where
  "pad3 s = replicate (3 - length s) (CHR ''0'') @ s"

definition status_line :: "error_response \<Rightarrow> string" where
  "status_line r = ''HTTP/'' @ nat_text (ER_ProtoMajor r) @ ''.'' @ nat_text (ER_ProtoMinor r) @
     '' '' @ pad3 (int_text (ER_StatusCode r)) @ '' Internal Server Error'' @ crlf"

definition at_least_11 :: "error_response \<Rightarrow> bool" where
  "at_least_11 r \<longleftrightarrow> ER_ProtoMajor r > 1 \<or> ER_ProtoMajor r = 1 \<and> ER_ProtoMinor r \<ge> 1"

definition sends_chunked :: "error_response \<Rightarrow> bool" where
  "sends_chunked r \<longleftrightarrow> (case ER_TransferEncoding r of [] \<Rightarrow> False | t # _ \<Rightarrow> t = ''chunked'') \<and>
     (ER_Method r = ''HEAD'' \<or> at_least_11 r)"

definition error_calls :: "error_response \<Rightarrow> wop list" where
  "error_calls r =
     [WriteOp (status_line r)] @
     (if ER_Close r then [WriteStringOp (''Connection: close'' @ crlf)] else []) @
     (if sends_chunked r then [WriteStringOp (''Transfer-Encoding: chunked'' @ crlf)]
      else [WriteStringOp ''Content-Length: '', WriteStringOp (nat_text (length (ER_Body r)) @ crlf)]) @
     [WriteStringOp crlf] @
     (if ER_Method r = ''HEAD'' then []
      else if sends_chunked r then
        [WriteOp (nat_hex (length (ER_Body r)) @ crlf), WriteOp (ER_Body r), WriteStringOp crlf,
         WriteStringOp (''0'' @ crlf), WriteStringOp crlf]
      else [ReadFromOp [(ER_Body r, None)]])"

section \<open>Subscribing\<close>

text \<open>The environment the queue name is made from (kmodules client-go, meta/incluster.go).\<close>

record pod_env =
  getenv :: "string \<Rightarrow> string"
  pod_hostname :: string
  token_is_file :: bool          \<comment> \<open>the service account token exists and is no directory\<close>
  namespace_file :: "string option"   \<comment> \<open>the service account's namespace, when readable\<close>

definition PossiblyInCluster :: "pod_env \<Rightarrow> bool" where
  "PossiblyInCluster env \<longleftrightarrow> getenv env ''KUBERNETES_SERVICE_HOST'' \<noteq> [] \<and>
     getenv env ''KUBERNETES_SERVICE_PORT'' \<noteq> [] \<and> token_is_file env"

definition PodName :: "pod_env \<Rightarrow> string" where
  "PodName env = (if getenv env ''POD_NAME'' \<noteq> [] then getenv env ''POD_NAME'' else pod_hostname env)"

definition PodNamespace :: "pod_env \<Rightarrow> string" where
  "PodNamespace env =
     (if getenv env ''POD_NAMESPACE'' \<noteq> [] then getenv env ''POD_NAMESPACE''
      else case namespace_file env of
        Some d \<Rightarrow> if length (trim_space d) > 0 then trim_space d else ''default''
      | None \<Rightarrow> ''default'')"

definition subscriber_queue :: "pod_env \<Rightarrow> string" where
  "subscriber_queue env =
     (if PossiblyInCluster env then
        (let ctrlName = PodName env;
             idx = last_index_byte ctrlName (CHR ''-'');
             ctrlName' = (if idx \<noteq> -1 then take (nat idx) ctrlName else ctrlName)
         in PodNamespace env @ ''.'' @ ctrlName')
      else ''cluster-connector'')"

definition addSubscribers :: "pod_env \<Rightarrow> names \<Rightarrow> nats_conn \<Rightarrow> go_error option \<times> nats_conn" where
  "addSubscribers env n nc =
     (let queue = subscriber_queue env;
          (_, edgeSub) = ProxyHandlerSubjects n
      in case QueueSubscribe edgeSub queue nc of
           (Inl err, nc') \<Rightarrow> (Some err, nc')
         | (Inr _, nc') \<Rightarrow> (None, nc'))"

text \<open>The subscription's callback, on one message.\<close>

definition message_calls :: "'resp edge_env \<Rightarrow> bytes \<Rightarrow> (wop list \<times> go_error option) option" where
  "message_calls env data =
     (case respond env data of
        None \<Rightarrow> None
      | Some (r2, req, Inr resp) \<Rightarrow> Some (resp_calls env resp)
      | Some (r2, req, Inl err) \<Rightarrow> Some (error_calls (make_error_response err r2 req), None))"

definition handle_message ::
    "'resp edge_env \<Rightarrow> natsWriter bufio \<Rightarrow> msg \<Rightarrow> nats_conn \<Rightarrow>
     (go_error list \<times> natsWriter bufio) option" where
  "handle_message env w0 m nc =
     (case message_calls env (M_Data m) of
        None \<Rightarrow> None
      | Some (calls, own) \<Rightarrow> write_response calls own w0 (M_Reply m) nc)"

section \<open>The link callback\<close>

record post_response =
  PR_StatusCode :: nat
  PR_Status :: string
  PR_Body :: "bytes result"

text \<open>A logger (\<open>logr.Logger\<close>) without a sink, its zero value, drops what it is given.\<close>

datatype logger = No_Sink | Sink

definition log_line :: "logger \<Rightarrow> string \<Rightarrow> string list" where
  "log_line l msg = (case l of No_Sink \<Rightarrow> [] | Sink \<Rightarrow> [msg])"

record callback =
  CB_baseURL :: string
  CB_req :: CallbackRequest
  CB_log :: logger

definition InjectLogger :: "logger \<Rightarrow> callback \<Rightarrow> go_error option \<times> callback" where
  "InjectLogger l cb = (None, cb\<lparr>CB_log := l\<rparr>)"

text \<open>
  \<open>callback.Start\<close> posts the link's data once. An address that does not parse is a panic, which
  is the error \<open>Inl\<close> of the endpoint. The last component is what it logs.
\<close>

datatype callback_result = Panic go_error | Returned "go_error option" "string list"

definition StatusOK :: nat where "StatusOK = 200"

definition callback_Start ::
    "(string \<Rightarrow> url result) \<Rightarrow> bool \<Rightarrow> (url \<Rightarrow> string \<Rightarrow> bytes \<Rightarrow> post_response result) \<Rightarrow>
     callback \<Rightarrow> callback_result" where
  "callback_Start parse skip_verification http_Post cb =
     (let data = CallbackRequest_marshal (CB_req cb)
      in case ConnectorCallbackEndpoint parse skip_verification (CB_baseURL cb) of
           Inl err \<Rightarrow> Panic err
         | Inr u \<Rightarrow>
             (case http_Post u ''application/json'' data of
                Inl err \<Rightarrow> Returned (Some err) []
              | Inr resp \<Rightarrow>
                  (case PR_Body resp of
                     Inl err \<Rightarrow> Returned (Some err) []
                   | Inr body \<Rightarrow>
                       if PR_StatusCode resp \<noteq> StatusOK then
                         Returned (Some (ErrNew (''callback failed with status code '' @ PR_Status resp)))
                           (log_line (CB_log cb) (''callback failed: '' @ body))
                       else Returned None (log_line (CB_log cb) ''link callback successful''))))"

section \<open>Starting up\<close>

record run_flags =
  baseURL :: string
  linkID :: string
  metricsAddr :: string
  natsAddr :: string
  numThreads :: int
  natsCredFile :: string
  probeAddr :: string

definition default_flags :: run_flags where
  "default_flags = \<lparr>baseURL = [], linkID = [], metricsAddr = '':8080'', natsAddr = [],
     numThreads = 5, natsCredFile = [], probeAddr = '':8081''\<rparr>"

text \<open>The controller manager and the cluster, by what their calls return.\<close>

record run_env =
  get_config :: "go_error option"
  new_manager :: "string \<Rightarrow> string \<Rightarrow> go_error option"
  cluster_uid :: "string result"
  new_connection :: "string \<Rightarrow> string \<Rightarrow> nats_conn result"
  run_pod :: pod_env
  add_healthz :: "go_error option"
  add_readyz :: "go_error option"
  add_runnable :: "callback \<Rightarrow> go_error option"
  start_manager :: "callback \<Rightarrow> go_error option"

text \<open>The phases of the start-up, in the order the command goes through them.\<close>

datatype phase =
  Flags | Kubeconfig | Manager | Cluster | Connect | Subscribe | Healthz | Readyz | AddCallback | Serve | Drained

fun phase_index :: "phase \<Rightarrow> nat" where
  "phase_index Flags = 0" | "phase_index Kubeconfig = 1" | "phase_index Manager = 2"
| "phase_index Cluster = 3" | "phase_index Connect = 4" | "phase_index Subscribe = 5"
| "phase_index Healthz = 6" | "phase_index Readyz = 7" | "phase_index AddCallback = 8"
| "phase_index Serve = 9" | "phase_index Drained = 10"

instantiation phase :: linorder
begin

definition less_eq_phase :: "phase \<Rightarrow> phase \<Rightarrow> bool" where
  "less_eq_phase p q \<longleftrightarrow> phase_index p \<le> phase_index q"

definition less_phase :: "phase \<Rightarrow> phase \<Rightarrow> bool" where
  "less_phase p q \<longleftrightarrow> phase_index p < phase_index q"

instance
proof
  fix p q :: phase
  show "p \<le> q \<Longrightarrow> q \<le> p \<Longrightarrow> p = q"
    by (cases p; cases q) (simp_all add: less_eq_phase_def)
qed (auto simp: less_eq_phase_def less_phase_def)

end

text \<open>
  A run ends in a phase with an exit code, 1 for every failure, or is drained after the manager
  has stopped (code 0 at the return). It has a connection from the phase after \<open>Connect\<close> on, the
  callback the manager runs once it was added, and in the end what \<open>Drain\<close> leaves of the
  connection, whose error is ignored.
\<close>

record run_end =
  RE_phase :: phase
  RE_code :: nat
  RE_log :: string
  RE_conn :: "nats_conn option"
  RE_callback :: "callback option"
  RE_left :: "nats_conn option"

fun subscribe_loop :: "nat \<Rightarrow> pod_env \<Rightarrow> names \<Rightarrow> nats_conn \<Rightarrow> go_error option \<times> nats_conn" where
  "subscribe_loop 0 env n nc = (None, nc)"
| "subscribe_loop (Suc k) env n nc =
     (case addSubscribers env n nc of
        (Some err, nc') \<Rightarrow> (Some err, nc')
      | (None, nc') \<Rightarrow> subscribe_loop k env n nc')"

definition fail_at :: "phase \<Rightarrow> string \<Rightarrow> nats_conn option \<Rightarrow> callback option \<Rightarrow> run_end" where
  "fail_at p l nc cb = \<lparr>RE_phase = p, RE_code = 1, RE_log = l, RE_conn = nc, RE_callback = cb, RE_left = None\<rparr>"

definition run_command :: "run_env \<Rightarrow> run_flags \<Rightarrow> run_end" where
  "run_command env f =
     (if natsAddr f = [] \<or> natsCredFile f = []
      then fail_at Flags ''set --nats-addr and --nats-credential-file flag'' None None
      else case get_config env of
        Some _ \<Rightarrow> fail_at Kubeconfig ''unable to get kubeconfig'' None None
      | None \<Rightarrow>
      case new_manager env (metricsAddr f) (probeAddr f) of
        Some _ \<Rightarrow> fail_at Manager ''unable to start manager'' None None
      | None \<Rightarrow>
      case cluster_uid env of
        Inl _ \<Rightarrow> fail_at Cluster ''failed to detect cluster id'' None None
      | Inr cid \<Rightarrow>
      case new_connection env (natsAddr f) (natsCredFile f) of
        Inl _ \<Rightarrow> fail_at Connect ''failed to connect to nats'' None None
      | Inr nc \<Rightarrow>
      case subscribe_loop (nat (numThreads f)) (run_pod env) (CrossAccountNames (linkID f)) nc of
        (Some _, nc1) \<Rightarrow>
          fail_at Subscribe ''failed to setup proxy handler subscribers'' (Some nc1) None
      | (None, nc1) \<Rightarrow>
      if add_healthz env \<noteq> None
      then fail_at Healthz ''unable to set up health check'' (Some nc1) None
      else if add_readyz env \<noteq> None
      then fail_at Readyz ''unable to set up ready check'' (Some nc1) None
      else
        let cb = \<lparr>CB_baseURL = baseURL f, CB_req = \<lparr>LinkID = linkID f, ClusterID = cid\<rparr>, CB_log = No_Sink\<rparr>
        in if add_runnable env cb \<noteq> None
           then fail_at AddCallback ''failed to add link callback'' (Some nc1) None
           else if start_manager env cb \<noteq> None
           then fail_at Serve ''problem running manager'' (Some nc1) (Some cb)
           else \<lparr>RE_phase = Drained, RE_code = 0, RE_log = ''starting manager'',
                 RE_conn = Some nc1, RE_callback = Some cb, RE_left = Some (snd (Drain nc1))\<rparr>)"

section \<open>Lemmas\<close>

lemma send_request_uses: "send_request env r req rt =
    client_Do env \<lparr>HC_Transport = rt, HC_Timeout = edge_timeout_of r\<rparr> (req\<lparr>SR_RequestURI := []\<rparr>)"
  by (simp add: send_request_def)

text \<open>Carrying out a request always returns, PEM decoding being what its documentation says.\<close>

lemma respond_total:
  assumes "pem_consumes (edge_crypto env)"
  shows "\<exists>x. respond env d = Some x"
proof (cases "R_unmarshal d")
  case (Some r)
  show ?thesis
  proof (cases "ReadRequest env (R_Request r)")
    case (Inr req)
    show ?thesis
    proof (cases "R_TLS r")
      case s: (Some p)
      obtain x where "TLSConfigFor (edge_crypto env) p = Some x"
        using TLSConfigFor_total [OF assms] by blast
      then show ?thesis using Some Inr s by (cases x) (simp_all add: respond_def)
    qed (simp add: respond_def Some Inr)
  qed (simp add: respond_def Some)
qed (simp add: respond_def)

lemma message_calls_total:
  "pem_consumes (edge_crypto env) \<Longrightarrow> \<exists>calls own. message_calls env d = Some (calls, own)"
  using respond_total [of env d]
  by (auto simp: message_calls_def split: prod.splits sum.splits)

lemma respond_encoded:
  assumes "R_ok r" "ReadRequest env (R_Request r) = Inr req"
  shows "respond env (R_encode r) =
     (case R_TLS r of
        None \<Rightarrow> Some (Some r, Some (req\<lparr>SR_RequestURI := []\<rparr>), send_request env r req DefaultTransport)
      | Some p \<Rightarrow>
          (case TLSConfigFor (edge_crypto env) p of
             None \<Rightarrow> None
           | Some (Inl err) \<Rightarrow> Some (Some r, Some req, Inl err)
           | Some (Inr tlsconfig) \<Rightarrow>
               Some (Some r, Some (req\<lparr>SR_RequestURI := []\<rparr>),
                 send_request env r req (tls_transport (disable_http2 env) r tlsconfig))))"
  using R_unmarshal_encode [OF assms(1)] assms(2) by (simp add: respond_def)

text \<open>The calls of an error response can all be made: no body read of theirs fails.\<close>

lemma error_calls_clean: "ER_Body r \<noteq> [] \<Longrightarrow> \<forall>x\<in>set (error_calls r). op_clean x"
  by (auto simp: error_calls_def)

lemma api_status_json_not_empty: "json_text (api_status_json s) \<noteq> []"
  by (simp add: api_status_json_def)

lemma error_body_not_empty: "ER_Body (make_error_response err r2 req) \<noteq> []"
  using api_status_json_not_empty
  by (auto simp: make_error_response_def Let_def split: option.splits)

lemma subscribe_loop_result:
  assumes "subscribe_loop k env n nc = (None, nc')"
  shows "subs nc' = subs nc @ replicate k \<lparr>S_Subject = snd (ProxyHandlerSubjects n),
      S_Queue = subscriber_queue env, S_Kind = AsyncSubscription\<rparr> \<and> outbox nc' = outbox nc"
  using assms
proof (induction k arbitrary: nc)
  case (Suc k)
  obtain h e where he: "ProxyHandlerSubjects n = (h, e)" by (metis prod.exhaust)
  obtain r nc1 where q: "QueueSubscribe e (subscriber_queue env) nc = (r, nc1)"
    by (metis prod.exhaust)
  note sr = subscribe_result [OF q [unfolded QueueSubscribe_def]]
  from Suc.prems q he obtain sub where "r = Inr sub" "subscribe_loop k env n nc1 = (None, nc')"
    by (auto simp: addSubscribers_def Let_def split: sum.splits)
  with Suc.IH sr he show ?case by simp
qed simp

lemma run_command_drained:
  assumes "RE_phase (run_command env f) = Drained"
  obtains cid nc nc1 where "natsAddr f \<noteq> []" "natsCredFile f \<noteq> []" "cluster_uid env = Inr cid"
    "new_connection env (natsAddr f) (natsCredFile f) = Inr nc"
    "subscribe_loop (nat (numThreads f)) (run_pod env) (CrossAccountNames (linkID f)) nc = (None, nc1)"
    "run_command env f = \<lparr>RE_phase = Drained, RE_code = 0, RE_log = ''starting manager'',
       RE_conn = Some nc1, RE_callback = Some \<lparr>CB_baseURL = baseURL f,
         CB_req = \<lparr>LinkID = linkID f, ClusterID = cid\<rparr>, CB_log = No_Sink\<rparr>,
       RE_left = Some (snd (Drain nc1))\<rparr>"
  using assms
  by (auto simp: run_command_def fail_at_def Let_def
      split: if_splits option.splits sum.splits prod.splits)

lemma tls_transport_fields:
  "\<exists>t. tls_transport no_http2 r c = Transport_of t \<and>
    HT_TLSClientConfig t = c \<and> HT_DisableCompression t = R_DisableCompression r \<and>
    HT_TLSHandshakeTimeout t = 10 * second \<and> HT_DialTimeout t = 30 * second \<and>
    HT_IdleConnTimeout t = 90 * second \<and> HT_MaxIdleConnsPerHost t = 25 \<and>
    HT_Proxy t = ProxyWithNoProxyCIDR \<and>
    (HT_HTTP2 t \<longleftrightarrow> \<not> no_http2 \<and> (\<forall>tc. c = Some tc \<longrightarrow>
      T_NextProtos tc = [] \<or> ''h2'' \<in> set (T_NextProtos tc)))"
proof -
  have "(10 * second :: duration) \<noteq> 0" by (simp add: second_def)
  then show ?thesis
    by (cases c) (auto simp: tls_transport_def SetTransportDefaults_def SetOldTransportDefaults_def
        allowsHTTP2_def idleConnsPerHost_def Let_def)
qed

lemma phase_less: "p < q \<longleftrightarrow> phase_index p < phase_index q"
  by (simp add: less_phase_def)

section \<open>Properties\<close>

text \<open>C25: The start-up ends with exit code 1 in exactly the phases before the end. The connection
  exists exactly from the phase after \<open>Connect\<close> on and the callback is added exactly when the
  manager was started. A run that gets to the end has made, on its connection, one queue
  subscription per handler thread on the edge's handler subject, all in the same queue, so that
  each request goes to one handler; it has given the manager a callback with the link id of
  the flags and the id of the cluster; and it drains the connection.\<close>

theorem startup_complete:
  "(RE_code (run_command env f) = 0 \<longleftrightarrow> RE_phase (run_command env f) = Drained) \<and>
   RE_code (run_command env f) \<le> 1 \<and>
   (RE_conn (run_command env f) \<noteq> None \<longleftrightarrow> Connect < RE_phase (run_command env f)) \<and>
   (RE_callback (run_command env f) \<noteq> None \<longleftrightarrow> AddCallback < RE_phase (run_command env f)) \<and>
   (RE_phase (run_command env f) = Drained \<longrightarrow>
     (\<exists>cid nc nc1. cluster_uid env = Inr cid \<and>
        new_connection env (natsAddr f) (natsCredFile f) = Inr nc \<and>
        RE_conn (run_command env f) = Some nc1 \<and> outbox nc1 = outbox nc \<and>
        subs nc1 = subs nc @ replicate (nat (numThreads f)) \<lparr>S_Subject = handler_prefix,
          S_Queue = subscriber_queue (run_pod env), S_Kind = AsyncSubscription\<rparr> \<and>
        RE_callback (run_command env f) = Some \<lparr>CB_baseURL = baseURL f,
          CB_req = \<lparr>LinkID = linkID f, ClusterID = cid\<rparr>, CB_log = No_Sink\<rparr> \<and>
        RE_left (run_command env f) = Some (snd (Drain nc1))))"
proof (intro conjI impI)
  show "RE_code (run_command env f) = 0 \<longleftrightarrow> RE_phase (run_command env f) = Drained"
    "RE_code (run_command env f) \<le> 1"
    "RE_conn (run_command env f) \<noteq> None \<longleftrightarrow> Connect < RE_phase (run_command env f)"
    "RE_callback (run_command env f) \<noteq> None \<longleftrightarrow> AddCallback < RE_phase (run_command env f)"
    by (auto simp: run_command_def fail_at_def Let_def phase_less
        split: if_splits option.splits sum.splits prod.splits)
next
  assume "RE_phase (run_command env f) = Drained"
  then obtain cid nc nc1 where r: "cluster_uid env = Inr cid"
    "new_connection env (natsAddr f) (natsCredFile f) = Inr nc"
    "subscribe_loop (nat (numThreads f)) (run_pod env) (CrossAccountNames (linkID f)) nc = (None, nc1)"
    "run_command env f = \<lparr>RE_phase = Drained, RE_code = 0, RE_log = ''starting manager'',
       RE_conn = Some nc1, RE_callback = Some \<lparr>CB_baseURL = baseURL f,
         CB_req = \<lparr>LinkID = linkID f, ClusterID = cid\<rparr>, CB_log = No_Sink\<rparr>,
       RE_left = Some (snd (Drain nc1))\<rparr>"
    by (rule run_command_drained)
  from subscribe_loop_result [OF r(3)] r show "\<exists>cid nc nc1. cluster_uid env = Inr cid \<and>
        new_connection env (natsAddr f) (natsCredFile f) = Inr nc \<and>
        RE_conn (run_command env f) = Some nc1 \<and> outbox nc1 = outbox nc \<and>
        subs nc1 = subs nc @ replicate (nat (numThreads f)) \<lparr>S_Subject = handler_prefix,
          S_Queue = subscriber_queue (run_pod env), S_Kind = AsyncSubscription\<rparr> \<and>
        RE_callback (run_command env f) = Some \<lparr>CB_baseURL = baseURL f,
          CB_req = \<lparr>LinkID = linkID f, ClusterID = cid\<rparr>, CB_log = No_Sink\<rparr> \<and>
        RE_left (run_command env f) = Some (snd (Drain nc1))" by simp
qed

definition sample_pod :: pod_env where
  "sample_pod = \<lparr>getenv = \<lambda>_. [], pod_hostname = ''h'', token_is_file = False,
     namespace_file = None\<rparr>"

definition sample_run :: run_env where
  "sample_run = \<lparr>get_config = None, new_manager = \<lambda>_ _. None, cluster_uid = Inr ''uid'',
     new_connection = \<lambda>_ _. Inr (live_conn 100), run_pod = sample_pod, add_healthz = None,
     add_readyz = None, add_runnable = \<lambda>_. None, start_manager = \<lambda>_. None\<rparr>"

theorem startup_complete_witness:
  "subs (the (RE_conn (run_command sample_run
      (default_flags\<lparr>natsAddr := ''nats://n'', natsCredFile := ''c'', numThreads := 2\<rparr>)))) =
    replicate 2 \<lparr>S_Subject = handler_prefix, S_Queue = ''cluster-connector'',
      S_Kind = AsyncSubscription\<rparr>"
proof -
  let ?f = "default_flags\<lparr>natsAddr := ''nats://n'', natsCredFile := ''c'', numThreads := 2\<rparr>"
  have q: "subscriber_queue sample_pod = ''cluster-connector''"
    by (simp add: subscriber_queue_def PossiblyInCluster_def sample_pod_def)
  have "RE_phase (run_command sample_run ?f) = Drained"
    by (simp add: run_command_def default_flags_def sample_run_def addSubscribers_def q Let_def
        QueueSubscribe_def subscribe_def badSubject_def badQueue_def nats_space_def live_conn_def
        handler_prefix_def numeral_2_eq_2)
  with startup_complete [of sample_run ?f] show ?thesis
    by (auto simp: sample_run_def q live_conn_def)
qed

text \<open>The queue a subscriber joins. Outside a cluster it is the chart's name; in a cluster it is
  the namespace and the pod name without its last dash-separated part, so that all replicas of one
  controller share a queue and every request is handled once.\<close>

theorem queue_of_controller:
  "CHR ''-'' \<notin> set hash \<longrightarrow> PodName env = ctrl @ CHR ''-'' # hash \<longrightarrow>
   subscriber_queue env =
     (if PossiblyInCluster env then PodNamespace env @ ''.'' @ ctrl else ''cluster-connector'')"
  by (simp add: subscriber_queue_def last_index_byte_snoc Let_def)

theorem queue_of_controller_witness:
  "subscriber_queue \<lparr>getenv = \<lambda>k. if k = ''POD_NAME'' then ''cc-7d-x9'' else ''1'',
     pod_hostname = [], token_is_file = True, namespace_file = None\<rparr> = ''1.cc-7d''"
  using queue_of_controller [of "''x9''" "\<lparr>getenv = \<lambda>k. if k = ''POD_NAME'' then ''cc-7d-x9'' else ''1'',
     pod_hostname = [], token_is_file = True, namespace_file = None\<rparr>" "''cc-7d''"]
  by (simp add: PodName_def PossiblyInCluster_def PodNamespace_def)

text \<open>The callback succeeds exactly when the server answered 200 and its body could be
  read; what it posts decodes to the link id and the cluster id it was given, to an address whose
  path ends in the callback path of the API. It never panics on an address that parses. It says what
  happened only through an injected logger: the run command gives it none, and then it logs nothing,
  whatever the server answers.\<close>

theorem callback_reports:
  assumes "CallbackRequest_ok (CB_req cb)"
    and "APIServerAddress parse sv (CB_baseURL cb) = Inr u" "Path u = [] \<or> hd (Path u) = CHR ''/''"
  shows "\<exists>v data err ls. CallbackRequest_unmarshal data = Some (CB_req cb) \<and> Host v = Host u \<and>
    Scheme v = Scheme u \<and> Path v = base_dir (Path u) @ ''/api/v1/connector/link/callback'' \<and>
    callback_Start parse sv http_Post cb = Returned err ls \<and>
    (err = None \<longleftrightarrow> (\<exists>resp b. http_Post v ''application/json'' data = Inr resp \<and>
      PR_StatusCode resp = 200 \<and> PR_Body resp = Inr b)) \<and>
    (CB_log cb = No_Sink \<longrightarrow> ls = []) \<and>
    (CB_log cb = Sink \<and> err = None \<longrightarrow> ls = [''link callback successful''])"
proof -
  let ?v = "u\<lparr>Path := path_join [Path u, ConnectorAPIPathPrefix, ConnectorCallbackAPIPath]\<rparr>"
  let ?d = "CallbackRequest_marshal (CB_req cb)"
  have ep: "ConnectorCallbackEndpoint parse sv (CB_baseURL cb) = Inr ?v"
    using assms(2) by (simp add: ConnectorCallbackEndpoint_def)
  have "CallbackRequest_unmarshal ?d = Some (CB_req cb)"
    by (rule callback_codec.dec_enc [OF assms(1)])
  moreover have "Path ?v = base_dir (Path u) @ ''/api/v1/connector/link/callback''"
    using callback_path [OF assms(3)] by simp
  moreover have "\<exists>err ls. callback_Start parse sv http_Post cb = Returned err ls \<and>
      (err = None \<longleftrightarrow> (\<exists>resp b. http_Post ?v ''application/json'' ?d = Inr resp \<and>
        PR_StatusCode resp = 200 \<and> PR_Body resp = Inr b)) \<and>
      (CB_log cb = No_Sink \<longrightarrow> ls = []) \<and> (CB_log cb = Sink \<and> err = None \<longrightarrow> ls = [''link callback successful''])"
    by (auto simp: callback_Start_def ep StatusOK_def log_line_def split: sum.splits)
  ultimately show ?thesis by (elim exE) (intro exI [of _ ?v] exI [of _ ?d], simp)
qed

theorem callback_reports_witness:
  "\<exists>(v :: url) data. CallbackRequest_unmarshal data = Some \<lparr>LinkID = ''l'', ClusterID = ''c''\<rparr> \<and>
    Path v = ''/base/api/v1/connector/link/callback''"
proof -
  let ?u = "\<lparr>Scheme = ''https'', Host = ''h'', Path = ''/base/''\<rparr>"
  let ?cb = "\<lparr>CB_baseURL = ''h'', CB_req = \<lparr>LinkID = ''l'', ClusterID = ''c''\<rparr>, CB_log = No_Sink\<rparr>"
  have "CallbackRequest_ok (CB_req ?cb)" by (simp add: CallbackRequest_ok_def ascii_def)
  moreover have "APIServerAddress (\<lambda>_. Inr ?u) False (CB_baseURL ?cb) = Inr ?u"
    by (simp add: APIServerAddress_def)
  ultimately have "\<exists>(v :: url) data. CallbackRequest_unmarshal data = Some (CB_req ?cb) \<and>
      Path v = base_dir (Path ?u) @ ''/api/v1/connector/link/callback''"
    using callback_reports [of ?cb "\<lambda>_. Inr ?u" False ?u "\<lambda>_ _ _. Inl io_EOF"] by auto
  moreover have "base_dir (Path ?u) = ''/base''" by (simp add: base_dir_def path_clean_def)
  ultimately show ?thesis by (metis callback.select_convs(2) append_Cons append_Nil)
qed

text \<open>C36: How the edge sends a request that carries TLS options that load: through a transport with
  exactly these options, the request's compression setting and the fixed handshake, dial and idle
  limits, HTTP/2 being on unless it is disabled or the options' protocols exclude it. Without TLS
  options it is the default transport, and the compression setting has no effect.\<close>

theorem edge_transport_choice:
  assumes "R_ok r" "ReadRequest env (R_Request r) = Inr req"
  shows "(R_TLS r = None \<longrightarrow> respond env (R_encode r) =
      Some (Some r, Some (req\<lparr>SR_RequestURI := []\<rparr>), client_Do env
        \<lparr>HC_Transport = DefaultTransport, HC_Timeout = edge_timeout_of r\<rparr>
        (req\<lparr>SR_RequestURI := []\<rparr>))) \<and>
    (\<forall>p c. R_TLS r = Some p \<and> TLSConfigFor (edge_crypto env) p = Some (Inr c) \<longrightarrow>
      (\<exists>t. respond env (R_encode r) = Some (Some r, Some (req\<lparr>SR_RequestURI := []\<rparr>),
          client_Do env \<lparr>HC_Transport = Transport_of t, HC_Timeout = edge_timeout_of r\<rparr>
            (req\<lparr>SR_RequestURI := []\<rparr>)) \<and>
        HT_TLSClientConfig t = c \<and> HT_DisableCompression t = R_DisableCompression r \<and>
        HT_TLSHandshakeTimeout t = 10 * second \<and> HT_DialTimeout t = 30 * second \<and>
        HT_IdleConnTimeout t = 90 * second \<and> HT_MaxIdleConnsPerHost t = 25 \<and>
        HT_Proxy t = ProxyWithNoProxyCIDR \<and>
        (HT_HTTP2 t \<longleftrightarrow> \<not> disable_http2 env \<and> (\<forall>tc. c = Some tc \<longrightarrow>
          T_NextProtos tc = [] \<or> ''h2'' \<in> set (T_NextProtos tc)))))"
proof (intro conjI allI impI)
  note re = respond_encoded [OF assms]
  show "respond env (R_encode r) =
      Some (Some r, Some (req\<lparr>SR_RequestURI := []\<rparr>), client_Do env
        \<lparr>HC_Transport = DefaultTransport, HC_Timeout = edge_timeout_of r\<rparr>
        (req\<lparr>SR_RequestURI := []\<rparr>))" if "R_TLS r = None"
    using that by (simp add: re send_request_def)
  fix p c assume "R_TLS r = Some p \<and> TLSConfigFor (edge_crypto env) p = Some (Inr c)"
  then have "respond env (R_encode r) = Some (Some r, Some (req\<lparr>SR_RequestURI := []\<rparr>),
      client_Do env \<lparr>HC_Transport = tls_transport (disable_http2 env) r c,
        HC_Timeout = edge_timeout_of r\<rparr> (req\<lparr>SR_RequestURI := []\<rparr>))"
    by (simp add: re send_request_def)
  with tls_transport_fields [of "disable_http2 env" r c]
  show "\<exists>t. respond env (R_encode r) = Some (Some r, Some (req\<lparr>SR_RequestURI := []\<rparr>),
          client_Do env \<lparr>HC_Transport = Transport_of t, HC_Timeout = edge_timeout_of r\<rparr>
            (req\<lparr>SR_RequestURI := []\<rparr>)) \<and>
        HT_TLSClientConfig t = c \<and> HT_DisableCompression t = R_DisableCompression r \<and>
        HT_TLSHandshakeTimeout t = 10 * second \<and> HT_DialTimeout t = 30 * second \<and>
        HT_IdleConnTimeout t = 90 * second \<and> HT_MaxIdleConnsPerHost t = 25 \<and>
        HT_Proxy t = ProxyWithNoProxyCIDR \<and>
        (HT_HTTP2 t \<longleftrightarrow> \<not> disable_http2 env \<and> (\<forall>tc. c = Some tc \<longrightarrow>
          T_NextProtos tc = [] \<or> ''h2'' \<in> set (T_NextProtos tc)))"
    by metis
qed

theorem edge_transport_choice_witness:
  "respond \<lparr>unmarshal_error = \<lambda>_. [], ReadRequest = \<lambda>_. Inr
       \<lparr>SR_Method = ''GET'', SR_Proto = ''HTTP/1.1'', SR_ProtoMajor = 1, SR_ProtoMinor = 1,
        SR_TransferEncoding = [], SR_RequestURI = ''/'', SR_Rest = []\<rparr>,
      edge_crypto = plain_crypto, disable_http2 = False, client_Do = \<lambda>c q. Inr (HC_Timeout c),
      resp_calls = \<lambda>_. ([], None)\<rparr> (R_encode empty_R) =
    Some (Some empty_R, Some \<lparr>SR_Method = ''GET'', SR_Proto = ''HTTP/1.1'', SR_ProtoMajor = 1,
      SR_ProtoMinor = 1, SR_TransferEncoding = [], SR_RequestURI = [], SR_Rest = []\<rparr>,
      Inr (30 * second))"
  using edge_transport_choice [of empty_R "\<lparr>unmarshal_error = \<lambda>_. [], ReadRequest = \<lambda>_. Inr
       \<lparr>SR_Method = ''GET'', SR_Proto = ''HTTP/1.1'', SR_ProtoMajor = 1, SR_ProtoMinor = 1,
        SR_TransferEncoding = [], SR_RequestURI = ''/'', SR_Rest = []\<rparr>,
      edge_crypto = plain_crypto, disable_http2 = False, client_Do = \<lambda>c q. Inr (HC_Timeout c),
      resp_calls = \<lambda>_. ([], None)\<rparr>"]
  by (simp add: R_ok_def empty_R_def edge_timeout_of_def)

end
