(* ===== verification/Tunnel.thy ===== *)
theory Tunnel
  imports Agent
begin

text \<open>
  The tunnel as a whole: the record a client publishes, what the edge sends for it, and what the
  client's pump makes of the messages; and the client process as a machine, in which many
  requests are in flight on one connection.
\<close>

section \<open>One exchange\<close>

text \<open>
  The messages the edge sends for a payload: it is delivered with a reply subject and no
  headers, and \<open>sent\<close> collects what the connection was given in answer.
\<close>

definition request_msg :: "bytes \<Rightarrow> string \<Rightarrow> msg" where
  "request_msg data reply = \<lparr>M_Reply = reply, M_Header = [], M_Data = data\<rparr>"

definition edge_messages ::
    "'resp edge_env \<Rightarrow> natsWriter bufio \<Rightarrow> bytes \<Rightarrow> string \<Rightarrow> nats_conn \<Rightarrow> wire_msg list option" where
  "edge_messages env w0 data reply nc =
     (case handle_message env w0 (request_msg data reply) nc of
        None \<Rightarrow> None
      | Some (logs, w') \<Rightarrow> Some (drop (length (outbox nc)) (outbox (NW_nc (sink w')))))"

text \<open>The network hands the subscriber a list of messages in order, with quiet spells between.\<close>

definition delivers :: "wire_msg list \<Rightarrow> sub_event list \<Rightarrow> bool" where
  "delivers ms evs \<longleftrightarrow> filter (\<lambda>ev. ev \<noteq> Quiet) evs = arrivals ms"

definition read_clean :: "bytes \<Rightarrow> pump_state \<Rightarrow> bool" where
  "read_clean d s \<longleftrightarrow> (\<exists>p. s = Ended p \<and> P_taken p = d \<and> P_closed p = Some io_EOF)"

lemma pump_delivers: "delivers ms evs \<Longrightarrow> pump evs p = pump (arrivals ms) p"
  using pump_ignores_quiet [of evs p] by (simp add: delivers_def)

lemma sanitize_Nil_iff: "sanitize v = [] \<longleftrightarrow> list_all (\<lambda>c. ascii_space c) v"
  by (auto simp: sanitize_def newline_to_space_def trim_string_empty_iff list_all_iff
      ascii_space_def)

lemma arrivals_append: "arrivals (xs @ ys) = arrivals xs @ arrivals ys"
  by (simp add: arrivals_def)

lemma pump_response:
  assumes "\<forall>m\<in>set ms. plain_message L subj m" "delivers (ms @ [done_message subj v d]) evs"
  shows "pump evs new_pipe = Ended (close_pipe (if sanitize v \<noteq> [] then Some (ErrNew (sanitize v)) else None)
    (new_pipe\<lparr>P_taken := concat (map W_Data ms) @ d\<rparr>))"
  using pump_delivers [OF assms(2), of new_pipe] pump_plain [OF assms(1), of new_pipe]
    pump_done [of "new_pipe\<lparr>P_taken := concat (map W_Data ms)\<rparr>" subj v d "[]"]
  by (simp add: arrivals_append new_pipe_def)

text \<open>A response that can be written, over a healthy connection: it is read as it was written.\<close>

lemma exchange_whole:
  assumes calls: "message_calls env data = Some (calls, None)"
    and fit: "\<forall>x\<in>set calls. op_max x \<le> M \<and> op_clean x"
    and conn: "pooled w0" "healthy M nc" "validateSubject reply" "bufferSize + done_overhead \<le> M"
  obtains ms where "edge_messages env w0 data reply nc = Some ms"
    "\<And>evs. delivers ms evs \<Longrightarrow> read_clean (ops_bytes calls) (pump evs new_pipe)"
proof -
  obtain w' ms d where w: "write_response calls None w0 reply nc = Some ([], w')"
    "outbox (NW_nc (sink w')) = outbox nc @ ms @ [done_message reply [] d]"
    "\<forall>m\<in>set ms. plain_message M reply m" "concat (map W_Data ms) @ d = ops_bytes calls"
    using write_response_healthy [OF conn fit] by blast
  have "edge_messages env w0 data reply nc = Some (ms @ [done_message reply [] d])"
    using w(1,2) calls by (simp add: edge_messages_def handle_message_def request_msg_def)
  moreover have "read_clean (ops_bytes calls) (pump evs new_pipe)"
    if "delivers (ms @ [done_message reply [] d]) evs" for evs
    using pump_response [OF w(3) that] w(4) by (simp add: read_clean_def close_pipe_def)
  ultimately show ?thesis using that by blast
qed

text \<open>
  A pipe that ends without an error on a beginning of a response's messages, whatever else
  happens to the subscription: the marked message was among them.
\<close>

definition delivers_part :: "wire_msg list \<Rightarrow> sub_event list \<Rightarrow> bool" where
  "delivers_part ms evs \<longleftrightarrow> SubError io_EOF \<notin> set evs \<and>
     (\<exists>k. filter (\<lambda>ev. \<exists>m. ev = Arrived m) evs = arrivals (take k ms))"

lemma filter_arrived_data:
  "concat (map event_data evs) = concat (map event_data (filter (\<lambda>ev. \<exists>m. ev = Arrived m) evs))"
proof (induction evs)
  case (Cons ev evs)
  then show ?case by (cases ev) auto
qed simp

lemma arrivals_data: "concat (map event_data (arrivals ms)) = concat (map W_Data ms)"
  by (induction ms) (auto simp: arrivals_def deliver_def)

lemma part_clean_end:
  assumes ms: "\<forall>m\<in>set ms. plain_message L subj m"
    and fin: "fin = [] \<or> fin = [done_message subj v d]"
    and part: "delivers_part (ms @ fin) evs" and clean: "read_clean t (pump evs new_pipe)"
  shows "fin = [done_message subj v d] \<and> sanitize v = [] \<and> t = concat (map W_Data ms) @ d"
proof -
  let ?A = "\<lambda>ev. \<exists>m. ev = Arrived m"
  obtain k where k: "filter ?A evs = arrivals (take k (ms @ fin))"
    and noeof: "SubError io_EOF \<notin> set evs"
    using part by (auto simp: delivers_part_def)
  obtain q where q: "pump evs new_pipe = Ended q" "P_closed q = Some io_EOF" "P_taken q = t"
    using clean by (auto simp: read_clean_def)
  obtain evs1 m vs evs2 where split: "evs = evs1 @ Arrived m # evs2"
    and dv: "done_value m = Some ([] # vs)"
    and t: "t = concat (map event_data evs1) @ M_Data m"
    using pump_clean_end [OF q(1,2) _ noeof] q(3) by (auto simp: new_pipe_def)
  have "arrivals (take k (ms @ fin)) = filter ?A evs1 @ Arrived m # filter ?A evs2"
    using k split by (simp del: take_append)
  then obtain xs y ys where xs: "take k (ms @ fin) = xs @ y # ys"
    "filter ?A evs1 = arrivals xs" "m = deliver y"
    unfolding arrivals_def by (auto simp: map_eq_append_conv map_eq_Cons_conv simp del: take_append)
  have plain_none: "done_value (deliver z) = None" if "z \<in> set ms" for z
    using ms that done_value_simps(1) by (metis plain_message_def)
  have prefix: "prefix (xs @ [y]) (ms @ fin)"
    using xs(1) take_is_prefix [of k "ms @ fin"] by (auto simp: prefix_def)
  have "\<not> prefix (xs @ [y]) ms"
    using plain_none dv xs(3) by (auto dest: set_mono_prefix)
  with prefix fin have f: "fin = [done_message subj v d]" "xs = ms" "y = done_message subj v d"
    by (auto simp: prefix_append prefix_Cons)
  have "sanitize v = []" using dv xs(3) f(3) by (simp add: done_value_def)
  moreover have "t = concat (map W_Data ms) @ d"
    using t xs(2,3) f filter_arrived_data [of evs1] arrivals_data [of ms] by simp
  ultimately show ?thesis using f(1) by simp
qed

text \<open>
  Whatever the edge's connection does while the response is written, and wherever the delivery
  is cut: a client that sees the stream end cleanly has the whole response, unless the failure
  that ended it has a blank text.
\<close>

lemma exchange_safe:
  assumes calls: "message_calls env data = Some (calls, own)" and pool: "pooled w0"
  obtains ms where "edge_messages env w0 data reply nc = Some ms"
    "\<And>evs t. delivers_part ms evs \<Longrightarrow> read_clean t (pump evs new_pipe) \<Longrightarrow>
       own = None \<and> t = ops_bytes calls \<or>
       prefix t (ops_bytes calls) \<and>
         (\<exists>e. write_error nc reply calls own e \<and> list_all ascii_space (err_text e))"
proof -
  obtain logs w' ms fin err d where w: "write_response calls own w0 reply nc = Some (logs, w')"
    "outbox (NW_nc (sink w')) = outbox nc @ ms @ fin"
    "response_sent nc reply calls own logs ms fin err d"
    using write_response_sends [OF pool] by blast
  have "edge_messages env w0 data reply nc = Some (ms @ fin)"
    using w(1,2) calls by (simp add: edge_messages_def handle_message_def request_msg_def)
  moreover have "own = None \<and> t = ops_bytes calls \<or>
       prefix t (ops_bytes calls) \<and>
         (\<exists>e. write_error nc reply calls own e \<and> list_all ascii_space (err_text e))"
    if "delivers_part (ms @ fin) evs" "read_clean t (pump evs new_pipe)" for evs t
  proof -
    have r: "\<forall>m\<in>set ms. plain_message (response_bound calls) reply m"
      "fin = [] \<or> fin = [done_message reply (final_value err) d]"
      using w(3) by (auto simp: response_sent_def)
    from part_clean_end [OF r that] have p: "sanitize (final_value err) = []"
      "t = concat (map W_Data ms) @ d" by auto
    show ?thesis
    proof (cases err)
      case None
      then show ?thesis using w(3) p by (simp add: response_sent_def)
    next
      case (Some e)
      then have "list_all ascii_space (err_text e)"
        using p(1) by (simp add: final_value_def sanitize_Nil_iff)
      then show ?thesis using w(3) p Some by (auto simp: response_sent_def)
    qed
  qed
  ultimately show ?thesis using that by blast
qed

section \<open>From request to response\<close>

text \<open>What the edge does with the record a transport makes of a request.\<close>

definition edge_result ::
    "'resp edge_env \<Rightarrow> R \<Rightarrow> server_request \<Rightarrow> 'resp result option" where
  "edge_result env r req =
     (case R_TLS r of
        None \<Rightarrow> Some (send_request env r req DefaultTransport)
      | Some p \<Rightarrow>
          (case TLSConfigFor (edge_crypto env) p of
             None \<Rightarrow> None
           | Some (Inl err) \<Rightarrow> Some (Inl err)
           | Some (Inr c) \<Rightarrow> Some (send_request env r req (tls_transport (disable_http2 env) r c))))"

lemma message_calls_encoded:
  assumes "R_ok r" "ReadRequest env (R_Request r) = Inr req" "edge_result env r req = Some (Inr resp)"
  shows "message_calls env (R_encode r) = Some (resp_calls env resp)"
  using assms respond_encoded [OF assms(1,2)]
  by (auto simp: message_calls_def edge_result_def split: option.splits sum.splits)

text \<open>The timeout the edge gives the request: half a second less than the client's.\<close>

lemma request_record_timeout:
  assumes "0 < sint t"
  shows "sint (edge_timeout_of (request_record rt r t)) =
    (if sint t \<le> 500000000 then 30000000000 else sint t - 500000000)"
proof -
  have e: "sint (edge_timeout t) = max 0 (sint t - 500000000)"
    by (rule sint_edge_timeout [OF assms])
  have z: "edge_timeout t = 0 \<longleftrightarrow> sint t \<le> 500000000"
  proof -
    have "edge_timeout t = 0 \<longleftrightarrow> sint (edge_timeout t) = 0" by (simp add: signed_eq_0_iff)
    then show ?thesis using e by auto
  qed
  have "sint (30 * second) = 30000000000" by (simp add: second_def)
  then show ?thesis using e z by (simp add: edge_timeout_of_def request_record_def)
qed

section \<open>The client process\<close>

text \<open>
  Many goroutines call \<open>Proxy\<close> on one connection. Each call takes the next identifier, and its
  pump runs until the response ends. The steps interleave in any order: a request is sent, or
  fails to be; a pump ends.
\<close>

record hub =
  H_conn :: nats_conn
  H_issued :: nat                                   \<comment> \<open>identifiers taken so far\<close>
  H_active :: "(nat \<times> names \<times> subscription) list"   \<comment> \<open>requests whose pump runs\<close>

inductive hub_step :: "xid_env \<Rightarrow> 32 word \<Rightarrow> hub \<Rightarrow> hub \<Rightarrow> bool" for env c0 where
  send: "Proxy_send env t n data nc (c0 + of_nat k) = (Inr sub, nc', ctr') \<Longrightarrow>
    hub_step env c0 \<lparr>H_conn = nc, H_issued = k, H_active = act\<rparr>
      \<lparr>H_conn = nc', H_issued = Suc k, H_active = act @ [(k, n, sub)]\<rparr>"
| send_fails: "Proxy_send env t n data nc (c0 + of_nat k) = (Inl e, nc', ctr') \<Longrightarrow>
    hub_step env c0 \<lparr>H_conn = nc, H_issued = k, H_active = act\<rparr>
      \<lparr>H_conn = nc', H_issued = Suc k, H_active = act\<rparr>"
| finish: "(i, n, sub) \<in> set act \<Longrightarrow> Proxy_receive sub evs nc = (Ended p, nc') \<Longrightarrow>
    hub_step env c0 \<lparr>H_conn = nc, H_issued = k, H_active = act\<rparr>
      \<lparr>H_conn = nc', H_issued = k, H_active = filter (\<lambda>(j, _, _). j \<noteq> i) act\<rparr>"

inductive_cases hub_stepE: "hub_step env c0 s s'"

definition hub_start :: "hub \<Rightarrow> bool" where
  "hub_start s \<longleftrightarrow> H_issued s = 0 \<and> H_active s = []"

definition hub_token :: "xid_env \<Rightarrow> 32 word \<Rightarrow> nat \<Rightarrow> string \<Rightarrow> bool" where
  "hub_token env c0 i u \<longleftrightarrow> (\<exists>t. u = xid_string (fst (xid_new env t (c0 + of_nat i))))"

definition hub_inv :: "xid_env \<Rightarrow> 32 word \<Rightarrow> hub \<Rightarrow> bool" where
  "hub_inv env c0 s \<longleftrightarrow>
     (\<forall>(i, n, sub) \<in> set (H_active s). i < H_issued s \<and>
        (\<exists>u. hub_token env c0 i u \<and> S_Subject sub = fst (response_subjects n u)) \<and>
        (H_issued s \<le> 2 ^ 24 \<longrightarrow> sub \<in> set (subs (H_conn s))))"

lemma hub_invD:
  assumes "hub_inv env c0 s" "(i, n, sub) \<in> set (H_active s)"
  obtains u where "i < H_issued s" "hub_token env c0 i u"
    "S_Subject sub = fst (response_subjects n u)"
    "H_issued s \<le> 2 ^ 24 \<Longrightarrow> sub \<in> set (subs (H_conn s))"
  using bspec [OF assms(1) [unfolded hub_inv_def] assms(2)] by auto

lemma hub_tokens_differ:
  assumes "hub_token env c0 i u" "hub_token env c0 j v" "i \<noteq> j" "i < 2 ^ 24" "j < 2 ^ 24"
  shows "fst (response_subjects n u) \<noteq> fst (response_subjects m v)"
proof -
  have "u \<noteq> v" "dot_free u" "dot_free v"
    using assms xid_string_distinct by (auto simp: hub_token_def)
  then show ?thesis using link_names.response_routing by blast
qed

lemma Proxy_receive_ended:
  "Proxy_receive sub evs nc = (Ended p, nc') \<Longrightarrow>
   pump evs new_pipe = Ended p \<and> nc' = snd (Unsubscribe sub nc)"
  by (auto simp: Proxy_receive_def split: pump_state.splits)

lemma hub_inv_send:
  assumes "hub_inv env c0 \<lparr>H_conn = nc, H_issued = k, H_active = act\<rparr>"
    "Proxy_send env t n data nc (c0 + of_nat k) = (Inr sub, nc', ctr')"
  shows "hub_inv env c0 \<lparr>H_conn = nc', H_issued = Suc k, H_active = act @ [(k, n, sub)]\<rparr>"
  using assms(1) Proxy_send_ok(2,3) [OF assms(2)]
  by (auto simp: hub_inv_def hub_token_def split: prod.splits)

lemma hub_inv_send_fails:
  assumes "hub_inv env c0 \<lparr>H_conn = nc, H_issued = k, H_active = act\<rparr>"
    "Proxy_send env t n data nc (c0 + of_nat k) = (Inl e, nc', ctr')"
  shows "hub_inv env c0 \<lparr>H_conn = nc', H_issued = Suc k, H_active = act\<rparr>"
proof -
  have "set (subs nc) \<subseteq> set (subs nc')" using Proxy_send_error [OF assms(2)] by auto
  then show ?thesis using assms(1) by (fastforce simp: hub_inv_def split: prod.splits)
qed

lemma hub_inv_finish:
  assumes inv: "hub_inv env c0 \<lparr>H_conn = nc, H_issued = k, H_active = act\<rparr>"
    and act: "(i, n, sub) \<in> set act" and rcv: "Proxy_receive sub evs nc = (Ended p, nc')"
  shows "hub_inv env c0 \<lparr>H_conn = nc', H_issued = k,
    H_active = filter (\<lambda>(j, _, _). j \<noteq> i) act\<rparr>"
proof -
  have nc': "subs nc' = subs nc \<or> subs nc' = remove1 sub (subs nc)"
    using Proxy_receive_ended [OF rcv] Unsubscribe_subs by simp
  have keep: "sub' \<in> set (subs nc')"
    if a: "(j, m, sub') \<in> set act" "j \<noteq> i" "k \<le> 2 ^ 24" for j m sub'
  proof -
    obtain u where u: "i < k" "hub_token env c0 i u" "S_Subject sub = fst (response_subjects n u)"
      using hub_invD [OF inv, unfolded hub.select_convs, OF act] by metis
    obtain v where v: "j < k" "hub_token env c0 j v" "S_Subject sub' = fst (response_subjects m v)"
      "sub' \<in> set (subs nc)"
      using hub_invD [OF inv, unfolded hub.select_convs, OF a(1)] a(3) by metis
    have "S_Subject sub \<noteq> S_Subject sub'"
      using hub_tokens_differ [OF u(2) v(2)] u v a(2,3) by auto
    then have "sub' \<noteq> sub" by auto
    then show ?thesis using v(4) nc' by (auto simp: in_set_remove1)
  qed
  then show ?thesis using inv by (fastforce simp: hub_inv_def)
qed

interpretation hub_machine: invariant_machine hub_start "hub_step env c0" "hub_inv env c0"
  for env c0
proof unfold_locales
  fix s t
  show "hub_start s \<Longrightarrow> hub_inv env c0 s" by (simp add: hub_start_def hub_inv_def)
  assume "hub_inv env c0 s" "hub_step env c0 s t"
  then show "hub_inv env c0 t"
    by (auto elim!: hub_stepE intro: hub_inv_send hub_inv_send_fails hub_inv_finish)
qed

section \<open>Properties\<close>

text \<open>A small world to evaluate the definitions in: the API server answers every request.\<close>

definition sample_request :: server_request where
  "sample_request = \<lparr>SR_Method = ''GET'', SR_Proto = ''HTTP/1.1'', SR_ProtoMajor = 1,
     SR_ProtoMinor = 1, SR_TransferEncoding = [], SR_RequestURI = ''/api'', SR_Rest = []\<rparr>"

definition sample_crypto :: crypto where
  "sample_crypto = \<lparr>X509KeyPair = \<lambda>_ _. Inr [], AppendCertsFromPEM = \<lambda>d. [d],
     PemDecode = \<lambda>d. (None, d), ParseCertificate = \<lambda>d. Inr d\<rparr>"

definition sample_edge :: "wop list result \<Rightarrow> wop list edge_env" where
  "sample_edge answer = \<lparr>unmarshal_error = \<lambda>_. ''bad'', ReadRequest = \<lambda>_. Inr sample_request,
     edge_crypto = sample_crypto, disable_http2 = False, client_Do = \<lambda>_ _. answer,
     resp_calls = \<lambda>c. (c, None)\<rparr>"

definition sample_transport :: NatsTransport where
  "sample_transport = \<lparr>Conn = Some 0, Names = CrossAccountNames ''l1'', NT_Timeout = 10 * second,
     NT_DisableCompression = False, NT_TLS = None\<rparr>"

definition sample_call :: http_request where
  "sample_call = \<lparr>HR_wire = ''GET /api'', HR_write_error = None, HR_deadline = None\<rparr>"

definition sample_buffer :: gobuf where
  "sample_buffer = \<lparr>storage = ''left over'', used = 9\<rparr>"

lemma sample_timeout: "transport_timeout sample_transport None 0 = 10 * second"
  by (simp add: transport_timeout_def sample_transport_def second_def)

text \<open>C1: The tunnel is transparent. If the client can serialise its request, the edge can read it,
  carries it out with the TLS options the transport has, and gets a response that can be written,
  and the edge's connection is healthy, then what the client publishes makes the edge send
  messages from which, delivered in order with any quiet spells between them, the client's pump
  reads exactly the serialised response and then a clean end. The timeout it uses is the
  transport's, whatever the client's pooled buffer and the edge's pooled writer held before.\<close>

theorem tunnel_transparent:
  assumes "HR_write_error r = None"
    and "R_ok (request_record rt r (transport_timeout rt (HR_deadline r) now))"
    and "ReadRequest env (HR_wire r) = Inr req"
    and "edge_result env (request_record rt r (transport_timeout rt (HR_deadline r) now)) req =
      Some (Inr resp)"
    and "resp_calls env resp = (calls, None)" "\<forall>x\<in>set calls. op_max x \<le> M \<and> op_clean x"
    and "pooled w0" "healthy M nc" "validateSubject reply" "bufferSize + done_overhead \<le> M"
  shows "\<exists>data ms. fst (RoundTrip_payload rt r now b) =
      Inr (data, transport_timeout rt (HR_deadline r) now) \<and>
    edge_messages env w0 data reply nc = Some ms \<and>
    (\<forall>evs. delivers ms evs \<longrightarrow> read_clean (ops_bytes calls) (pump evs new_pipe))"
proof -
  let ?rec = "request_record rt r (transport_timeout rt (HR_deadline r) now)"
  have "ReadRequest env (R_Request ?rec) = Inr req"
    using assms(3) by (simp add: request_record_def)
  from message_calls_encoded [OF assms(2) this assms(4)] assms(5)
  have "message_calls env (R_encode ?rec) = Some (calls, None)" by simp
  from exchange_whole [OF this assms(6-10)] show ?thesis
    using payload_ok [OF assms(1), of rt now b] by (metis (mono_tags, lifting))
qed

theorem tunnel_transparent_witness:
  "\<exists>data ms. fst (RoundTrip_payload sample_transport sample_call 0 sample_buffer) =
      Inr (data, transport_timeout sample_transport (HR_deadline sample_call) 0) \<and>
    edge_messages (sample_edge (Inr sample_response)) new_writer data ''r'' (live_conn 10000) =
      Some ms \<and>
    (\<forall>evs. delivers ms evs \<longrightarrow> read_clean (ops_bytes sample_response) (pump evs new_pipe))"
  by (rule tunnel_transparent [where req = sample_request and resp = sample_response and M = 10000])
    (simp_all add: sample_call_def sample_edge_def R_ok_def request_record_def edge_result_def
      sample_transport_def send_request_def sample_response_def pooled_new_writer
      healthy_live_conn validateSubject_def nats_space_def bufferSize_def done_overhead)

text \<open>C2: No truncated response looks complete. Whatever the edge's connection does while the
  response is written (closing, draining, refusing messages), wherever the delivery to the client
  is cut off, and whatever errors the subscription meets short of \<open>io.EOF\<close>: if the client's pump
  ends the stream without an error, then the client has read the whole serialised response, or
  else the writing failed with an error whose text consists of blanks only.\<close>

theorem clean_end_is_complete:
  assumes "message_calls env data = Some (calls, own)" "pooled w0"
  shows "\<exists>ms. edge_messages env w0 data reply nc = Some ms \<and>
    (\<forall>evs t. delivers_part ms evs \<longrightarrow> read_clean t (pump evs new_pipe) \<longrightarrow>
       own = None \<and> t = ops_bytes calls \<or>
       prefix t (ops_bytes calls) \<and>
         (\<exists>e. write_error nc reply calls own e \<and> list_all ascii_space (err_text e)))"
  using exchange_safe [OF assms] by metis

theorem clean_end_is_complete_witness:
  "\<exists>ms. edge_messages (sample_edge (Inr sample_response)) new_writer
       (R_encode (request_record sample_transport sample_call 0)) ''r'' (live_conn 0) = Some ms \<and>
    (\<forall>evs t. delivers_part ms evs \<longrightarrow> read_clean t (pump evs new_pipe) \<longrightarrow>
       (None :: go_error option) = None \<and> t = ops_bytes sample_response \<or>
       prefix t (ops_bytes sample_response) \<and>
         (\<exists>e. write_error (live_conn 0) ''r'' sample_response None e \<and>
           list_all ascii_space (err_text e)))"
proof (rule clean_end_is_complete [OF _ pooled_new_writer])
  have "R_ok (request_record sample_transport sample_call 0)"
    by (simp add: R_ok_def request_record_def sample_transport_def)
  then show "message_calls (sample_edge (Inr sample_response))
      (R_encode (request_record sample_transport sample_call 0)) = Some (sample_response, None)"
    by (subst message_calls_encoded [where req = sample_request and resp = sample_response])
      (simp_all add: sample_edge_def edge_result_def request_record_def sample_transport_def
        send_request_def)
qed

text \<open>C5: Every failure at the edge is answered. Whenever carrying out a payload fails (it is no
  record, holds no HTTP request, its TLS options do not load, or the API server cannot be
  reached), the client reads, over a healthy connection, exactly the serialised 500 response whose
  body is the Kubernetes status made of the error, and then a clean end.\<close>

theorem edge_failure_answered:
  assumes "respond env data = Some (r2, req, Inl err)"
    and "\<forall>x\<in>set (error_calls (make_error_response err r2 req)). op_max x \<le> M"
    and "pooled w0" "healthy M nc" "validateSubject reply" "bufferSize + done_overhead \<le> M"
  shows "\<exists>ms. edge_messages env w0 data reply nc = Some ms \<and>
    (\<forall>evs. delivers ms evs \<longrightarrow>
       read_clean (ops_bytes (error_calls (make_error_response err r2 req))) (pump evs new_pipe))"
proof -
  have "message_calls env data = Some (error_calls (make_error_response err r2 req), None)"
    using assms(1) by (simp add: message_calls_def)
  moreover have "\<forall>x\<in>set (error_calls (make_error_response err r2 req)). op_max x \<le> M \<and> op_clean x"
    using assms(2) error_calls_clean [OF error_body_not_empty] by blast
  ultimately show ?thesis using exchange_whole [OF _ _ assms(3-6)] by metis
qed

lemma sample_failure:
  "respond (sample_edge (Inl (ErrNew ''no route''))) (R_encode (request_record sample_transport sample_call 0)) =
     Some (Some (request_record sample_transport sample_call 0),
       Some (sample_request\<lparr>SR_RequestURI := []\<rparr>), Inl (ErrNew ''no route''))"
  by (subst respond_encoded [where req = sample_request])
    (simp_all add: R_ok_def request_record_def sample_transport_def sample_edge_def
      send_request_def)

theorem edge_failure_answered_witness:
  "\<exists>ms. edge_messages (sample_edge (Inl (ErrNew ''no route''))) new_writer
      (R_encode (request_record sample_transport sample_call 0)) ''r'' (live_conn 10000) = Some ms \<and>
    (\<forall>evs. delivers ms evs \<longrightarrow>
       read_clean (ops_bytes (error_calls (make_error_response (ErrNew ''no route'')
         (Some (request_record sample_transport sample_call 0))
         (Some (sample_request\<lparr>SR_RequestURI := []\<rparr>))))) (pump evs new_pipe))"
  by (rule edge_failure_answered [OF sample_failure _ pooled_new_writer,
        where M = 10000])
    (auto simp: healthy_live_conn validateSubject_def nats_space_def bufferSize_def done_overhead
      make_error_response_def ErrorToAPIStatus_def error_calls_def status_line_def sends_chunked_def
      sample_request_def nat_text.simps int_text_def pad3_def crlf_def)

text \<open>Requests in flight never mix. In every state the client process reaches, whatever the
  interleaving of requests sent, refused and ended, and as long as it has taken at most 2^24
  identifiers, every request whose pump runs still has its subscription on the connection, and two
  such requests wait on different response subjects, so no message of one response can reach the
  pipe of another.\<close>

theorem requests_isolated:
  assumes "hub_start s0" "(hub_step env c0)\<^sup>*\<^sup>* s0 s" "H_issued s \<le> 2 ^ 24"
    and "(i, n, sub) \<in> set (H_active s)" "(j, m, sub') \<in> set (H_active s)" "i \<noteq> j"
  shows "S_Subject sub \<noteq> S_Subject sub' \<and> sub \<in> set (subs (H_conn s)) \<and>
    sub' \<in> set (subs (H_conn s))"
proof -
  have inv: "hub_inv env c0 s" by (rule hub_machine.reachable_inv [OF assms(1,2)])
  obtain u where u: "i < H_issued s" "hub_token env c0 i u"
    "S_Subject sub = fst (response_subjects n u)" "sub \<in> set (subs (H_conn s))"
    using hub_invD [OF inv assms(4)] assms(3) by metis
  obtain v where v: "j < H_issued s" "hub_token env c0 j v"
    "S_Subject sub' = fst (response_subjects m v)" "sub' \<in> set (subs (H_conn s))"
    using hub_invD [OF inv assms(5)] assms(3) by metis
  show ?thesis
    using hub_tokens_differ [OF u(2) v(2) assms(6)] u v assms(3) by auto
qed

lemma two_requests:
  fixes d :: bytes
  assumes "healthy M nc" "length d \<le> M" "\<not> badSubject l"
  shows "\<exists>nc' sub sub'. (hub_step env 0)\<^sup>*\<^sup>* \<lparr>H_conn = nc, H_issued = 0, H_active = []\<rparr>
    \<lparr>H_conn = nc', H_issued = 2, H_active = [(0, CrossAccountNames l, sub), (1, SameAccountNames l, sub')]\<rparr>"
proof -
  obtain sub nc1 c1 where s1: "Proxy_send env 0 (CrossAccountNames l) d nc (0 + of_nat 0) = (Inr sub, nc1, c1)"
    using Proxy_send_healthy(1) [OF assms(1,2), where env = env and t = 0 and n = "CrossAccountNames l" and ctr = "0 + of_nat 0"] assms(3)
    by (metis GetLinkID.simps(1) prod.collapse)
  have "healthy M nc1" using assms(1) Proxy_send_status [OF s1] by (simp add: healthy_def)
  then obtain sub' nc2 c2 where s2: "Proxy_send env 0 (SameAccountNames l) d nc1 (0 + of_nat 1) = (Inr sub', nc2, c2)"
    using Proxy_send_healthy(1) [OF _ assms(2), where nc = nc1 and env = env and t = 0 and n = "SameAccountNames l" and ctr = "0 + of_nat 1"] assms(3)
    by (metis GetLinkID.simps(2) prod.collapse)
  have "hub_step env 0 \<lparr>H_conn = nc, H_issued = 0, H_active = []\<rparr>
      \<lparr>H_conn = nc1, H_issued = Suc 0, H_active = [] @ [(0, CrossAccountNames l, sub)]\<rparr>"
    using s1 by (rule hub_step.send)
  moreover have "hub_step env 0
      \<lparr>H_conn = nc1, H_issued = Suc 0, H_active = [] @ [(0, CrossAccountNames l, sub)]\<rparr>
      \<lparr>H_conn = nc2, H_issued = Suc (Suc 0),
       H_active = ([] @ [(0, CrossAccountNames l, sub)]) @ [(Suc 0, SameAccountNames l, sub')]\<rparr>"
    by (rule hub_step.send) (use s2 in simp)
  ultimately have "(hub_step env 0)\<^sup>*\<^sup>* \<lparr>H_conn = nc, H_issued = 0, H_active = []\<rparr>
      \<lparr>H_conn = nc2, H_issued = Suc (Suc 0),
       H_active = ([] @ [(0, CrossAccountNames l, sub)]) @ [(Suc 0, SameAccountNames l, sub')]\<rparr>"
    by (meson rtranclp.rtrancl_refl rtranclp.rtrancl_into_rtrancl)
  then show ?thesis by (simp add: numeral_2_eq_2) blast
qed

theorem requests_isolated_witness:
  "\<exists>(s :: hub) sub sub'. H_active s = [(0, CrossAccountNames ''l'', sub), (1, SameAccountNames ''l'', sub')] \<and>
     S_Subject sub \<noteq> S_Subject sub' \<and> sub \<in> set (subs (H_conn s)) \<and> sub' \<in> set (subs (H_conn s))"
proof -
  have nb: "\<not> badSubject ''l''" by (simp add: badSubject_def nats_space_def)
  note two_requests [OF healthy_live_conn [of 9 9], of "[]", OF _ _ nb,
      where env = "\<lparr>machineID = (1, 2, 3), pid = 4\<rparr>"]
  then obtain nc' sub sub' where st: "(hub_step \<lparr>machineID = (1, 2, 3), pid = 4\<rparr> 0)\<^sup>*\<^sup>*
      \<lparr>H_conn = live_conn 9, H_issued = 0, H_active = []\<rparr>
      \<lparr>H_conn = nc', H_issued = 2,
       H_active = [(0, CrossAccountNames ''l'', sub), (1, SameAccountNames ''l'', sub')]\<rparr>"
    by auto
  have start: "hub_start \<lparr>H_conn = live_conn 9, H_issued = 0, H_active = []\<rparr>"
    by (simp add: hub_start_def)
  show ?thesis
    using requests_isolated [OF start st, of 0 "CrossAccountNames ''l''" sub 1 "SameAccountNames ''l''" sub']
    by (intro exI [of _ "\<lparr>H_conn = nc', H_issued = 2,
       H_active = [(0, CrossAccountNames ''l'', sub), (1, SameAccountNames ''l'', sub')]\<rparr>"]
       exI [of _ sub] exI [of _ sub']) simp
qed

text \<open>The edge's HTTP client gets half a second less than the client's request timeout, except
  that a request timeout of at most half a second, of which nothing is left, gives the edge its
  default of 30 s.\<close>

theorem edge_client_timeout:
  "sint (edge_timeout_of (request_record rt r (transport_timeout rt deadline now))) =
    (if sint (transport_timeout rt deadline now) \<le> 500000000 then 30000000000
     else sint (transport_timeout rt deadline now) - 500000000)"
  by (rule request_record_timeout [OF transport_timeout_pos])

end
