(* ===== verification/ClientProcess.thy ===== *)
theory ClientProcess
  imports Tunnel
begin

text \<open>
  The client process in small steps (\<open>Proxy\<close> in \<open>pkg/transport/nats.go\<close>). A call of \<open>Proxy\<close>
  starts a goroutine, the pump, and its caller parses the response out of the other end of an
  \<open>io.Pipe\<close> at the same time; many such calls share one connection. \<open>NatsTransport.pump\<close> runs a
  pump alone and at once; here every step of a pump and of a reader is a step of its own, and
  the steps of all the calls interleave.

  An \<open>io.Pipe\<close> has no buffer: a write waits for a reader, hands over what the reader has room
  for, and returns when all is taken; a write of nothing waits for one read as well. Only the
  pump closes the pipe, and nothing closes the reading side.
\<close>

section \<open>One call\<close>

text \<open>
  Where a pump is: about to ask for a message, in a write with the bytes not yet taken of a
  message, in its deferred calls (with \<open>e2\<close>, and whether it panics), or gone. A reader computes,
  waits in a read with room for some bytes, or never reads again: the parser failed, or the
  body ended or was closed.
\<close>

datatype pump_at =
  AtNextMsg | InWrite bytes msg | Closing "go_error option" bool | GivingUp bool | Gone

datatype reader_at = Computing | InRead nat | Departed

record call =
  C_names :: names
  C_sub :: subscription
  C_seen :: "sub_event list"           \<comment> \<open>what \<open>NextMsg\<close> met so far\<close>
  C_pump :: pump_at
  C_reader :: reader_at
  C_taken :: bytes                     \<comment> \<open>what the reader got\<close>
  C_closed :: "go_error option"        \<comment> \<open>the pipe's end\<close>
  C_end :: "go_error option"           \<comment> \<open>the end that the reader saw\<close>

definition new_call :: "names \<Rightarrow> subscription \<Rightarrow> call" where
  "new_call n sub = \<lparr>C_names = n, C_sub = sub, C_seen = [], C_pump = AtNextMsg, C_reader = Computing,
     C_taken = [], C_closed = None, C_end = None\<rparr>"

text \<open>
  After a write the pump looks for the mark. Taking the first of no values panics, with \<open>e2\<close>
  nil from the write: the deferred calls run, then the process ends.
\<close>

definition after_write :: "msg \<Rightarrow> pump_at" where
  "after_write m =
     (case map_of (M_Header m) HeaderKeyDone of
        None \<Rightarrow> AtNextMsg
      | Some [] \<Rightarrow> Closing None True
      | Some (v # _) \<Rightarrow> Closing (if v \<noteq> [] then Some (ErrNew v) else None) False)"

inductive call_step :: "call \<Rightarrow> call \<Rightarrow> bool" where
  next_fails: "C_pump c = AtNextMsg \<Longrightarrow> NextMsg ev = Inl e \<Longrightarrow>
    call_step c (c\<lparr>C_seen := C_seen c @ [ev],
      C_pump := (if e = ErrTimeout then AtNextMsg else Closing (Some e) False)\<rparr>)"
| next_message: "C_pump c = AtNextMsg \<Longrightarrow> NextMsg ev = Inr m \<Longrightarrow>
    call_step c (c\<lparr>C_seen := C_seen c @ [ev], C_pump := InWrite (M_Data m) m\<rparr>)"
| read: "C_reader c = Computing \<Longrightarrow> 0 < n \<Longrightarrow> call_step c (c\<lparr>C_reader := InRead n\<rparr>)"
| hand_over: "C_pump c = InWrite d m \<Longrightarrow> C_reader c = InRead n \<Longrightarrow>
    call_step c (c\<lparr>C_taken := C_taken c @ take n d, C_reader := Computing,
      C_pump := (if drop n d = [] then after_write m else InWrite (drop n d) m)\<rparr>)"
| close: "C_pump c = Closing e2 panics \<Longrightarrow>
    call_step c (c\<lparr>C_closed := Some (case e2 of Some e \<Rightarrow> e | None \<Rightarrow> io_EOF), C_pump := GivingUp panics\<rparr>)"
| read_end: "C_reader c = InRead n \<Longrightarrow> C_closed c = Some e \<Longrightarrow>
    call_step c (c\<lparr>C_end := Some e, C_reader := Computing\<rparr>)"
| depart: "C_reader c = Computing \<Longrightarrow> call_step c (c\<lparr>C_reader := Departed\<rparr>)"

inductive_cases call_stepE: "call_step c c'"

section \<open>All calls\<close>

text \<open>
  A call is known by the number of the identifier it took. Giving a subscription up is the step
  that touches the connection. (A pump that panics gives it up too, but then the process ends.)
\<close>

record client =
  Cl_conn :: nats_conn
  Cl_issued :: nat
  Cl_calls :: "(nat \<times> call) list"

definition put_call :: "nat \<Rightarrow> call \<Rightarrow> (nat \<times> call) list \<Rightarrow> (nat \<times> call) list" where
  "put_call i c cs = map (\<lambda>(j, c'). (j, if j = i then c else c')) cs"

inductive client_step :: "xid_env \<Rightarrow> 32 word \<Rightarrow> client \<Rightarrow> client \<Rightarrow> bool" for env c0 where
  send: "Proxy_send env t n data nc (c0 + of_nat k) = (Inr sub, nc', ctr') \<Longrightarrow>
    client_step env c0 \<lparr>Cl_conn = nc, Cl_issued = k, Cl_calls = cs\<rparr>
      \<lparr>Cl_conn = nc', Cl_issued = Suc k, Cl_calls = cs @ [(k, new_call n sub)]\<rparr>"
| send_fails: "Proxy_send env t n data nc (c0 + of_nat k) = (Inl e, nc', ctr') \<Longrightarrow>
    client_step env c0 \<lparr>Cl_conn = nc, Cl_issued = k, Cl_calls = cs\<rparr>
      \<lparr>Cl_conn = nc', Cl_issued = Suc k, Cl_calls = cs\<rparr>"
| inside: "(i, c) \<in> set cs \<Longrightarrow> call_step c c' \<Longrightarrow>
    client_step env c0 \<lparr>Cl_conn = nc, Cl_issued = k, Cl_calls = cs\<rparr>
      \<lparr>Cl_conn = nc, Cl_issued = k, Cl_calls = put_call i c' cs\<rparr>"
| give_up: "(i, c) \<in> set cs \<Longrightarrow> C_pump c = GivingUp False \<Longrightarrow>
    client_step env c0 \<lparr>Cl_conn = nc, Cl_issued = k, Cl_calls = cs\<rparr>
      \<lparr>Cl_conn = snd (Unsubscribe (C_sub c) nc), Cl_issued = k,
       Cl_calls = put_call i (c\<lparr>C_pump := Gone\<rparr>) cs\<rparr>"

inductive_cases client_stepE: "client_step env c0 s t"

definition client_start :: "client \<Rightarrow> bool" where
  "client_start s \<longleftrightarrow> Cl_issued s = 0 \<and> Cl_calls s = []"

section \<open>A call does what its pump does alone\<close>

lemma pump_append:
  "pump (evs @ evs') p = (case pump evs p of Waiting q \<Rightarrow> pump evs' q | s \<Rightarrow> s)"
  by (induction evs arbitrary: p)
    (auto split: sum.splits write_outcome.splits option.splits list.splits)

abbreviation taken_pipe :: "bytes \<Rightarrow> pipe" where
  "taken_pipe t \<equiv> new_pipe\<lparr>P_taken := t\<rparr>"

lemma pipe_write_taken [simp]: "pipe_write d (taken_pipe t) = Taken (taken_pipe (t @ d))"
  by (simp add: pipe_write_def new_pipe_def)

lemma taken_pipe_nil [simp]: "taken_pipe [] = new_pipe"
  by (simp add: new_pipe_def)

text \<open>
  What the events a call has seen give when the pump runs alone, into a reader that takes
  everything, is what the call is at.
\<close>

fun call_at :: "pump_at \<Rightarrow> sub_event list \<Rightarrow> bytes \<Rightarrow> go_error option \<Rightarrow> bool" where
  "call_at AtNextMsg evs t cl \<longleftrightarrow> cl = None \<and> pump evs new_pipe = Waiting (taken_pipe t)"
| "call_at (InWrite d m) evs t cl \<longleftrightarrow> cl = None \<and>
     (\<exists>evs' ev t'. evs = evs' @ [ev] \<and> NextMsg ev = Inr m \<and>
       pump evs' new_pipe = Waiting (taken_pipe t') \<and> t @ d = t' @ M_Data m)"
| "call_at (Closing e2 panics) evs t cl \<longleftrightarrow> cl = None \<and>
     (if panics then e2 = None \<and> pump evs new_pipe = Panicked
      else pump evs new_pipe = Ended (close_pipe e2 (taken_pipe t)))"
| "call_at (GivingUp panics) evs t cl \<longleftrightarrow>
     (if panics then cl = Some io_EOF \<and> pump evs new_pipe = Panicked
      else \<exists>q. pump evs new_pipe = Ended q \<and> P_taken q = t \<and> P_closed q = cl \<and> cl \<noteq> None)"
| "call_at Gone evs t cl \<longleftrightarrow>
     (\<exists>q. pump evs new_pipe = Ended q \<and> P_taken q = t \<and> P_closed q = cl \<and> cl \<noteq> None)"

text \<open>The bytes of the last message that are still to be taken.\<close>

fun pending :: "pump_at \<Rightarrow> bytes" where
  "pending (InWrite d m) = d"
| "pending _ = []"

definition call_inv :: "call \<Rightarrow> bool" where
  "call_inv c \<longleftrightarrow> call_at (C_pump c) (C_seen c) (C_taken c) (C_closed c) \<and>
     (C_end c \<noteq> None \<longrightarrow> C_end c = C_closed c) \<and>
     C_taken c @ pending (C_pump c) = concat (map event_data (C_seen c))"

lemma pending_after_write [simp]: "pending (after_write m) = []"
  by (simp add: after_write_def split: option.splits list.splits)

lemma call_inv_new: "call_inv (new_call n sub)"
  by (simp add: call_inv_def new_call_def)

lemma NextMsg_pump_fails:
  "pump evs new_pipe = Waiting q \<Longrightarrow> NextMsg ev = Inl e \<Longrightarrow>
   pump (evs @ [ev]) new_pipe = (if e = ErrTimeout then Waiting q else Ended (close_pipe (Some e) q))"
  by (simp add: pump_append)

lemma NextMsg_pump_message:
  assumes "pump evs new_pipe = Waiting (taken_pipe t)" "NextMsg ev = Inr m"
  shows "call_at (after_write m) (evs @ [ev]) (t @ M_Data m) None"
  using assms by (auto simp: pump_append after_write_def split: option.splits list.splits)

lemma call_step_inv:
  assumes "call_step c c'" "call_inv c"
  shows "call_inv c'"
  using assms
proof (cases rule: call_step.cases)
  case (next_fails ev e)
  then show ?thesis using assms(2) NextMsg_pump_fails [OF _ next_fails(3)] NextMsg_Inl [OF next_fails(3)]
    by (auto simp: call_inv_def)
next
  case (next_message ev m)
  then show ?thesis using assms(2) by (auto simp: call_inv_def NextMsg_Inr)
next
  case (hand_over d m n)
  from assms(2) hand_over(2) obtain evs' ev t' where c: "C_closed c = None" "C_seen c = evs' @ [ev]"
    "NextMsg ev = Inr m" "pump evs' new_pipe = Waiting (taken_pipe t')" "C_taken c @ d = t' @ M_Data m"
    by (auto simp: call_inv_def)
  show ?thesis
  proof (cases "drop n d = []")
    case True
    then have "C_taken c @ take n d = t' @ M_Data m" using c(5) by simp
    with NextMsg_pump_message [OF c(4,3)] True show ?thesis
      using assms(2) hand_over(1,2) c(1,2) by (simp add: call_inv_def)
  next
    case False
    then show ?thesis using assms(2) hand_over(1,2) c by (auto simp: call_inv_def)
  qed
next
  case (close e2 panics)
  then show ?thesis using assms(2)
    by (auto simp: call_inv_def close_pipe_def split: if_splits option.splits)
qed (auto simp: call_inv_def)

lemma call_steps_inv: "call_step\<^sup>*\<^sup>* c c' \<Longrightarrow> call_inv c \<Longrightarrow> call_inv c'"
  by (induction rule: rtranclp_induct) (auto intro: call_step_inv)

lemma call_then: "call_step c c1 \<Longrightarrow> call_step\<^sup>*\<^sup>* c1 c2 \<Longrightarrow> call_step\<^sup>*\<^sup>* c c2"
  by (rule converse_rtranclp_into_rtranclp)

lemma call_step_frame:
  assumes "call_step c c'"
  shows "C_names c' = C_names c" "C_sub c' = C_sub c" "C_pump c' = Gone \<longleftrightarrow> C_pump c = Gone"
proof -
  have "after_write m \<noteq> Gone" for m by (simp add: after_write_def split: option.splits list.splits)
  then show "C_names c' = C_names c" "C_sub c' = C_sub c" "C_pump c' = Gone \<longleftrightarrow> C_pump c = Gone"
    using assms by (auto elim!: call_stepE split: if_splits)
qed

text \<open>A write to a reader that will not read again never returns.\<close>

lemma departed_stuck:
  "C_pump c = InWrite d m \<Longrightarrow> C_reader c = Departed \<Longrightarrow> \<not> call_step c c'"
  by (auto elim!: call_stepE)

lemma departed_stuck_steps:
  "call_step\<^sup>*\<^sup>* c c' \<Longrightarrow> C_pump c = InWrite d m \<Longrightarrow> C_reader c = Departed \<Longrightarrow> c' = c"
  by (induction rule: converse_rtranclp_induct) (auto dest: departed_stuck)

section \<open>A reader that keeps reading gets everything\<close>

lemma write_whole:
  assumes "C_pump c = InWrite d m" "C_reader c \<noteq> Departed"
  shows "call_step\<^sup>*\<^sup>* c (c\<lparr>C_taken := C_taken c @ d, C_reader := Computing, C_pump := after_write m\<rparr>)"
proof -
  have fresh: "call_step\<^sup>*\<^sup>* c (c\<lparr>C_taken := C_taken c @ d, C_reader := Computing, C_pump := after_write m\<rparr>)"
    if "C_pump c = InWrite d m" "C_reader c = Computing" for c d
  proof -
    let ?c = "c\<lparr>C_reader := InRead (Suc (length d))\<rparr>"
    have "call_step c ?c" by (rule call_step.read [OF that(2)]) simp
    moreover have "call_step ?c (c\<lparr>C_taken := C_taken c @ d, C_reader := Computing, C_pump := after_write m\<rparr>)"
      using call_step.hand_over [of ?c d m "Suc (length d)"] that(1) by simp
    ultimately show ?thesis by (rule call_then [OF _ r_into_rtranclp])
  qed
  show ?thesis
  proof (cases "C_reader c")
    case (InRead n)
    let ?c = "c\<lparr>C_taken := C_taken c @ take n d, C_reader := Computing,
      C_pump := (if drop n d = [] then after_write m else InWrite (drop n d) m)\<rparr>"
    have s: "call_step c ?c" by (rule call_step.hand_over [OF assms(1) InRead])
    show ?thesis
    proof (cases "drop n d = []")
      case True
      then show ?thesis using s by (auto simp: r_into_rtranclp)
    next
      case False
      then have "call_step\<^sup>*\<^sup>* ?c (?c\<lparr>C_taken := C_taken ?c @ drop n d, C_reader := Computing, C_pump := after_write m\<rparr>)"
        by (intro fresh) simp_all
      then have "call_step\<^sup>*\<^sup>* c (?c\<lparr>C_taken := C_taken ?c @ drop n d, C_reader := Computing, C_pump := after_write m\<rparr>)"
        by (rule call_then [OF s])
      then show ?thesis by simp
    qed
  qed (use assms fresh in auto)
qed

lemma end_run:
  assumes "C_closed c = Some e" "C_reader c \<noteq> Departed"
  shows "call_step\<^sup>*\<^sup>* c (c\<lparr>C_end := Some e, C_reader := Computing\<rparr>)"
proof -
  have reading: "call_step c (c\<lparr>C_end := Some e, C_reader := Computing\<rparr>)"
    if "C_closed c = Some e" "C_reader c = InRead n" for c n
    by (rule call_step.read_end [OF that(2,1)])
  show ?thesis
  proof (cases "C_reader c")
    case Computing
    have "call_step c (c\<lparr>C_reader := InRead 1\<rparr>)" by (rule call_step.read [OF Computing]) simp
    moreover have "call_step\<^sup>*\<^sup>* (c\<lparr>C_reader := InRead 1\<rparr>) (c\<lparr>C_end := Some e, C_reader := Computing\<rparr>)"
      using reading [of "c\<lparr>C_reader := InRead 1\<rparr>" 1] assms(1) by simp
    ultimately show ?thesis by (rule call_then)
  qed (use assms reading in blast)+
qed

lemma close_run:
  assumes "C_pump c = Closing e2 False" "C_reader c \<noteq> Departed"
  shows "call_step\<^sup>*\<^sup>* c (c\<lparr>C_closed := P_closed (close_pipe e2 p), C_end := P_closed (close_pipe e2 p),
    C_pump := GivingUp False, C_reader := Computing\<rparr>)"
proof -
  let ?e = "case e2 of Some e \<Rightarrow> e | None \<Rightarrow> io_EOF"
  let ?c1 = "c\<lparr>C_closed := Some ?e, C_pump := GivingUp False\<rparr>"
  have "call_step c ?c1" by (rule call_step.close [OF assms(1)])
  moreover have "call_step\<^sup>*\<^sup>* ?c1 (?c1\<lparr>C_end := Some ?e, C_reader := Computing\<rparr>)"
    using assms(2) by (intro end_run) simp_all
  ultimately have "call_step\<^sup>*\<^sup>* c (?c1\<lparr>C_end := Some ?e, C_reader := Computing\<rparr>)" by (rule call_then)
  moreover have "?c1\<lparr>C_end := Some ?e, C_reader := Computing\<rparr> = c\<lparr>C_closed := P_closed (close_pipe e2 p),
      C_end := P_closed (close_pipe e2 p), C_pump := GivingUp False, C_reader := Computing\<rparr>"
    by (cases c) (simp add: close_pipe_def)
  ultimately show ?thesis by simp
qed

text \<open>What the pump does alone is what a call can do.\<close>

abbreviation ended_call :: "pipe \<Rightarrow> sub_event list \<Rightarrow> call \<Rightarrow> call" where
  "ended_call q evs c \<equiv> c\<lparr>C_seen := C_seen c @ evs, C_taken := P_taken q, C_closed := P_closed q,
     C_end := P_closed q, C_pump := GivingUp False, C_reader := Computing\<rparr>"

lemma pump_is_run:
  assumes "pump evs (taken_pipe (C_taken c)) = Ended q" "C_pump c = AtNextMsg" "C_reader c \<noteq> Departed"
  shows "\<exists>evs1 evs2. evs = evs1 @ evs2 \<and> pump evs1 (taken_pipe (C_taken c)) = Ended q \<and>
    call_step\<^sup>*\<^sup>* c (ended_call q evs1 c)"
  using assms
proof (induction evs arbitrary: c)
  case (Cons ev evs)
  show ?case
  proof (cases "NextMsg ev")
    case (Inl e)
    let ?c = "c\<lparr>C_seen := C_seen c @ [ev], C_pump := (if e = ErrTimeout then AtNextMsg else Closing (Some e) False)\<rparr>"
    have s: "call_step c ?c" by (rule call_step.next_fails [OF Cons.prems(2) Inl])
    show ?thesis
    proof (cases "e = ErrTimeout")
      case True
      then obtain evs1 evs2 where "evs = evs1 @ evs2" "pump evs1 (taken_pipe (C_taken ?c)) = Ended q"
        "call_step\<^sup>*\<^sup>* ?c (ended_call q evs1 ?c)"
        using Cons.IH [of ?c] Cons.prems Inl by auto
      then show ?thesis using s True Inl
        by (intro exI [of _ "ev # evs1"] exI [of _ evs2]) (auto intro: call_then)
    next
      case False
      then have q: "q = close_pipe (Some e) (taken_pipe (C_taken c))" using Cons.prems(1) Inl by simp
      have "call_step\<^sup>*\<^sup>* ?c (?c\<lparr>C_closed := P_closed q, C_end := P_closed q, C_pump := GivingUp False,
          C_reader := Computing\<rparr>)"
        unfolding q by (rule close_run) (use False Cons.prems(3) in simp_all)
      then have "call_step\<^sup>*\<^sup>* c (?c\<lparr>C_closed := P_closed q, C_end := P_closed q, C_pump := GivingUp False,
          C_reader := Computing\<rparr>)"
        by (rule call_then [OF s])
      then show ?thesis using q False Inl
        by (intro exI [of _ "[ev]"] exI [of _ evs]) (simp add: new_pipe_def)
    qed
  next
    case (Inr m)
    let ?c = "c\<lparr>C_seen := C_seen c @ [ev], C_pump := InWrite (M_Data m) m\<rparr>"
    let ?c1 = "?c\<lparr>C_taken := C_taken c @ M_Data m, C_reader := Computing, C_pump := after_write m\<rparr>"
    have "call_step c ?c" by (rule call_step.next_message [OF Cons.prems(2) Inr])
    moreover have "call_step\<^sup>*\<^sup>* ?c ?c1" using write_whole [of ?c "M_Data m" m] Cons.prems(3) by simp
    ultimately have s: "call_step\<^sup>*\<^sup>* c ?c1" by (rule call_then)
    show ?thesis
    proof (cases "map_of (M_Header m) HeaderKeyDone")
      case None
      then obtain evs1 evs2 where evs: "evs = evs1 @ evs2" "pump evs1 (taken_pipe (C_taken ?c1)) = Ended q"
        and run: "call_step\<^sup>*\<^sup>* ?c1 (ended_call q evs1 ?c1)"
        using Cons.IH [of ?c1] Cons.prems Inr by (auto simp: after_write_def)
      have "call_step\<^sup>*\<^sup>* c (ended_call q (ev # evs1) c)" using rtranclp_trans [OF s run] by simp
      with evs None Inr show ?thesis by (intro exI [of _ "ev # evs1"] exI [of _ evs2]) simp
    next
      case (Some vs)
      then obtain v us where v: "vs = v # us" using Cons.prems(1) Inr by (cases vs) auto
      let ?e2 = "if v \<noteq> [] then Some (ErrNew v) else None"
      have q: "q = close_pipe ?e2 (taken_pipe (C_taken c @ M_Data m))"
        using Cons.prems(1) Inr Some v by simp
      have "call_step\<^sup>*\<^sup>* ?c1 (?c1\<lparr>C_closed := P_closed q, C_end := P_closed q, C_pump := GivingUp False,
          C_reader := Computing\<rparr>)"
        unfolding q by (rule close_run) (use Some v in \<open>simp_all add: after_write_def\<close>)
      note run = rtranclp_trans [OF s this]
      have "P_taken q = C_taken c @ M_Data m" using q by (simp add: new_pipe_def)
      with run show ?thesis using q Some v Inr by (intro exI [of _ "[ev]"] exI [of _ evs]) simp
    qed
  qed
qed simp

text \<open>
  Whatever a call and its reader have done so far: as long as the reader has not departed, the
  events that end the pump can still end the call.
\<close>

lemma call_can_end:
  assumes "call_inv c" "C_reader c \<noteq> Departed" "C_pump c \<noteq> Gone" "pump (C_seen c @ evs) new_pipe = Ended q"
  shows "\<exists>evs1 evs2. evs = evs1 @ evs2 \<and> call_step\<^sup>*\<^sup>* c (ended_call q evs1 c)"
proof -
  have next_msg: ?thesis
    if c1: "call_step\<^sup>*\<^sup>* c c1" "C_pump c1 = AtNextMsg" "C_reader c1 \<noteq> Departed" "C_seen c1 = C_seen c"
      "pump (C_seen c) new_pipe = Waiting (taken_pipe (C_taken c1))" "\<And>evs. ended_call q evs c1 = ended_call q evs c" for c1
  proof -
    have "pump evs (taken_pipe (C_taken c1)) = Ended q" using assms(4) c1(5) by (simp add: pump_append)
    from pump_is_run [OF this c1(2,3)] c1(1,6) show ?thesis by (metis rtranclp_trans)
  qed
  have closing: ?thesis
    if c1: "call_step\<^sup>*\<^sup>* c c1" "C_pump c1 = Closing e2 False" "C_reader c1 \<noteq> Departed" "C_seen c1 = C_seen c"
      "pump (C_seen c) new_pipe = Ended (close_pipe e2 (taken_pipe (C_taken c1)))"
      "\<And>evs. ended_call q evs c1 = ended_call q evs c" for c1 e2
  proof -
    have q: "q = close_pipe e2 (taken_pipe (C_taken c1))" using assms(4) c1(5) by (simp add: pump_append)
    have "call_step\<^sup>*\<^sup>* c1 (c1\<lparr>C_closed := P_closed q, C_end := P_closed q, C_pump := GivingUp False,
        C_reader := Computing\<rparr>)"
      unfolding q by (rule close_run [OF c1(2,3)])
    also have "c1\<lparr>C_closed := P_closed q, C_end := P_closed q, C_pump := GivingUp False, C_reader := Computing\<rparr> =
        ended_call q [] c1"
      using q by (cases c1) (simp add: new_pipe_def)
    finally have "call_step\<^sup>*\<^sup>* c (ended_call q [] c)"
      unfolding c1(6) by (rule rtranclp_trans [OF c1(1)])
    then show ?thesis by (intro exI [of _ "[]"] exI [of _ evs]) simp
  qed
  have inv: "call_at (C_pump c) (C_seen c) (C_taken c) (C_closed c)" using assms(1) by (simp add: call_inv_def)
  show ?thesis
  proof (cases "C_pump c")
    case AtNextMsg
    then show ?thesis using next_msg [of c] inv assms(2) by simp
  next
    case (InWrite d m)
    let ?c1 = "c\<lparr>C_taken := C_taken c @ d, C_reader := Computing, C_pump := after_write m\<rparr>"
    have s: "call_step\<^sup>*\<^sup>* c ?c1" by (rule write_whole [OF InWrite assms(2)])
    then have "call_inv ?c1" by (rule call_steps_inv [OF _ assms(1)])
    then have "call_at (C_pump ?c1) (C_seen ?c1) (C_taken ?c1) (C_closed ?c1)"
      unfolding call_inv_def by blast
    then have i: "call_at (after_write m) (C_seen c) (C_taken c @ d) (C_closed c)" by simp
    show ?thesis
    proof (cases "after_write m")
      case AtNextMsg
      then show ?thesis using next_msg [OF s] i by simp
    next
      case (Closing e2 panics)
      then show ?thesis using closing [OF s, of e2] i assms(4) by (cases panics) (auto simp: pump_append)
    qed (auto simp: after_write_def split: option.splits list.splits)
  next
    case (Closing e2 panics)
    then show ?thesis using closing [of c e2] inv assms(2,4) by (cases panics) (auto simp: pump_append)
  next
    case (GivingUp panics)
    then obtain e where e: "panics = False" "C_closed c = Some e" "pump (C_seen c) new_pipe = Ended q"
      "C_taken c = P_taken q" "P_closed q = Some e"
      using inv assms(4) by (auto simp: pump_append split: if_splits)
    have "call_step\<^sup>*\<^sup>* c (c\<lparr>C_end := Some e, C_reader := Computing\<rparr>)"
      by (rule end_run [OF e(2) assms(2)])
    also have "c\<lparr>C_end := Some e, C_reader := Computing\<rparr> = ended_call q [] c"
      using e GivingUp by (cases c) simp
    finally show ?thesis by (intro exI [of _ "[]"] exI [of _ evs]) simp
  qed (use assms(3) in simp)
qed

section \<open>The interleaved process refines the one whose pumps run at once\<close>

definition running :: "(nat \<times> call) list \<Rightarrow> (nat \<times> names \<times> subscription) list" where
  "running cs = map (\<lambda>(i, c). (i, C_names c, C_sub c)) (filter (\<lambda>(i, c). C_pump c \<noteq> Gone) cs)"

definition to_hub :: "client \<Rightarrow> hub" where
  "to_hub s = \<lparr>H_conn = Cl_conn s, H_issued = Cl_issued s, H_active = running (Cl_calls s)\<rparr>"

definition client_inv :: "client \<Rightarrow> bool" where
  "client_inv s \<longleftrightarrow> distinct (map fst (Cl_calls s)) \<and>
     (\<forall>(i, c) \<in> set (Cl_calls s). i < Cl_issued s \<and> call_inv c)"

lemma client_invD:
  "client_inv s \<Longrightarrow> (i, c) \<in> set (Cl_calls s) \<Longrightarrow> i < Cl_issued s \<and> call_inv c"
  by (auto simp: client_inv_def)

lemma fst_put_call [simp]: "map fst (put_call i c cs) = map fst cs"
  by (induction cs) (auto simp: put_call_def)

lemma in_put_call: "(j, b) \<in> set (put_call i c cs) \<Longrightarrow> j = i \<and> b = c \<or> j \<noteq> i \<and> (j, b) \<in> set cs"
  by (auto simp: put_call_def split: if_splits)

lemma put_call_here: "(i, b) \<in> set cs \<Longrightarrow> (i, c) \<in> set (put_call i c cs)"
  by (force simp: put_call_def)

lemma put_call_there: "j \<noteq> i \<Longrightarrow> (j, b) \<in> set cs \<Longrightarrow> (j, b) \<in> set (put_call i c cs)"
  by (force simp: put_call_def)

lemma put_call_notin: "i \<notin> fst ` set cs \<Longrightarrow> put_call i c cs = cs"
  by (induction cs) (auto simp: put_call_def)

lemma put_call_Cons: "put_call i c ((j, b) # cs) = (j, if j = i then c else b) # put_call i c cs"
  by (simp add: put_call_def)

lemma running_put_call:
  assumes "distinct (map fst cs)" "(i, c) \<in> set cs" "C_names c' = C_names c" "C_sub c' = C_sub c"
    "C_pump c' = Gone \<longleftrightarrow> C_pump c = Gone"
  shows "running (put_call i c' cs) = running cs"
  using assms
proof (induction cs)
  case (Cons a cs)
  obtain j b where a: "a = (j, b)" by force
  show ?case
  proof (cases "j = i")
    case True
    then have i: "i \<notin> fst ` set cs" using Cons.prems(1) a by auto
    then have "b = c" using Cons.prems(2) a True by force
    then show ?thesis
      using Cons.prems(3-5) a True put_call_notin [OF i] by (simp add: running_def put_call_Cons)
  next
    case False
    then have "running (put_call i c' cs) = running cs" using Cons a by auto
    then show ?thesis using a False by (simp add: running_def put_call_Cons)
  qed
qed simp

lemma running_gone':
  assumes "distinct (map fst cs)" "(i, c) \<in> set cs" "C_pump c' = Gone" "C_pump c \<noteq> Gone"
  shows "running (put_call i c' cs) = filter (\<lambda>x. fst x \<noteq> i) (running cs)"
  using assms
proof (induction cs)
  case (Cons a cs)
  obtain j b where a: "a = (j, b)" by force
  show ?case
  proof (cases "j = i")
    case True
    then have i: "i \<notin> fst ` set cs" using Cons.prems(1) a by auto
    then have "filter (\<lambda>x. fst x \<noteq> i) (running cs) = running cs"
      by (force simp: running_def filter_id_conv)
    moreover have "b = c" using Cons.prems(2) a True i by force
    moreover have "running (put_call i c' (a # cs)) = running cs"
      using Cons.prems(3) a True put_call_notin [OF i] by (simp add: running_def put_call_Cons)
    moreover have "running (a # cs) = (i, C_names b, C_sub b) # running cs" if "C_pump b \<noteq> Gone"
      using that a True by (simp add: running_def)
    ultimately show ?thesis using Cons.prems(4) by simp
  next
    case False
    then have "running (put_call i c' cs) = filter (\<lambda>x. fst x \<noteq> i) (running cs)" using Cons a by auto
    then show ?thesis using a False by (simp add: running_def put_call_Cons)
  qed
qed simp

lemma running_gone:
  assumes "distinct (map fst cs)" "(i, c) \<in> set cs" "C_pump c' = Gone" "C_pump c \<noteq> Gone"
  shows "running (put_call i c' cs) = filter (\<lambda>(j, _, _). j \<noteq> i) (running cs)"
  using running_gone' [OF assms] by (simp add: split_def)

lemma in_running: "(i, c) \<in> set cs \<Longrightarrow> C_pump c \<noteq> Gone \<Longrightarrow> (i, C_names c, C_sub c) \<in> set (running cs)"
  by (force simp: running_def)

lemma client_inv_put:
  assumes "client_inv \<lparr>Cl_conn = nc, Cl_issued = k, Cl_calls = cs\<rparr>" "(i, c) \<in> set cs" "call_inv c'"
  shows "client_inv \<lparr>Cl_conn = nc', Cl_issued = k, Cl_calls = put_call i c' cs\<rparr>"
  using assms by (auto simp: client_inv_def dest!: in_put_call)

lemma client_step_inv:
  assumes "client_inv s" "client_step env c0 s t"
  shows "client_inv t"
  using assms(2,1)
proof cases
  case (send t' n data nc k sub nc' ctr' cs)
  then show ?thesis using assms(1) call_inv_new by (auto simp: client_inv_def)
next
  case (send_fails t' n data nc k e nc' ctr' cs)
  then show ?thesis using assms(1) by (auto simp: client_inv_def)
next
  case (inside i c cs c' nc k)
  then have "call_inv c'" using assms(1) call_step_inv client_invD [OF assms(1), of i c] by simp
  then show ?thesis using client_inv_put [of nc k cs i c c' nc] assms(1) inside by simp
next
  case (give_up i c cs nc k)
  then have "call_inv (c\<lparr>C_pump := Gone\<rparr>)"
    using client_invD [OF assms(1), of i c] by (auto simp: call_inv_def)
  then show ?thesis using client_inv_put [of nc k cs i c] assms(1) give_up by simp
qed

interpretation client_machine: invariant_machine client_start "client_step env c0" client_inv
  for env c0
  by unfold_locales (simp add: client_start_def client_inv_def, rule client_step_inv)

lemma client_step_refines:
  assumes "client_inv s" "client_step env c0 s t"
  shows "to_hub t = to_hub s \<or> hub_step env c0 (to_hub s) (to_hub t)"
  using assms(2)
proof cases
  case (send t' n data nc k sub nc' ctr' cs)
  have "to_hub t = \<lparr>H_conn = nc', H_issued = Suc k, H_active = running cs @ [(k, n, sub)]\<rparr>"
    using send by (simp add: to_hub_def running_def new_call_def)
  then show ?thesis using hub_step.send [OF send(3)] send(1) by (simp add: to_hub_def)
next
  case (send_fails t' n data nc k e nc' ctr' cs)
  then show ?thesis using hub_step.send_fails [OF send_fails(3)] by (simp add: to_hub_def)
next
  case (inside i c cs c' nc k)
  then show ?thesis
    using running_put_call [of cs i c c'] call_step_frame [OF inside(4)] assms(1)
    by (simp add: to_hub_def client_inv_def)
next
  case (give_up i c cs nc k)
  have "call_inv c" using client_invD [OF assms(1), of i c] give_up by simp
  then obtain q where "pump (C_seen c) new_pipe = Ended q" using give_up(4) by (auto simp: call_inv_def)
  then have r: "Proxy_receive (C_sub c) (C_seen c) nc = (Ended q, snd (Unsubscribe (C_sub c) nc))"
    by (simp add: Proxy_receive_def)
  have "(i, C_names c, C_sub c) \<in> set (running cs)" using in_running give_up(3,4) by simp
  from hub_step.finish [OF this r] show ?thesis
    using running_gone [of cs i c "c\<lparr>C_pump := Gone\<rparr>"] give_up assms(1)
    by (simp add: to_hub_def client_inv_def)
qed

lemma client_steps_refine:
  assumes "(client_step env c0)\<^sup>*\<^sup>* s t" "client_inv s"
  shows "(hub_step env c0)\<^sup>*\<^sup>* (to_hub s) (to_hub t)"
  using assms
proof (induction rule: rtranclp_induct)
  case (step t u)
  then have "client_inv t" using client_machine.steps_inv by blast
  from client_step_refines [OF this step.hyps(2)] step show ?case
    by (metis rtranclp.rtrancl_into_rtrancl)
qed simp

section \<open>A response that fills the edge's buffer exactly\<close>

text \<open>
  \<open>http.Response.Write\<close> writes the header and copies the body. When the two fill the
  buffer exactly, it is flushed before the body's end is seen, so the mark goes out on a message
  of its own, without data.
\<close>

lemma exact_fill:
  assumes "pooled w0" "healthy M nc" "validateSubject reply" "bufferSize + done_overhead \<le> M"
    "list_all plain_write hs" "reader_clean body"
    "length (ops_bytes hs) + length (reader_bytes body) = bufferSize"
  shows "\<exists>w'. write_response (hs @ [ReadFromOp body]) None w0 reply nc = Some ([], w') \<and>
    outbox (NW_nc (sink w')) =
      outbox nc @ [data_message reply (ops_bytes hs @ reader_bytes body), done_message reply [] []]"
proof -
  let ?s = "\<lparr>NW_nc = nc, NW_subj = reply, NW_final = False\<rparr>"
  let ?w = "Reset ?s w0" and ?h = "ops_bytes hs" and ?b = "reader_bytes body"
  have size: "bsize ?w = bufferSize" "berr ?w = None" "buf ?w = []" "sink ?w = ?s"
    using assms(1) by (simp_all add: pooled_def Reset_def)
  have big: "0 < bufferSize" by (simp add: bufferSize_def)
  have full: "length (?h @ ?b) = bufferSize" using assms(7) by simp
  then have some: "?h @ ?b \<noteq> []" using big by (metis list.size(3) less_irrefl)
  have hdr: "length (headerBytes [(HeaderKeyDone, [[]])]) \<le> done_overhead"
    by (simp add: done_overhead_def)
  obtain nc1 where pub: "publish reply [] False [] (?h @ ?b) nc = (None, nc1)"
    using healthy_publish [OF assms(2,3), of "[]" "?h @ ?b" nc] assms(4) full
    by (metis add_leD1 add_0 list.size(3) prod.collapse)
  have out1: "outbox nc1 = outbox nc @ [data_message reply (?h @ ?b)]"
    using publish_plain_outbox [OF pub] by simp
  have st1: "status_at nc1 = status_at nc"
    using publish_frame(1) [of reply "[]" False "[]" "?h @ ?b" nc] pub by simp
  let ?s1 = "?s\<lparr>NW_nc := nc1\<rparr>"
  have op1: "do_ops natsWriter_Write (hs @ [ReadFromOp body]) None ?w =
      do_ops natsWriter_Write [ReadFromOp body] None (?w\<lparr>buf := ?h\<rparr>)"
    using writes_fit [of ?w hs natsWriter_Write] size assms(5,7) by simp
  have fl: "Flush natsWriter_Write (?w\<lparr>buf := ?h @ ?b\<rparr>) = (None, ?w\<lparr>buf := [], sink := ?s1\<rparr>)"
    using size some pub unfolding Flush_def by (simp del: append_is_Nil_conv add: natsWriter_Write_plain)
  have "ReadFrom_loop natsWriter_Write body (?w\<lparr>buf := ?h\<rparr>) = Some (None, ?w\<lparr>buf := [], sink := ?s1\<rparr>)"
    by (rule ReadFrom_fill [OF assms(6)]) (use size fl full big in simp_all)
  then have op2: "bufio_ReadFrom natsWriter_Write body (?w\<lparr>buf := ?h\<rparr>) =
      Some (None, ?w\<lparr>buf := [], sink := ?s1\<rparr>)"
    using size by (simp add: bufio_ReadFrom_def)
  obtain nc2 where mark: "PublishMsg reply [] [(HeaderKeyDone, [[]])] [] nc1 = (None, nc2)"
    using healthy_publish [OF assms(2,3), of "headerBytes [(HeaderKeyDone, [[]])]" "[]" nc1] assms(4) hdr st1
    by (simp add: PublishMsg_def) (metis add.commute le_trans list.size(3) add_0 le_add2 prod.collapse)
  have "finish_response None (set_final (?w\<lparr>buf := [], sink := ?s1\<rparr>)) =
      ([], (set_final (?w\<lparr>buf := [], sink := ?s1\<rparr>))\<lparr>sink := ?s1\<lparr>NW_final := True, NW_nc := nc2\<rparr>\<rparr>)"
    using mark by (simp add: finish_response_def set_final_def natsWriter_Write_def)
  then have "write_response (hs @ [ReadFromOp body]) None w0 reply nc =
      Some ([], (set_final (?w\<lparr>buf := [], sink := ?s1\<rparr>))\<lparr>sink := ?s1\<lparr>NW_final := True, NW_nc := nc2\<rparr>\<rparr>)"
    by (simp add: write_response_def op1 op2)
  then show ?thesis using publish_done_outbox [OF mark] out1 by simp
qed

section \<open>Properties\<close>

lemma call_inv_end:
  assumes "call_inv c" "C_end c = Some e"
  shows "C_taken c = concat (map event_data (C_seen c)) \<and>
    (pump (C_seen c) new_pipe = Panicked \<and> e = io_EOF \<or>
     (\<exists>q. pump (C_seen c) new_pipe = Ended q \<and> P_taken q = C_taken c \<and> P_closed q = Some e))"
proof -
  have "C_closed c = Some e" using assms by (simp add: call_inv_def)
  with assms show ?thesis by (cases "C_pump c") (auto simp: call_inv_def split: if_splits)
qed

text \<open>C4: The interleaved client refines the one whose pumps run alone and at once. Whatever the order of
  the steps of all the pumps and readers, every state reached is, seen from the connection and its
  subscriptions, a state of the process whose calls end in one step. In it every reader has a
  beginning of the data of the messages its own pump met, in order, and the end of the pipe only
  after all of them: exactly the data and the end that \<open>pump\<close> gives for these events (or the
  process is about to end by a panic).\<close>

theorem interleaved_calls_refine:
  assumes "client_start s0" "(client_step env c0)\<^sup>*\<^sup>* s0 s"
  shows "(hub_step env c0)\<^sup>*\<^sup>* (to_hub s0) (to_hub s) \<and>
    (\<forall>(i, c) \<in> set (Cl_calls s). prefix (C_taken c) (concat (map event_data (C_seen c))) \<and>
      (\<forall>e. C_end c = Some e \<longrightarrow> C_taken c = concat (map event_data (C_seen c)) \<and>
        (pump (C_seen c) new_pipe = Panicked \<and> e = io_EOF \<or>
         (\<exists>q. pump (C_seen c) new_pipe = Ended q \<and> P_taken q = C_taken c \<and> P_closed q = Some e))))"
proof
  have "client_inv s0" using assms(1) by (simp add: client_start_def client_inv_def)
  then show "(hub_step env c0)\<^sup>*\<^sup>* (to_hub s0) (to_hub s)" by (rule client_steps_refine [OF assms(2)])
  have "client_inv s" by (rule client_machine.reachable_inv [OF assms])
  then have "call_inv c" if "(i, c) \<in> set (Cl_calls s)" for i c
    using client_invD [OF _ that] by blast
  moreover have "prefix (C_taken c) (concat (map event_data (C_seen c)))" if "call_inv c" for c
    using that by (metis call_inv_def prefixI)
  ultimately show "\<forall>(i, c) \<in> set (Cl_calls s). prefix (C_taken c) (concat (map event_data (C_seen c))) \<and>
      (\<forall>e. C_end c = Some e \<longrightarrow> C_taken c = concat (map event_data (C_seen c)) \<and>
        (pump (C_seen c) new_pipe = Panicked \<and> e = io_EOF \<or>
         (\<exists>q. pump (C_seen c) new_pipe = Ended q \<and> P_taken q = C_taken c \<and> P_closed q = Some e)))"
    using call_inv_end by blast
qed

text \<open>A run of the process with one call, which is made on a live connection.\<close>

lemma one_call:
  fixes d :: bytes
  assumes "healthy M nc" "length d \<le> M" "\<not> badSubject l"
  obtains nc' sub where "client_step env 0 \<lparr>Cl_conn = nc, Cl_issued = 0, Cl_calls = []\<rparr>
    \<lparr>Cl_conn = nc', Cl_issued = Suc 0, Cl_calls = [(0, new_call (CrossAccountNames l) sub)]\<rparr>"
proof -
  obtain sub nc1 c1 where "Proxy_send env 0 (CrossAccountNames l) d nc (0 + of_nat 0) = (Inr sub, nc1, c1)"
    using Proxy_send_healthy(1) [OF assms(1,2), where env = env and t = 0 and n = "CrossAccountNames l" and ctr = "0 + of_nat 0"] assms(3)
    by (metis GetLinkID.simps(1) prod.collapse)
  from client_step.send [OF this, of "[]"] show thesis by (intro that) simp
qed

text \<open>The steps of one call are steps of the process.\<close>

lemma inside_steps:
  assumes "call_step\<^sup>*\<^sup>* c c'"
  shows "(client_step env c0)\<^sup>*\<^sup>* \<lparr>Cl_conn = nc, Cl_issued = k, Cl_calls = [(i, c)]\<rparr>
    \<lparr>Cl_conn = nc, Cl_issued = k, Cl_calls = [(i, c')]\<rparr>"
  using assms
proof (induction rule: rtranclp_induct)
  case (step b d)
  have "client_step env c0 \<lparr>Cl_conn = nc, Cl_issued = k, Cl_calls = [(i, b)]\<rparr>
      \<lparr>Cl_conn = nc, Cl_issued = k, Cl_calls = put_call i d [(i, b)]\<rparr>"
    by (rule client_step.inside [OF _ step.hyps(2)]) simp
  with step.IH show ?case by (simp add: put_call_def)
qed simp

text \<open>A small process: one call on a live connection, whose response is one message.\<close>

definition sample_env :: xid_env where
  "sample_env = \<lparr>machineID = (1, 2, 3), pid = 4\<rparr>"

definition sample_done :: sub_event where
  "sample_done = Arrived \<lparr>M_Reply = [], M_Header = [(HeaderKeyDone, [[]])], M_Data = ''b''\<rparr>"

abbreviation "sample_names \<equiv> CrossAccountNames ''l''"

lemma sample_called:
  obtains nc' sub where "(client_step sample_env 0)\<^sup>*\<^sup>* \<lparr>Cl_conn = live_conn 9, Cl_issued = 0, Cl_calls = []\<rparr>
    \<lparr>Cl_conn = nc', Cl_issued = Suc 0, Cl_calls = [(0, new_call sample_names sub)]\<rparr>"
proof -
  have nb: "\<not> badSubject ''l''" by (simp add: badSubject_def nats_space_def)
  have e: "length ([] :: bytes) \<le> 9" by simp
  obtain nc' sub where "client_step sample_env 0 \<lparr>Cl_conn = live_conn 9, Cl_issued = 0, Cl_calls = []\<rparr>
    \<lparr>Cl_conn = nc', Cl_issued = Suc 0, Cl_calls = [(0, new_call sample_names sub)]\<rparr>"
    using one_call [OF healthy_live_conn [of 9 9] e nb, of sample_env] by auto
  then show thesis using that by blast
qed

lemma sample_start: "client_start \<lparr>Cl_conn = live_conn 9, Cl_issued = 0, Cl_calls = []\<rparr>"
  by (simp add: client_start_def)

theorem interleaved_calls_refine_witness:
  "\<exists>s c. Cl_calls s = [(0, c)] \<and> C_end c = Some io_EOF \<and> C_seen c = [Quiet, sample_done] \<and>
    (hub_step sample_env 0)\<^sup>*\<^sup>* \<lparr>H_conn = live_conn 9, H_issued = 0, H_active = []\<rparr> (to_hub s) \<and>
    C_taken c = ''b''"
proof -
  obtain nc' sub where run: "(client_step sample_env 0)\<^sup>*\<^sup>* \<lparr>Cl_conn = live_conn 9, Cl_issued = 0, Cl_calls = []\<rparr>
    \<lparr>Cl_conn = nc', Cl_issued = Suc 0, Cl_calls = [(0, new_call sample_names sub)]\<rparr>"
    by (rule sample_called)
  let ?c0 = "new_call sample_names sub"
  let ?c1 = "?c0\<lparr>C_seen := [Quiet]\<rparr>"
  have "call_step ?c0 ?c1"
    using call_step.next_fails [of ?c0 Quiet ErrTimeout] by (simp add: new_call_def)
  moreover obtain c where c: "call_step\<^sup>*\<^sup>* ?c1 c" "C_seen c = [Quiet, sample_done]" "C_end c = Some io_EOF"
  proof -
    have "pump [sample_done] (taken_pipe (C_taken ?c1)) = Ended (close_pipe None (taken_pipe ''b''))"
      by (simp add: sample_done_def new_call_def new_pipe_def pipe_write_def header_get_def HeaderKeyDone_def)
    from pump_is_run [OF this] obtain evs1 evs2 where e: "[sample_done] = evs1 @ evs2"
      "pump evs1 (taken_pipe (C_taken ?c1)) = Ended (close_pipe None (taken_pipe ''b''))"
      "call_step\<^sup>*\<^sup>* ?c1 (ended_call (close_pipe None (taken_pipe ''b'')) evs1 ?c1)"
      by (auto simp: new_call_def)
    then have "evs1 = [sample_done]" by (cases evs1) auto
    with that [OF e(3)] show thesis by (simp add: new_call_def close_pipe_def)
  qed
  ultimately have "call_step\<^sup>*\<^sup>* ?c0 c" by (blast intro: call_then)
  from rtranclp_trans [OF run inside_steps [OF this]]
  have s: "(client_step sample_env 0)\<^sup>*\<^sup>* \<lparr>Cl_conn = live_conn 9, Cl_issued = 0, Cl_calls = []\<rparr>
    \<lparr>Cl_conn = nc', Cl_issued = Suc 0, Cl_calls = [(0, c)]\<rparr>" .
  show ?thesis
    using interleaved_calls_refine [OF sample_start s] c(2,3)
    by (intro exI [of _ "\<lparr>Cl_conn = nc', Cl_issued = Suc 0, Cl_calls = [(0, c)]\<rparr>"] exI [of _ c])
      (simp add: to_hub_def running_def sample_done_def)
qed



text \<open>C27: A response that is not read to its end is never given up. Nothing closes the reading side of
  the pipe, so once the pump is in a write and its reader will not read again, because the parser
  failed or the body was closed, then whatever else the process does the pump stays in that
  write; and its subscription stays on the connection, as long as that is open and the process has
  sent at most \<open>2 ^ 24\<close> requests.\<close>

theorem departed_reader_leaks:
  assumes "client_start s0" "(client_step env c0)\<^sup>*\<^sup>* s0 s" "(i, c) \<in> set (Cl_calls s)"
    "C_pump c = InWrite d m" "C_reader c = Departed" "(client_step env c0)\<^sup>*\<^sup>* s t"
  shows "(i, c) \<in> set (Cl_calls t) \<and>
    (Cl_issued t \<le> 2 ^ 24 \<and> \<not> closed (status_at (Cl_conn t) (ops (Cl_conn t))) \<longrightarrow>
      C_sub c \<in> set (open_subs (Cl_conn t)))"
proof -
  have stays: "(i, c) \<in> set (Cl_calls u)" if "client_step env c0 v u" "client_inv v" "(i, c) \<in> set (Cl_calls v)" for v u
    using that(1)
  proof cases
    case (inside k b cs b' nc n)
    have "k \<noteq> i"
    proof
      assume "k = i"
      then have "b = c"
        using inside(1,3) that(2,3) by (simp add: client_inv_def) (metis eq_key_imp_eq_value)
      then show False using departed_stuck [OF assms(4,5)] inside(4) by simp
    qed
    then show ?thesis using put_call_there [of i k c cs b'] inside that(3) by simp
  next
    case (give_up k b cs nc n)
    have "k \<noteq> i"
    proof
      assume "k = i"
      then have "b = c"
        using give_up(1,3) that(2,3) by (simp add: client_inv_def) (metis eq_key_imp_eq_value)
      then show False using give_up(4) assms(4) by simp
    qed
    then show ?thesis using put_call_there [of i k c cs] give_up that(3) by simp
  qed (use that(3) in auto)
  have inv: "client_inv s" by (rule client_machine.reachable_inv [OF assms(1,2)])
  from assms(6) have here: "(i, c) \<in> set (Cl_calls t)"
  proof (induction rule: rtranclp_induct)
    case (step v u)
    then show ?case using stays client_machine.steps_inv inv by blast
  qed (rule assms(3))
  have "client_inv s0" "hub_start (to_hub s0)"
    using assms(1) by (simp_all add: client_start_def client_inv_def hub_start_def to_hub_def running_def)
  then have "hub_inv env c0 (to_hub t)"
    using hub_machine.reachable_inv client_steps_refine rtranclp_trans [OF assms(2,6)] by blast
  then have "Cl_issued t \<le> 2 ^ 24 \<longrightarrow> C_sub c \<in> set (subs (Cl_conn t))"
    using hub_invD [of env c0 "to_hub t" i "C_names c" "C_sub c"] in_running [OF here] assms(4)
    by (auto simp: to_hub_def)
  with here show ?thesis by (simp add: open_subs_def)
qed

theorem departed_reader_leaks_witness:
  "\<exists>s c. (client_step sample_env 0)\<^sup>*\<^sup>* \<lparr>Cl_conn = live_conn 9, Cl_issued = 0, Cl_calls = []\<rparr> s \<and>
    Cl_calls s = [(0, c)] \<and> C_pump c = InWrite ''b'' \<lparr>M_Reply = [], M_Header = [(HeaderKeyDone, [[]])], M_Data = ''b''\<rparr> \<and>
    (\<forall>t. (client_step sample_env 0)\<^sup>*\<^sup>* s t \<longrightarrow> (0, c) \<in> set (Cl_calls t) \<and>
       (Cl_issued t \<le> 2 ^ 24 \<and> \<not> closed (status_at (Cl_conn t) (ops (Cl_conn t))) \<longrightarrow>
         C_sub c \<in> set (open_subs (Cl_conn t))))"
proof -
  obtain nc' sub where run: "(client_step sample_env 0)\<^sup>*\<^sup>* \<lparr>Cl_conn = live_conn 9, Cl_issued = 0, Cl_calls = []\<rparr>
    \<lparr>Cl_conn = nc', Cl_issued = Suc 0, Cl_calls = [(0, new_call sample_names sub)]\<rparr>"
    by (rule sample_called)
  let ?c0 = "new_call sample_names sub"
  let ?m = "\<lparr>M_Reply = [], M_Header = [(HeaderKeyDone, [[]])], M_Data = ''b''\<rparr>"
  let ?c1 = "?c0\<lparr>C_seen := [sample_done], C_pump := InWrite ''b'' ?m\<rparr>"
  let ?d = "?c1\<lparr>C_reader := Departed\<rparr>"
  have "call_step ?c0 ?c1"
    using call_step.next_message [of ?c0 sample_done ?m] by (simp add: new_call_def sample_done_def)
  moreover have "call_step\<^sup>*\<^sup>* ?c1 ?d"
    using call_step.depart [of ?c1] by (intro r_into_rtranclp) (simp add: new_call_def)
  ultimately have "call_step\<^sup>*\<^sup>* ?c0 ?d" by (rule call_then)
  from rtranclp_trans [OF run inside_steps [OF this]]
  have s: "(client_step sample_env 0)\<^sup>*\<^sup>* \<lparr>Cl_conn = live_conn 9, Cl_issued = 0, Cl_calls = []\<rparr>
    \<lparr>Cl_conn = nc', Cl_issued = Suc 0, Cl_calls = [(0, ?d)]\<rparr>" .
  show ?thesis
    using s departed_reader_leaks [OF sample_start s, of 0 ?d "''b''" ?m]
    by (intro exI [of _ "\<lparr>Cl_conn = nc', Cl_issued = Suc 0, Cl_calls = [(0, ?d)]\<rparr>"] exI [of _ ?d]) simp
qed

text \<open>C26: As long as its reader keeps reading, a call can end. Whatever the steps of the pump and
  the reader have been, and whatever was left half written: when the messages still to come end
  the response, some continuation brings the call to its end, in which the reader has exactly the
  data and the end that the pump gives for all the messages, and the subscription is about to be
  given up.\<close>

theorem reading_call_ends:
  assumes "call_step\<^sup>*\<^sup>* (new_call n sub) c" "C_reader c \<noteq> Departed"
    "pump (C_seen c @ evs) new_pipe = Ended q"
  shows "\<exists>c' evs1 evs2. evs = evs1 @ evs2 \<and> call_step\<^sup>*\<^sup>* c c' \<and> C_seen c' = C_seen c @ evs1 \<and>
    C_pump c' = GivingUp False \<and> C_taken c' = P_taken q \<and> C_end c' = P_closed q"
proof -
  have "call_inv c" by (rule call_steps_inv [OF assms(1) call_inv_new])
  moreover have "C_pump c \<noteq> Gone"
    using assms(1) by (induction rule: rtranclp_induct) (auto simp: call_step_frame new_call_def)
  ultimately obtain evs1 evs2 where "evs = evs1 @ evs2" "call_step\<^sup>*\<^sup>* c (ended_call q evs1 c)"
    using call_can_end assms(2,3) by blast
  then show ?thesis by (intro exI [of _ "ended_call q evs1 c"] exI [of _ evs1] exI [of _ evs2]) simp
qed

theorem reading_call_ends_witness:
  "\<exists>c :: call. C_seen c = [sample_done] \<and> C_pump c = GivingUp False \<and> C_taken c = ''b'' \<and> C_end c = Some io_EOF"
proof -
  let ?c = "new_call sample_names \<lparr>S_Subject = ''s'', S_Queue = [], S_Kind = SyncSubscription\<rparr>"
  let ?q = "close_pipe None (taken_pipe ''b'')"
  have p: "pump (C_seen ?c @ [sample_done]) new_pipe = Ended ?q"
    by (simp add: sample_done_def new_call_def new_pipe_def pipe_write_def header_get_def HeaderKeyDone_def)
  have r: "C_reader ?c \<noteq> Departed" by (simp add: new_call_def)
  from reading_call_ends [OF rtranclp.rtrancl_refl r p] obtain c' evs1 evs2 where c:
    "[sample_done] = evs1 @ evs2" "call_step\<^sup>*\<^sup>* ?c c'" "C_seen c' = evs1" "C_pump c' = GivingUp False"
    "C_taken c' = ''b''" "C_end c' = Some io_EOF"
    by (auto simp: new_call_def close_pipe_def)
  moreover have "C_taken c' = concat (map event_data (C_seen c'))"
    using call_steps_inv [OF c(2) call_inv_new] c(4) by (simp add: call_inv_def)
  ultimately have "evs1 = [sample_done]" by (cases evs1) auto
  with c show ?thesis by blast
qed

text \<open>C28: A response may be read whole and still never be given up. When its header, written in any
  number of pieces, and its body, copied after it in any number of reads, fill the edge's buffer
  exactly, the mark comes in a message without data; a reader that knows the body's
  length has everything before it and reads no more. The pump is then in a write of nothing,
  which waits for a reader as any other does: the call takes no further step.\<close>

theorem whole_response_leaks:
  assumes "pooled w0" "healthy M nc" "validateSubject reply" "bufferSize + done_overhead \<le> M"
    "message_calls env data = Some (hs @ [ReadFromOp body], None)"
    "list_all plain_write hs" "reader_clean body"
    "length (ops_bytes hs) + length (reader_bytes body) = bufferSize"
  shows "\<exists>ms c. edge_messages env w0 data reply nc = Some ms \<and> call_step\<^sup>*\<^sup>* (new_call n sub) c \<and>
    C_seen c = arrivals ms \<and> C_taken c = ops_bytes hs @ reader_bytes body \<and> C_closed c = None \<and>
    (\<forall>c'. call_step\<^sup>*\<^sup>* c c' \<longrightarrow> c' = c)"
proof -
  obtain t where t: "ops_bytes hs @ reader_bytes body = t" by blast
  let ?m1 = "data_message reply t" and ?m2 = "done_message reply [] []"
  have "length t = bufferSize" using assms(8) t by auto
  then have some: "t \<noteq> []" by (auto simp: bufferSize_def)
  obtain w' where w: "write_response (hs @ [ReadFromOp body]) None w0 reply nc = Some ([], w')"
    "outbox (NW_nc (sink w')) = outbox nc @ [?m1, ?m2]"
    using exact_fill [OF assms(1-4,6-8)] t by auto
  then have ms: "edge_messages env w0 data reply nc = Some [?m1, ?m2]"
    using assms(5) by (simp add: edge_messages_def handle_message_def request_msg_def)
  let ?c0 = "new_call n sub"
  let ?c1 = "?c0\<lparr>C_seen := [Arrived (deliver ?m1)], C_pump := InWrite t (deliver ?m1)\<rparr>"
  let ?c2 = "?c1\<lparr>C_taken := t, C_reader := Computing, C_pump := AtNextMsg\<rparr>"
  let ?c3 = "?c2\<lparr>C_seen := [Arrived (deliver ?m1), Arrived (deliver ?m2)], C_pump := InWrite [] (deliver ?m2)\<rparr>"
  let ?d = "?c3\<lparr>C_reader := Departed\<rparr>"
  have "call_step ?c0 ?c1"
    using call_step.next_message [of ?c0 "Arrived (deliver ?m1)" "deliver ?m1"] some
    by (simp add: new_call_def)
  moreover have "call_step\<^sup>*\<^sup>* ?c1 ?c2"
    using write_whole [of ?c1 t "deliver ?m1"] by (simp add: after_write_def new_call_def)
  moreover have "call_step ?c2 ?c3"
    using call_step.next_message [of ?c2 "Arrived (deliver ?m2)" "deliver ?m2"]
    by (simp add: new_call_def header_get_def HeaderKeyDone_def)
  moreover have "call_step ?c3 ?d" using call_step.depart [of ?c3] by simp
  ultimately have "call_step\<^sup>*\<^sup>* ?c0 ?d"
    by (meson converse_rtranclp_into_rtranclp rtranclp.rtrancl_into_rtrancl)
  moreover have "\<forall>c'. call_step\<^sup>*\<^sup>* ?d c' \<longrightarrow> c' = ?d"
    using departed_stuck_steps [of ?d _ "[]" "deliver ?m2"] by simp
  ultimately show ?thesis unfolding t using ms
    by (intro exI [of _ "[?m1, ?m2]"] exI [of _ ?d]) (simp add: arrivals_def new_call_def)
qed

text \<open>The calls of \<open>http.Response.Write\<close> for a response with a content length and one header.\<close>

definition full_head :: "wop list" where
  "full_head = [WriteOp (''HTTP/1.1 200 OK'' @ crlf), WriteStringOp ''Content-Length: '', WriteStringOp (''8125'' @ crlf),
     WriteStringOp ''Content-Type'', WriteStringOp '': '', WriteStringOp ''text/plain'', WriteStringOp crlf,
     WriteStringOp crlf]"

definition full_body :: reader where
  "full_body = [(replicate 4000 (CHR ''b''), None), (replicate 4125 (CHR ''c''), Some io_EOF)]"

theorem whole_response_leaks_witness:
  "\<exists>ms c. edge_messages (sample_edge (Inr (full_head @ [ReadFromOp full_body])))
      new_writer (R_encode (request_record sample_transport sample_call 0)) ''r'' (live_conn 10000) = Some ms \<and>
    call_step\<^sup>*\<^sup>* (new_call sample_names \<lparr>S_Subject = ''s'', S_Queue = [], S_Kind = SyncSubscription\<rparr>) c \<and>
    C_seen c = arrivals ms \<and> C_taken c = ops_bytes full_head @ reader_bytes full_body \<and> C_closed c = None \<and>
    (\<forall>c'. call_step\<^sup>*\<^sup>* c c' \<longrightarrow> c' = c)"
proof (rule whole_response_leaks [OF pooled_new_writer healthy_live_conn [of 10000]])
  have "R_ok (request_record sample_transport sample_call 0)"
    by (simp add: R_ok_def request_record_def sample_transport_def)
  then show "message_calls (sample_edge (Inr (full_head @ [ReadFromOp full_body])))
      (R_encode (request_record sample_transport sample_call 0)) = Some (full_head @ [ReadFromOp full_body], None)"
    by (subst message_calls_encoded [where req = sample_request and resp = "full_head @ [ReadFromOp full_body]"])
      (simp_all add: sample_edge_def edge_result_def request_record_def sample_transport_def
        send_request_def)
  show "length (ops_bytes full_head) + length (reader_bytes full_body) = bufferSize"
    by (simp add: full_head_def full_body_def ops_bytes_def bufferSize_def crlf_def)
qed (simp_all add: validateSubject_def nats_space_def bufferSize_def done_overhead full_head_def full_body_def)

end
