(* ===== verification/Jsonpatch.thy ===== *)
theory Jsonpatch
  imports Json "HOL-Library.AList" "HOL-Library.Multiset" "HOL-Library.List_Lexorder" "HOL-Library.Char_ord"
begin

text \<open>
  The vendored \<open>gomodules.xyz/jsonpatch/v2\<close>: \<open>CreatePatch\<close>, which the link generator uses to turn
  chart values into a patch of the chart's defaults; and, as its specification, the application
  of such a patch (RFC 6902). A Go map is a list of members with distinct keys; each \<open>range\<close> over a
  map goes through its members in an order of its own, which is an argument.
\<close>

section \<open>Making a patch\<close>

record operation =
  O_Operation :: string
  O_Path :: string
  O_Value :: json          \<comment> \<open>nil is \<open>JNull\<close>\<close>

definition NewOperation :: "string \<Rightarrow> string \<Rightarrow> json \<Rightarrow> operation" where
  "NewOperation opr path v = \<lparr>O_Operation = opr, O_Path = path, O_Value = v\<rparr>"

text \<open>\<open>encoding/json\<close> writes the members of a map by their keys, in order.\<close>

fun sort_members :: "json \<Rightarrow> json" where
  "sort_members (JObj ms) = JObj (sort_key fst (map (\<lambda>(k, v). (k, sort_members v)) ms))"
| "sort_members (JArr vs) = JArr (map sort_members vs)"
| "sort_members v = v"

text \<open>\<open>MarshalJSON\<close>: a nil value is written for add and replace, and left out otherwise.\<close>

definition operation_json :: "operation \<Rightarrow> json" where
  "operation_json j = JObj (
     [(''op'', JStr (O_Operation j)), (''path'', JStr (O_Path j))] @
     (if O_Value j = JNull \<and> O_Operation j \<noteq> ''replace'' \<and> O_Operation j \<noteq> ''add'' then []
      else [(''value'', sort_members (O_Value j))]))"

definition rfc6901Encoder :: "string \<Rightarrow> string" where
  "rfc6901Encoder = (\<lambda>s. concat (map (\<lambda>c. if c = CHR ''~'' then ''~0''
     else if c = CHR ''/'' then ''~1'' else [c]) s))"

definition makePath :: "string \<Rightarrow> string \<Rightarrow> string" where
  "makePath path newPart =
     (let key = rfc6901Encoder newPart
      in if path = [] then ''/'' @ key else path @ ''/'' @ key)"

text \<open>
  The order of a range over the members of the object at a path, for the first and the second
  range of \<open>diff\<close>. What is not a permutation of the members is no order.
\<close>

type_synonym range_order = "string \<Rightarrow> bool \<Rightarrow> (string \<times> json) list \<Rightarrow> (string \<times> json) list"

definition ranged ::
    "((string \<times> json) list \<Rightarrow> (string \<times> json) list) \<Rightarrow> (string \<times> json) list \<Rightarrow> (string \<times> json) list" where
  "ranged f ms = (if mset (f ms) = mset ms then f ms else ms)"

lemma mset_ranged [simp]: "mset (ranged f ms) = mset ms"
  by (simp add: ranged_def)

lemma set_ranged [simp]: "set (ranged f ms) = set ms"
  by (rule mset_eq_setD) simp

lemma distinct_ranged [simp]: "distinct (map fst (ranged f ms)) = distinct (map fst ms)"
proof -
  have "mset (map fst (ranged f ms)) = mset (map fst ms)" by simp
  then show ?thesis by (rule mset_eq_imp_distinct_iff)
qed

lemma map_of_ranged: "distinct (map fst ms) \<Longrightarrow> map_of (ranged f ms) = map_of ms"
  using map_of_inject_set [of "ranged f ms" ms] by (simp add: distinct_ranged)

lemma json_member_size:
  "(k, v) \<in> set ms \<Longrightarrow> size v < size (JObj ms)"
  by (induction ms) auto

lemma json_elem_size: "v \<in> set vs \<Longrightarrow> size v < size (JArr vs)"
  by (induction vs) auto

lemma zip_elem: "(i, x, y) \<in> set (zip I (zip a b)) \<Longrightarrow> y \<in> set b"
  by (auto dest!: set_zip_rightD)

text \<open>
  \<open>handleValues\<close> and \<open>diff\<close>, by what they append to the patch. Values of different types are
  replaced as a whole; so are scalars that differ (\<open>matchesValue\<close> compares them).
\<close>

function (sequential) handleValues :: "range_order \<Rightarrow> json \<Rightarrow> json \<Rightarrow> string \<Rightarrow> operation list" where
  "handleValues ord (JObj a) (JObj b) p =
     concat (map (\<lambda>(k, bv). case map_of a k of
         None \<Rightarrow> [NewOperation ''add'' (makePath p k) bv]
       | Some av \<Rightarrow> handleValues ord av bv (makePath p k)) (ranged (ord p False) b)) @
     concat (map (\<lambda>(k, _). if map_of b k = None
       then [NewOperation ''remove'' (makePath p k) JNull] else []) (ranged (ord p True) a))"
| "handleValues ord (JArr a) (JArr b) p =
     (let n = min (length a) (length b)
      in map (\<lambda>i. NewOperation ''remove'' (makePath p (nat_text i)) JNull) (rev [n..<length a]) @
         map (\<lambda>i. NewOperation ''add'' (makePath p (nat_text i)) (b ! i)) [n..<length b] @
         concat (map (\<lambda>(i, av, bv). handleValues ord av bv (makePath p (nat_text i)))
           (zip [0..<n] (zip a b))))"
| "handleValues ord av bv p = (if av = bv then [] else [NewOperation ''replace'' p bv])"
  by pat_completeness auto
termination
  by (relation "measure (\<lambda>(ord, a, b, p). size b)")
    (auto dest!: zip_elem json_member_size json_elem_size simp del: json.size)

definition errBadJSONDoc :: go_error where
  "errBadJSONDoc = ErrVar ''invalid JSON Document''"

text \<open>\<open>Decoder.Decode\<close> into an interface: the first value, of repeated members the last.\<close>

fun go_value :: "json \<Rightarrow> json" where
  "go_value (JArr vs) = JArr (map go_value vs)"
| "go_value (JObj ms) =
     JObj (foldl (\<lambda>m (k, v). AList.update k v m) [] (map (\<lambda>(k, v). (k, go_value v)) ms))"
| "go_value v = v"

definition json_decode :: "string \<Rightarrow> json option" where
  "json_decode s = map_option (go_value \<circ> fst) (read_value (Suc (length s)) s)"

definition CreatePatch :: "range_order \<Rightarrow> bytes \<Rightarrow> bytes \<Rightarrow> operation list result" where
  "CreatePatch ord a b =
     (if a = b then Inr []
      else case json_decode a of
        None \<Rightarrow> Inl errBadJSONDoc
      | Some aI \<Rightarrow>
          (case json_decode b of
             None \<Rightarrow> Inl errBadJSONDoc
           | Some bI \<Rightarrow> Inr (handleValues ord aI bI [])))"

section \<open>Applying a patch (RFC 6902)\<close>

text \<open>A pointer is a sequence of tokens, each after a slash.\<close>

fun rfc6901_decode :: "string \<Rightarrow> string" where
  "rfc6901_decode [] = []"
| "rfc6901_decode [c] = [c]"
| "rfc6901_decode (c # d # s) =
     (if c = CHR ''~'' \<and> d = CHR ''0'' then CHR ''~'' # rfc6901_decode s
      else if c = CHR ''~'' \<and> d = CHR ''1'' then CHR ''/'' # rfc6901_decode s
      else c # rfc6901_decode (d # s))"

definition pointer_tokens :: "string \<Rightarrow> string list" where
  "pointer_tokens p = (if p = [] then [] else map rfc6901_decode (tl (split_on (CHR ''/'') p)))"

definition array_index :: "string \<Rightarrow> nat option" where
  "array_index t = (if t \<noteq> [] \<and> list_all digit t then Some (digits_value t) else None)"

text \<open>Adding and removing change a container; everything else happens at the member itself.\<close>

definition add_member :: "string \<Rightarrow> json \<Rightarrow> json \<Rightarrow> json option" where
  "add_member t v d =
     (case d of
        JObj ms \<Rightarrow> Some (JObj (AList.update t v ms))
      | JArr vs \<Rightarrow>
          (case array_index t of
             Some i \<Rightarrow> if i \<le> length vs then Some (JArr (take i vs @ v # drop i vs)) else None
           | None \<Rightarrow> None)
      | _ \<Rightarrow> None)"

definition remove_member :: "string \<Rightarrow> json \<Rightarrow> json option" where
  "remove_member t d =
     (case d of
        JObj ms \<Rightarrow> if map_of ms t = None then None else Some (JObj (AList.delete t ms))
      | JArr vs \<Rightarrow>
          (case array_index t of
             Some i \<Rightarrow> if i < length vs then Some (JArr (take i vs @ drop (Suc i) vs)) else None
           | None \<Rightarrow> None)
      | _ \<Rightarrow> None)"

definition change_member :: "string \<Rightarrow> (json \<Rightarrow> json option) \<Rightarrow> json \<Rightarrow> json option" where
  "change_member t f d =
     (case d of
        JObj ms \<Rightarrow>
          (case map_of ms t of
             Some w \<Rightarrow> map_option (\<lambda>w'. JObj (AList.update t w' ms)) (f w)
           | None \<Rightarrow> None)
      | JArr vs \<Rightarrow>
          (case array_index t of
             Some i \<Rightarrow> if i < length vs then map_option (\<lambda>w'. JArr (vs[i := w'])) (f (vs ! i))
                       else None
           | None \<Rightarrow> None)
      | _ \<Rightarrow> None)"

fun apply_at :: "string \<Rightarrow> json \<Rightarrow> string list \<Rightarrow> json \<Rightarrow> json option" where
  "apply_at opr v [] d = (if opr = ''replace'' \<or> opr = ''add'' then Some v else None)"
| "apply_at opr v (t # ts) d =
     (if ts = [] \<and> opr = ''add'' then add_member t v d
      else if ts = [] \<and> opr = ''remove'' then remove_member t d
      else change_member t (apply_at opr v ts) d)"

definition apply_operation :: "operation \<Rightarrow> json \<Rightarrow> json option" where
  "apply_operation x d = apply_at (O_Operation x) (O_Value x) (pointer_tokens (O_Path x)) d"

fun apply_patch :: "operation list \<Rightarrow> json \<Rightarrow> json option" where
  "apply_patch [] d = Some d"
| "apply_patch (x # xs) d =
     (case apply_operation x d of None \<Rightarrow> None | Some d' \<Rightarrow> apply_patch xs d')"

section \<open>Operations relative to a place\<close>

type_synonym rel_op = "string \<times> string list \<times> json"

definition at_path :: "string \<Rightarrow> rel_op \<Rightarrow> operation" where
  "at_path p r = (case r of (opr, ts, v) \<Rightarrow> NewOperation opr (foldl makePath p ts) v)"

definition below :: "string \<Rightarrow> rel_op \<Rightarrow> rel_op" where
  "below t r = (case r of (opr, ts, v) \<Rightarrow> (opr, t # ts, v))"

definition root_ok :: "rel_op \<Rightarrow> bool" where
  "root_ok r \<longleftrightarrow> (case r of (opr, ts, v) \<Rightarrow> ts = [] \<longrightarrow> opr = ''replace'')"

fun apply_rel :: "rel_op list \<Rightarrow> json \<Rightarrow> json option" where
  "apply_rel [] d = Some d"
| "apply_rel ((opr, ts, v) # rs) d =
     (case apply_at opr v ts d of None \<Rightarrow> None | Some d' \<Rightarrow> apply_rel rs d')"

lemma at_path_below: "at_path (makePath p t) r = at_path p (below t r)"
  by (cases r) (simp add: at_path_def below_def)

lemma apply_rel_append:
  "apply_rel (rs @ rs') d = (case apply_rel rs d of None \<Rightarrow> None | Some d' \<Rightarrow> apply_rel rs' d')"
  by (induction rs d rule: apply_rel.induct) (auto split: option.splits)

lemma root_ok_below [simp]: "root_ok (below t r)" "list_all root_ok (map (below t) rs)"
proof -
  show r: "root_ok (below t r)" for r by (cases r) (simp add: root_ok_def below_def)
  then show "list_all root_ok (map (below t) rs)" by (simp add: list_all_iff)
qed

text \<open>Pointers that \<open>makePath\<close> made are read back as the tokens they were made of.\<close>

lemma decode_plain: "c \<noteq> CHR ''~'' \<Longrightarrow> rfc6901_decode (c # s) = c # rfc6901_decode s"
  by (cases s) auto

lemma decode_encode: "rfc6901_decode (rfc6901Encoder t) = t"
  by (induction t) (auto simp: rfc6901Encoder_def decode_plain)

lemma encode_no_slash: "CHR ''/'' \<notin> set (rfc6901Encoder t)"
  by (auto simp: rfc6901Encoder_def split: if_splits)

lemma makePath_append: "makePath p t = p @ CHR ''/'' # rfc6901Encoder t"
  by (simp add: makePath_def Let_def)

lemma foldl_makePath:
  "foldl makePath p ts = p @ concat (map (\<lambda>t. CHR ''/'' # rfc6901Encoder t) ts)"
  by (induction ts arbitrary: p) (simp_all add: makePath_append)

lemma split_tokens:
  "CHR ''/'' \<notin> set x \<Longrightarrow>
   split_on (CHR ''/'') (x @ concat (map (\<lambda>t. CHR ''/'' # rfc6901Encoder t) ts)) =
   x # map rfc6901Encoder ts"
proof (induction ts arbitrary: x)
  case Nil
  then show ?case by (simp add: split_on_no_sep)
next
  case (Cons t ts)
  then show ?case using encode_no_slash [of t] by (simp add: split_on_append)
qed

lemma pointer_tokens_made: "pointer_tokens (foldl makePath [] ts) = ts"
proof (cases ts)
  case (Cons t us)
  have "foldl makePath [] ts = [] @ concat (map (\<lambda>t. CHR ''/'' # rfc6901Encoder t) ts)"
    by (simp add: foldl_makePath)
  then show ?thesis
    using split_tokens [of "[]" ts] Cons by (simp add: pointer_tokens_def decode_encode comp_def)
qed (simp add: pointer_tokens_def)

lemma apply_patch_rel: "apply_patch (map (at_path []) rs) d = apply_rel rs d"
  by (induction rs d rule: apply_rel.induct)
    (auto simp: apply_operation_def at_path_def NewOperation_def pointer_tokens_made
      split: option.splits)

lemma array_index_text [simp]: "array_index (nat_text i) = Some i"
  by (simp add: array_index_def nat_text_digits digits_value_nat_text)

text \<open>Operations below a member act on that member.\<close>

lemma apply_below:
  "root_ok (opr, ts, v) \<Longrightarrow>
   apply_at opr v (t # ts) d = change_member t (apply_at opr v ts) d"
  by (auto simp: root_ok_def)

lemma apply_rel_below_obj:
  assumes "list_all root_ok rs" "map_of ms t = Some w" "apply_rel rs w = Some w'"
  shows "\<exists>ms'. apply_rel (map (below t) rs) (JObj ms) = Some (JObj ms') \<and>
    map_of ms' = (map_of ms)(t \<mapsto> w') \<and> (distinct (map fst ms) \<longrightarrow> distinct (map fst ms'))"
  using assms
proof (induction rs w arbitrary: ms rule: apply_rel.induct)
  case (1 d)
  then show ?case by (auto simp: fun_upd_idem)
next
  case (2 opr ts v rs d)
  obtain d1 where d1: "apply_at opr v ts d = Some d1" "apply_rel rs d1 = Some w'"
    using 2(4) by (auto split: option.splits)
  have "apply_at opr v (t # ts) (JObj ms) = Some (JObj (AList.update t d1 ms))"
    using apply_below [of opr ts v t] 2(2,3) d1 by (simp add: change_member_def)
  moreover have "map_of (AList.update t d1 ms) t = Some d1" by (simp add: update_conv)
  ultimately show ?case
    using 2(1) [OF d1(1), of "AList.update t d1 ms"] 2(2) d1(2)
    by (auto simp: below_def update_conv' distinct_update simp del: fun_upd_apply)
qed

lemma apply_rel_below_arr:
  assumes "list_all root_ok rs" "i < length vs" "apply_rel rs (vs ! i) = Some w'"
  shows "apply_rel (map (below (nat_text i)) rs) (JArr vs) = Some (JArr (vs[i := w']))"
  using assms
proof (induction rs "vs ! i" arbitrary: vs rule: apply_rel.induct)
  case (2 opr ts v rs)
  obtain d1 where d1: "apply_at opr v ts (vs ! i) = Some d1" "apply_rel rs d1 = Some w'"
    using 2(4) by (auto split: option.splits)
  have "apply_at opr v (nat_text i # ts) (JArr vs) = Some (JArr (vs[i := d1]))"
    using apply_below [of opr ts v "nat_text i"] 2(2,3) d1 by (simp add: change_member_def)
  then show ?case
    using 2(1) [of "vs[i := d1]"] 2(2,3) d1 by (simp add: below_def)
qed (auto simp: list_update_id)

section \<open>A patch made of two values turns one into the other\<close>

text \<open>
  Values that are the same up to the order of members, and values whose objects have no member
  twice.
\<close>

inductive same_value :: "json \<Rightarrow> json \<Rightarrow> bool" where
  same_scalar: "same_value v v"
| same_array: "list_all2 same_value vs ws \<Longrightarrow> same_value (JArr vs) (JArr ws)"
| same_object: "(\<And>k. rel_option same_value (map_of a k) (map_of b k)) \<Longrightarrow>
    same_value (JObj a) (JObj b)"
  monos list.rel_mono option.rel_mono

fun distinct_members :: "json \<Rightarrow> bool" where
  "distinct_members (JArr vs) \<longleftrightarrow> (\<forall>v\<in>set vs. distinct_members v)"
| "distinct_members (JObj ms) \<longleftrightarrow>
     distinct (map fst ms) \<and> (\<forall>m\<in>set ms. distinct_members (snd m))"
| "distinct_members _ \<longleftrightarrow> True"

definition turns :: "json \<Rightarrow> json \<Rightarrow> string \<Rightarrow> operation list \<Rightarrow> bool" where
  "turns a b p xs \<longleftrightarrow> (\<exists>rs d. xs = map (at_path p) rs \<and> list_all root_ok rs \<and>
     apply_rel rs a = Some d \<and> same_value d b)"

text \<open>Arrays: the operations on indices, whose effect is exact.\<close>

lemma removes_exact:
  assumes "n \<le> length vs"
  shows "apply_rel (map (\<lambda>i. (''remove'', [nat_text i], JNull)) (rev [n..<length vs])) (JArr vs) =
    Some (JArr (take n vs))"
  using assms
proof (induction vs rule: rev_induct)
  case (snoc v vs)
  show ?case
  proof (cases "n \<le> length vs")
    case True
    then show ?thesis using snoc by (simp add: remove_member_def)
  next
    case False
    then have "n = Suc (length vs)" using snoc.prems by simp
    then show ?thesis by simp
  qed
qed simp

lemma adds_exact:
  "apply_rel (map (\<lambda>i. (''add'', [nat_text i], ws ! i)) [length vs..<length ws]) (JArr vs) =
   Some (JArr (vs @ drop (length vs) ws))"
proof (induction "length ws - length vs" arbitrary: vs)
  case (Suc n)
  then have l: "length vs < length ws" by simp
  have "n = length ws - length (vs @ [ws ! length vs])" using Suc(2) by simp
  from Suc(1) [OF this] show ?case
    using l by (simp add: upt_rec [of "length vs"] add_member_def Cons_nth_drop_Suc)
qed simp

lemma pairs_exact:
  assumes "length xs = length ys"
    and "\<And>i. i < length xs \<Longrightarrow> turns (xs ! i) (ys ! i) (makePath p (nat_text (length pre + i))) (f (length pre + i))"
  shows "\<exists>rs xs'. concat (map f [length pre..<length pre + length xs]) = map (at_path p) rs \<and>
    list_all root_ok rs \<and>
    apply_rel rs (JArr (pre @ xs @ post)) = Some (JArr (pre @ xs' @ post)) \<and>
    list_all2 same_value xs' ys"
  using assms
proof (induction xs ys arbitrary: pre rule: list_induct2)
  case Nil
  show ?case by (rule exI [of _ "[]"], rule exI [of _ "[]"]) simp
next
  case (Cons x xs y ys)
  obtain rs d where rs: "f (length pre) = map (at_path (makePath p (nat_text (length pre)))) rs"
    "list_all root_ok rs" "apply_rel rs x = Some d" "same_value d y"
    using Cons.prems [of 0] by (auto simp: turns_def)
  have "turns (xs ! i) (ys ! i) (makePath p (nat_text (length (pre @ [d]) + i)))
      (f (length (pre @ [d]) + i))" if "i < length xs" for i
    using Cons.prems [of "Suc i"] that by simp
  then obtain rs' xs' where rs': "concat (map f [Suc (length pre)..<Suc (length pre + length xs)]) =
      map (at_path p) rs'" "list_all root_ok rs'"
    "apply_rel rs' (JArr ((pre @ [d]) @ xs @ post)) = Some (JArr ((pre @ [d]) @ xs' @ post))"
    "list_all2 same_value xs' ys"
    using Cons.IH [of "pre @ [d]"] by auto
  have "apply_rel (map (below (nat_text (length pre))) rs) (JArr (pre @ (x # xs) @ post)) =
      Some (JArr (pre @ (d # xs) @ post))"
    using apply_rel_below_arr [OF rs(2), of "length pre" "pre @ (x # xs) @ post"] rs(3)
    by (simp add: list_update_append nth_append)
  moreover have "[length pre..<length pre + length (x # xs)] =
      length pre # [Suc (length pre)..<Suc (length pre + length xs)]"
    by (simp add: upt_rec [of "length pre"] del: upt_Suc)
  ultimately show ?case
    using rs(1,4) rs' by (intro exI [of _ "map (below (nat_text (length pre))) rs @ rs'"]
        exI [of _ "d # xs'"])
      (simp add: apply_rel_append at_path_below comp_def del: upt_Suc)
qed

lemma arrays_turn:
  assumes "\<And>i x y. (i, x, y) \<in> set (zip [0..<min (length a) (length b)] (zip a b)) \<Longrightarrow>
    turns x y (makePath p (nat_text i)) (handleValues ord x y (makePath p (nat_text i)))"
  shows "turns (JArr a) (JArr b) p (handleValues ord (JArr a) (JArr b) p)"
proof -
  define n where "n = min (length a) (length b)"
  let ?f = "\<lambda>i. handleValues ord (a ! i) (b ! i) (makePath p (nat_text i))"
  let ?del = "map (\<lambda>i. (''remove'', [nat_text i], JNull)) (rev [n..<length a])"
  let ?add = "map (\<lambda>i. (''add'', [nat_text i], b ! i)) [n..<length b]"
  have n: "n \<le> length a" "n \<le> length b" by (auto simp: n_def)
  have z: "zip [0..<n] (zip a b) = map (\<lambda>i. (i, a ! i, b ! i)) [0..<n]"
    by (rule nth_equalityI) (auto simp: n_def)
  have each: "turns (take n a ! i) (take n b ! i) (makePath p (nat_text i)) (?f i)" if i: "i < n" for i
  proof -
    have "(i, a ! i, b ! i) \<in> set (zip [0..<n] (zip a b))" unfolding z using i by simp
    from assms [OF this [unfolded n_def]] show ?thesis using i by simp
  qed
  have "\<exists>rs xs'. concat (map ?f [0..<n]) = map (at_path p) rs \<and> list_all root_ok rs \<and>
    apply_rel rs (JArr (take n a @ drop n b)) = Some (JArr (xs' @ drop n b)) \<and>
    list_all2 same_value xs' (take n b)"
    using pairs_exact [of "take n a" "take n b" p "[]" ?f "drop n b"] each n by simp
  then obtain rs xs' where rs: "concat (map ?f [0..<n]) = map (at_path p) rs" "list_all root_ok rs"
    "apply_rel rs (JArr (take n a @ drop n b)) = Some (JArr (xs' @ drop n b))"
    "list_all2 same_value xs' (take n b)" by blast
  have "handleValues ord (JArr a) (JArr b) p =
      map (\<lambda>i. NewOperation ''remove'' (makePath p (nat_text i)) JNull) (rev [n..<length a]) @
      map (\<lambda>i. NewOperation ''add'' (makePath p (nat_text i)) (b ! i)) [n..<length b] @
      concat (map ?f [0..<n])"
    unfolding handleValues.simps Let_def n_def [symmetric] z by (simp add: comp_def)
  also have "\<dots> = map (at_path p) (?del @ ?add @ rs)"
    unfolding rs(1) by (simp add: at_path_def comp_def)
  finally have eq: "handleValues ord (JArr a) (JArr b) p = map (at_path p) (?del @ ?add @ rs)" .
  have ok: "list_all root_ok (?del @ ?add @ rs)"
    using rs(2) by (auto simp: list_all_iff root_ok_def)
  have "apply_rel ?del (JArr a) = Some (JArr (take n a))" by (rule removes_exact [OF n(1)])
  moreover have "apply_rel ?add (JArr (take n a)) = Some (JArr (take n a @ drop n b))"
    using adds_exact [of b "take n a"] n(1) by simp
  ultimately have run: "apply_rel (?del @ ?add @ rs) (JArr a) = Some (JArr (xs' @ drop n b))"
    using rs(3) by (simp add: apply_rel_append)
  have "list_all2 same_value (xs' @ drop n b) (take n b @ drop n b)"
    using rs(4) by (intro list_all2_appendI) (auto intro: list.rel_refl same_scalar)
  then have "same_value (JArr (xs' @ drop n b)) (JArr b)" by (simp add: same_array)
  with eq ok run show ?thesis unfolding turns_def by blast
qed

text \<open>Objects: members of the new value first, then the members that are gone.\<close>

definition member_ops :: "range_order \<Rightarrow> (string \<times> json) list \<Rightarrow> string \<Rightarrow> string \<times> json \<Rightarrow> operation list" where
  "member_ops ord a p m = (case map_of a (fst m) of
       None \<Rightarrow> [NewOperation ''add'' (makePath p (fst m)) (snd m)]
     | Some av \<Rightarrow> handleValues ord av (snd m) (makePath p (fst m)))"

lemma member_ops_effect:
  assumes "map_of ms k = map_of a k" "distinct (map fst ms)"
    "\<And>w. map_of a k = Some w \<Longrightarrow>
      turns w v (makePath p k) (handleValues ord w v (makePath p k))"
  shows "\<exists>rs ms' w. member_ops ord a p (k, v) = map (at_path p) rs \<and> list_all root_ok rs \<and>
    apply_rel rs (JObj ms) = Some (JObj ms') \<and> distinct (map fst ms') \<and>
    map_of ms' = (map_of ms)(k \<mapsto> w) \<and> same_value w v"
proof (cases "map_of a k")
  case None
  then show ?thesis
    using assms(2) by (intro exI [of _ "[(''add'', [k], v)]"] exI [of _ "AList.update k v ms"] exI [of _ v])
      (auto simp: member_ops_def at_path_def root_ok_def add_member_def update_conv'
        distinct_update intro: same_scalar)
next
  case (Some w)
  from assms(3) [OF this] obtain rs d where
    rs: "handleValues ord w v (makePath p k) = map (at_path (makePath p k)) rs" "list_all root_ok rs"
      "apply_rel rs w = Some d" "same_value d v" by (auto simp: turns_def)
  moreover obtain ms' where "apply_rel (map (below k) rs) (JObj ms) = Some (JObj ms')"
    "map_of ms' = (map_of ms)(k \<mapsto> d)" "distinct (map fst ms')"
    using apply_rel_below_obj [OF rs(2) _ rs(3), of ms k] assms(1,2) Some by auto
  ultimately show ?thesis
    using Some by (intro exI [of _ "map (below k) rs"] exI [of _ ms'] exI [of _ d])
      (simp add: member_ops_def at_path_below)
qed

lemma members_added:
  assumes "distinct (map fst b)" "\<forall>k. k \<in> fst ` set b \<longrightarrow> map_of ms k = map_of a k"
    "distinct (map fst ms)"
    "\<And>k v w. (k, v) \<in> set b \<Longrightarrow> map_of a k = Some w \<Longrightarrow>
      turns w v (makePath p k) (handleValues ord w v (makePath p k))"
  shows "\<exists>rs ms'. concat (map (member_ops ord a p) b) = map (at_path p) rs \<and> list_all root_ok rs \<and>
    apply_rel rs (JObj ms) = Some (JObj ms') \<and>
    (\<forall>k. case map_of b k of None \<Rightarrow> map_of ms' k = map_of ms k
       | Some v \<Rightarrow> \<exists>w. map_of ms' k = Some w \<and> same_value w v)"
  using assms
proof (induction b arbitrary: ms)
  case Nil
  show ?case by (rule exI [of _ "[]"], rule exI [of _ ms]) simp
next
  case (Cons m b)
  obtain k v where m: "m = (k, v)" by (cases m)
  obtain rs ms1 w where one: "member_ops ord a p (k, v) = map (at_path p) rs" "list_all root_ok rs"
    "apply_rel rs (JObj ms) = Some (JObj ms1)" "distinct (map fst ms1)"
    "map_of ms1 = (map_of ms)(k \<mapsto> w)" "same_value w v"
    using member_ops_effect [of ms k a v p ord] Cons.prems m by auto
  have "\<exists>rs ms'. concat (map (member_ops ord a p) b) = map (at_path p) rs \<and> list_all root_ok rs \<and>
    apply_rel rs (JObj ms1) = Some (JObj ms') \<and>
    (\<forall>k. case map_of b k of None \<Rightarrow> map_of ms' k = map_of ms1 k
       | Some v \<Rightarrow> \<exists>w. map_of ms' k = Some w \<and> same_value w v)"
    by (rule Cons.IH) (use Cons.prems one m in \<open>auto simp: rev_image_eqI\<close>)
  then obtain rs' ms' where rest: "concat (map (member_ops ord a p) b) = map (at_path p) rs'"
    "list_all root_ok rs'" "apply_rel rs' (JObj ms1) = Some (JObj ms')"
    "\<forall>k. case map_of b k of None \<Rightarrow> map_of ms' k = map_of ms1 k
       | Some v \<Rightarrow> \<exists>w. map_of ms' k = Some w \<and> same_value w v" by blast
  have new: "map_of b k = None" using Cons.prems(1) m by (simp add: map_of_eq_None_iff)
  have "case map_of (m # b) k' of None \<Rightarrow> map_of ms' k' = map_of ms k'
       | Some v \<Rightarrow> \<exists>w. map_of ms' k' = Some w \<and> same_value w v" for k'
    using rest(4) [rule_format, of k'] one(5,6) new m
    by (cases "k' = k"; cases "map_of b k'") auto
  then show ?case
    using one rest m by (intro exI [of _ "rs @ rs'"] exI [of _ ms']) (simp add: apply_rel_append)
qed

lemma members_removed:
  assumes "distinct (map fst as)" "\<forall>k. k \<in> fst ` set as \<longrightarrow> map_of ms k \<noteq> None"
  shows "\<exists>rs ms'. concat (map (\<lambda>(k, _). if map_of b k = None
      then [NewOperation ''remove'' (makePath p k) JNull] else []) as) = map (at_path p) rs \<and>
    list_all root_ok rs \<and> apply_rel rs (JObj ms) = Some (JObj ms') \<and>
    (\<forall>k. map_of ms' k = (if k \<in> fst ` set as \<and> map_of b k = None then None else map_of ms k))"
  using assms
proof (induction as arbitrary: ms)
  case Nil
  show ?case by (rule exI [of _ "[]"], rule exI [of _ ms]) simp
next
  case (Cons m as)
  obtain k v where m: "m = (k, v)" by (cases m)
  let ?ms = "if map_of b k = None then AList.delete k ms else ms"
  let ?r = "if map_of b k = None then [(''remove'', [k], JNull)] else []"
  have "\<forall>k'. k' \<in> fst ` set as \<longrightarrow> map_of ?ms k' \<noteq> None"
    using Cons.prems m by (auto simp: delete_conv')
  from Cons.IH [OF _ this] obtain rs ms' where
    "concat (map (\<lambda>(k, _). if map_of b k = None
      then [NewOperation ''remove'' (makePath p k) JNull] else []) as) = map (at_path p) rs"
    "list_all root_ok rs" "apply_rel rs (JObj ?ms) = Some (JObj ms')"
    "\<forall>k. map_of ms' k = (if k \<in> fst ` set as \<and> map_of b k = None then None else map_of ?ms k)"
    using Cons.prems(1) m by auto
  moreover have "apply_rel ?r (JObj ms) = Some (JObj ?ms)"
    using Cons.prems(2) m by (auto simp: remove_member_def)
  moreover have "list_all root_ok ?r" by (simp add: root_ok_def)
  ultimately show ?case
    using m by (intro exI [of _ "?r @ rs"] exI [of _ ms'])
      (auto simp: at_path_def delete_conv' apply_rel_append)
qed

lemma objects_turn:
  assumes "distinct (map fst a)" "distinct (map fst b)"
    and "\<And>k v w. (k, v) \<in> set b \<Longrightarrow> map_of a k = Some w \<Longrightarrow>
      turns w v (makePath p k) (handleValues ord w v (makePath p k))"
  shows "turns (JObj a) (JObj b) p (handleValues ord (JObj a) (JObj b) p)"
proof -
  let ?a = "ranged (ord p True) a" and ?b = "ranged (ord p False) b"
  have b: "map_of ?b = map_of b" using assms(2) by (rule map_of_ranged)
  obtain rs ms where add: "concat (map (member_ops ord a p) ?b) = map (at_path p) rs"
    "list_all root_ok rs" "apply_rel rs (JObj a) = Some (JObj ms)"
    "\<forall>k. case map_of b k of None \<Rightarrow> map_of ms k = map_of a k
       | Some v \<Rightarrow> \<exists>w. map_of ms k = Some w \<and> same_value w v"
    using members_added [of ?b a a p ord] assms by (auto simp: b)
  have "map_of ms k \<noteq> None" if k: "k \<in> fst ` set ?a" for k
  proof -
    have "map_of a k \<noteq> None" using k by (simp add: map_of_eq_None_iff)
    then show ?thesis using add(4) [rule_format, of k] by (auto split: option.splits)
  qed
  then obtain rs' ms' where del: "concat (map (\<lambda>(k, _). if map_of b k = None
      then [NewOperation ''remove'' (makePath p k) JNull] else []) ?a) = map (at_path p) rs'"
    "list_all root_ok rs'" "apply_rel rs' (JObj ms) = Some (JObj ms')"
    "\<forall>k. map_of ms' k = (if k \<in> fst ` set ?a \<and> map_of b k = None then None else map_of ms k)"
    using members_removed [of ?a ms b p] assms(1) by auto
  have "rel_option same_value (map_of ms' k) (map_of b k)" for k
  proof (cases "map_of b k")
    case None
    then have "map_of ms' k = None"
      using add(4) [rule_format, of k] del(4) [rule_format, of k] map_of_eq_None_iff [of a k]
      by (auto split: if_splits)
    with None show ?thesis by simp
  next
    case (Some v)
    then show ?thesis using add(4) [rule_format, of k] del(4) [rule_format, of k] by auto
  qed
  then have "same_value (JObj ms') (JObj b)" by (rule same_object)
  moreover have "handleValues ord (JObj a) (JObj b) p = map (at_path p) (rs @ rs')"
    unfolding handleValues.simps del(1) map_append add(1) [symmetric]
    by (simp add: member_ops_def [abs_def] case_prod_beta')
  moreover have "apply_rel (rs @ rs') (JObj a) = Some (JObj ms')"
    using add(3) del(3) by (simp add: apply_rel_append)
  moreover have "list_all root_ok (rs @ rs')" using add(2) del(2) by simp
  ultimately show ?thesis unfolding turns_def by blast
qed

lemma other_turns: "turns a b p (if a = b then [] else [NewOperation ''replace'' p b])"
proof (cases "a = b")
  case True
  then show ?thesis
    unfolding turns_def by (intro exI [of _ "[]"] exI [of _ b]) (simp add: same_scalar)
next
  case False
  then show ?thesis unfolding turns_def
    by (intro exI [of _ "[(''replace'', [], b)]"] exI [of _ b])
      (simp add: at_path_def root_ok_def same_scalar)
qed

lemma values_turn:
  "distinct_members a \<Longrightarrow> distinct_members b \<Longrightarrow> turns a b p (handleValues ord a b p)"
proof (induction ord a b p rule: handleValues.induct)
  case (1 ord a b p)
  show ?case
  proof (rule objects_turn)
    show "distinct (map fst a)" "distinct (map fst b)" using 1(2,3) by simp_all
    fix k v w assume kv: "(k, v) \<in> set b" "map_of a k = Some w"
    then have "(k, w) \<in> set a" by (simp add: map_of_SomeD)
    then have "distinct_members w" "distinct_members v" using 1(2,3) kv(1) by force+
    then show "turns w v (makePath p k) (handleValues ord w v (makePath p k))"
      using 1(1) [OF _ refl kv(2)] kv(1) by simp
  qed
next
  case (2 ord a b p)
  show ?case
  proof (rule arrays_turn)
    fix i x y assume z: "(i, x, y) \<in> set (zip [0..<min (length a) (length b)] (zip a b))"
    then have "(x, y) \<in> set (zip a b)" by (rule set_zip_rightD)
    then have "x \<in> set a" "y \<in> set b" by (rule set_zip_leftD, rule set_zip_rightD)
    then have "distinct_members x" "distinct_members y" using 2(2,3) by simp_all
    then show "turns x y (makePath p (nat_text i)) (handleValues ord x y (makePath p (nat_text i)))"
      using 2(1) [OF refl z refl refl] by blast
  qed
qed (simp_all only: handleValues.simps other_turns)

text \<open>The patch that \<open>handleValues\<close> makes of two documents.\<close>

lemma patch_applies:
  assumes "distinct_members a" "distinct_members b"
  shows "\<exists>d. apply_patch (handleValues ord a b []) a = Some d \<and> same_value d b"
  using values_turn [OF assms, of "[]" ord] apply_patch_rel by (auto simp: turns_def)

text \<open>Documents as the encoder writes them.\<close>

lemma update_new: "k \<notin> fst ` set m \<Longrightarrow> AList.update k v m = m @ [(k, v)]"
  by (induction m) auto

lemma foldl_update_new:
  "distinct (map fst (m @ ms)) \<Longrightarrow> foldl (\<lambda>m (k, v). AList.update k v m) m ms = m @ ms"
  by (induction ms arbitrary: m) (auto simp: update_new)

lemma go_value_distinct: "distinct_members v \<Longrightarrow> go_value v = v"
proof (induction v rule: go_value.induct)
  case (1 vs)
  then show ?case by (simp add: map_idI)
next
  case (2 ms)
  have "map (\<lambda>(k, v). (k, go_value v)) ms = ms"
    using 2 by (intro map_idI) (auto split: prod.splits)
  then show ?case using 2(2) foldl_update_new [of "[]" ms] by simp
qed simp_all

lemma json_decode_text:
  assumes "json_ok v" "distinct_members v"
  shows "json_decode (json_text v) = Some v"
proof -
  have "read_value (Suc (length (json_text v))) (json_text v @ []) = Some (v, [])"
    using reads_all [of "Suc (length (json_text v))"] assms(1)
    unfolding reads_def by (simp add: stop_def)
  then show ?thesis using assms(2) by (simp add: json_decode_def go_value_distinct)
qed

text \<open>The patch made of two encoded documents, applied to the first, gives the second.\<close>

lemma CreatePatch_applies:
  assumes "json_ok a" "json_ok b" "distinct_members a" "distinct_members b"
  shows "\<exists>xs d. CreatePatch ord (json_text a) (json_text b) = Inr xs \<and> apply_patch xs a = Some d \<and>
    same_value d b"
proof (cases "json_text a = json_text b")
  case True
  then have "a = b" using json_codec.enc_inj assms(1,2) by blast
  then show ?thesis by (auto simp: CreatePatch_def intro: same_scalar)
next
  case False
  then show ?thesis
    using patch_applies [OF assms(3,4), of ord] json_decode_text assms by (simp add: CreatePatch_def)
qed

end
