(* ===== verification/Link.thy ===== *)
theory Link
  imports Shared Jsonpatch
begin

text \<open>
  \<open>pkg/link/lib.go\<close>: making a link. The chart values of the connector get a fresh link id, they
  become a patch of the chart's values in an order for the chart, and the order becomes two
  installation scripts. The script generators of \<open>kubepack.dev/kubepack\<close> (vendored) are modelled
  for the two options the connector passes; what they print for one package is an argument.
\<close>

section \<open>Chart values (kubeops.dev/installer, cluster_connector_types.go)\<close>

record Container =
  C_Registry :: string
  C_Repository :: string
  C_Tag :: string
  C_Resources :: json
  C_SecurityContext :: json

record ServiceAccountSpec =
  SA_Create :: bool
  SA_Name :: "string option"
  SA_Annotations :: "(string \<times> string) list option"

record PlatformSpec = Plat_BaseURL :: string

record ClusterConnectorNats =
  N_Address :: string
  N_EncodedCreds :: string

text \<open>Values of Kubernetes API types, which the code only passes on, are kept as JSON.\<close>

record ClusterConnectorSpec =
  CC_NameOverride :: string
  CC_FullnameOverride :: string
  CC_ReplicaCount :: int
  CC_RegistryFQDN :: string
  CC_Image :: Container
  CC_ImagePullSecrets :: "string list option"
  CC_ImagePullPolicy :: string
  CC_ServiceAccount :: ServiceAccountSpec
  CC_PodAnnotations :: "(string \<times> string) list option"
  CC_PodSecurityContext :: json
  CC_NodeSelector :: "(string \<times> string) list option"
  CC_Tolerations :: json
  CC_Affinity :: json
  CC_Platform :: PlatformSpec
  CC_LinkID :: string
  CC_Nats :: ClusterConnectorNats

definition empty_spec :: ClusterConnectorSpec where
  "empty_spec = \<lparr>CC_NameOverride = [], CC_FullnameOverride = [], CC_ReplicaCount = 0,
     CC_RegistryFQDN = [], CC_Image = \<lparr>C_Registry = [], C_Repository = [], C_Tag = [],
       C_Resources = JObj [], C_SecurityContext = JNull\<rparr>, CC_ImagePullSecrets = None,
     CC_ImagePullPolicy = [], CC_ServiceAccount = \<lparr>SA_Create = False, SA_Name = None,
       SA_Annotations = None\<rparr>, CC_PodAnnotations = None, CC_PodSecurityContext = JNull,
     CC_NodeSelector = None, CC_Tolerations = JNull, CC_Affinity = JNull, CC_Platform = \<lparr>Plat_BaseURL = []\<rparr>,
     CC_LinkID = [], CC_Nats = \<lparr>N_Address = [], N_EncodedCreds = []\<rparr>\<rparr>"

definition json_strings :: "string list option \<Rightarrow> json" where
  "json_strings x = (case x of None \<Rightarrow> JNull | Some vs \<Rightarrow> JArr (map JStr vs))"

definition json_map :: "(string \<times> string) list option \<Rightarrow> json" where
  "json_map x = (case x of None \<Rightarrow> JNull | Some ms \<Rightarrow> JObj (map (\<lambda>(k, v). (k, JStr v)) ms))"

definition Container_json :: "Container \<Rightarrow> json" where
  "Container_json c = JObj [
     (''registry'', JStr (C_Registry c)), (''repository'', JStr (C_Repository c)),
     (''tag'', JStr (C_Tag c)), (''resources'', C_Resources c),
     (''securityContext'', C_SecurityContext c)]"

definition ServiceAccountSpec_json :: "ServiceAccountSpec \<Rightarrow> json" where
  "ServiceAccountSpec_json s = JObj [
     (''create'', JBool (SA_Create s)),
     (''name'', (case SA_Name s of None \<Rightarrow> JNull | Some n \<Rightarrow> JStr n)),
     (''annotations'', json_map (SA_Annotations s))]"

definition spec_json :: "ClusterConnectorSpec \<Rightarrow> json" where
  "spec_json c = JObj [
     (''nameOverride'', JStr (CC_NameOverride c)),
     (''fullnameOverride'', JStr (CC_FullnameOverride c)),
     (''replicaCount'', JNum (int_text (CC_ReplicaCount c))),
     (''registryFQDN'', JStr (CC_RegistryFQDN c)),
     (''image'', Container_json (CC_Image c)),
     (''imagePullSecrets'', json_strings (CC_ImagePullSecrets c)),
     (''imagePullPolicy'', JStr (CC_ImagePullPolicy c)),
     (''serviceAccount'', ServiceAccountSpec_json (CC_ServiceAccount c)),
     (''podAnnotations'', json_map (CC_PodAnnotations c)),
     (''podSecurityContext'', CC_PodSecurityContext c),
     (''nodeSelector'', json_map (CC_NodeSelector c)),
     (''tolerations'', CC_Tolerations c),
     (''affinity'', CC_Affinity c),
     (''platform'', JObj [(''baseURL'', JStr (Plat_BaseURL (CC_Platform c)))]),
     (''linkID'', JStr (CC_LinkID c)),
     (''nats'', JObj [(''addr'', JStr (N_Address (CC_Nats c))),
        (''encodedCreds'', JStr (N_EncodedCreds (CC_Nats c)))])]"

section \<open>Orders (x-helm.dev/apimachinery, order_types.go)\<close>

record TypedObjectReference =
  Ref_APIGroup :: string
  Ref_Kind :: string
  Ref_Namespace :: string
  Ref_Name :: string

record ChartSelection =
  Ch_Name :: string
  Ch_SourceRef :: TypedObjectReference
  Ch_Version :: string
  Ch_ReleaseName :: string
  Ch_Namespace :: string
  Ch_ValuesFile :: string
  Ch_ValuesPatch :: "bytes option"

record Order =
  Ord_APIVersion :: string
  Ord_Kind :: string
  Ord_Name :: string
  Ord_UID :: string
  Ord_CreationTimestamp :: int
  Ord_Packages :: "ChartSelection option list"
  Ord_KubeVersion :: string

section \<open>What is known about the cluster (resource-metadata, hub/helm.go)\<close>

text \<open>
  A client of the cluster, by what it finds: whether the bootstrap Helm repository of a name and
  a namespace can be read, and the releases' versions of the bootstrap presets, if there are any.
\<close>

record kube_client =
  has_repository :: "string \<Rightarrow> string \<Rightarrow> bool"
  presets :: "(string \<Rightarrow> string option) option"

definition or_default :: "string \<Rightarrow> string \<Rightarrow> string" where
  "or_default v d = (if v \<noteq> [] then v else d)"

definition BootstrapHelmRepositoryNamespace :: "(string \<Rightarrow> string) \<Rightarrow> string" where
  "BootstrapHelmRepositoryNamespace env =
     or_default (env ''BOOTSTRAP_HELM_REPOSITORY_NAMESPACE'') ''kubeops''"

definition BootstrapHelmRepositoryName :: "(string \<Rightarrow> string) \<Rightarrow> string" where
  "BootstrapHelmRepositoryName env =
     or_default (env ''BOOTSTRAP_HELM_REPOSITORY_NAME'') ''bootstrap''"

definition BootstrapHelmRepository ::
    "(string \<Rightarrow> string) \<Rightarrow> kube_client option \<Rightarrow> TypedObjectReference" where
  "BootstrapHelmRepository env kc =
     (case kc of
        Some c \<Rightarrow>
          if has_repository c (BootstrapHelmRepositoryName env) (BootstrapHelmRepositoryNamespace env)
          then \<lparr>Ref_APIGroup = ''source.toolkit.fluxcd.io'', Ref_Kind = ''HelmRepository'',
                Ref_Namespace = BootstrapHelmRepositoryNamespace env,
                Ref_Name = BootstrapHelmRepositoryName env\<rparr>
          else \<lparr>Ref_APIGroup = ''charts.x-helm.dev'', Ref_Kind = ''Legacy'', Ref_Namespace = [],
                Ref_Name = ''https://charts.appscode.com/stable''\<rparr>
      | None \<Rightarrow> \<lparr>Ref_APIGroup = ''charts.x-helm.dev'', Ref_Kind = ''Legacy'', Ref_Namespace = [],
                Ref_Name = ''https://charts.appscode.com/stable''\<rparr>)"

definition FeatureVersion :: "kube_client option \<Rightarrow> string \<Rightarrow> string" where
  "FeatureVersion kc featureName =
     (case kc of
        Some c \<Rightarrow> (case presets c of
            Some releases \<Rightarrow> (case releases featureName of Some v \<Rightarrow> v | None \<Rightarrow> [])
          | None \<Rightarrow> [])
      | None \<Rightarrow> [])"

section \<open>Making an order\<close>

text \<open>\<open>json.MarshalIndent\<close> with two blanks; empty arrays and objects stay on one line.\<close>

definition indent_line :: "nat \<Rightarrow> string" where
  "indent_line d = CHR 0x0A # concat (replicate d ''  '')"

fun json_indent :: "nat \<Rightarrow> json \<Rightarrow> string" where
  "json_indent d (JArr vs) =
     (if vs = [] then ''[]''
      else ''['' @ join_with '','' (map (\<lambda>v. indent_line (Suc d) @ json_indent (Suc d) v) vs) @
           indent_line d @ '']'')"
| "json_indent d (JObj ms) =
     (if ms = [] then ''{}''
      else ''{'' @ join_with '','' (map (\<lambda>(k, v). indent_line (Suc d) @ str_text k @ '': '' @
             json_indent (Suc d) v) ms) @ indent_line d @ ''}'')"
| "json_indent d v = json_text v"

definition patch_text :: "operation list \<Rightarrow> bytes" where
  "patch_text xs = json_indent 0 (JArr (map operation_json xs))"

definition generatePatch :: "range_order \<Rightarrow> ClusterConnectorSpec \<Rightarrow> bytes result" where
  "generatePatch ord cc =
     (let data = json_text (spec_json cc); empty = json_text (spec_json empty_spec)
      in case CreatePatch ord empty data of
           Inl err \<Rightarrow> Inl err
         | Inr xs \<Rightarrow> Inr (patch_text xs))"

text \<open>What makes an order: the environment, the clock, the source of identifiers, the order of maps.\<close>

record link_env =
  LE_getenv :: "string \<Rightarrow> string"
  LE_xid :: xid_env
  LE_xid_secs :: int       \<comment> \<open>the clock when the identifier is made, in seconds\<close>
  LE_now :: int
  LE_range :: range_order  \<comment> \<open>the orders of ranges over maps while the patch is made\<close>

text \<open>The order's literal.\<close>

definition make_order ::
    "link_env \<Rightarrow> kube_client option \<Rightarrow> ClusterConnectorSpec \<Rightarrow> bytes \<Rightarrow> Order" where
  "make_order env kc cc patch =
     \<lparr>Ord_APIVersion = ''releases.x-helm.dev/v1alpha1'', Ord_Kind = ''Order'',
      Ord_Name = ChartClusterConnector, Ord_UID = CC_LinkID cc,
      Ord_CreationTimestamp = LE_now env,
      Ord_Packages = [Some \<lparr>Ch_Name = ChartClusterConnector,
      Ch_SourceRef = BootstrapHelmRepository (LE_getenv env) kc,
      Ch_Version = FeatureVersion kc ChartClusterConnector,
      Ch_ReleaseName = ChartClusterConnector,
      Ch_Namespace = BootstrapHelmRepositoryNamespace (LE_getenv env),
      Ch_ValuesFile = [], Ch_ValuesPatch = Some patch\<rparr>],
      Ord_KubeVersion = []\<rparr>"

definition NewOrder ::
    "link_env \<Rightarrow> kube_client option \<Rightarrow> ClusterConnectorSpec \<Rightarrow> 32 word \<Rightarrow> Order result \<times> 32 word" where
  "NewOrder env kc cc0 ctr =
     (let (cc, ctr') =
        (if length (CC_LinkID cc0) = 0
         then (let (uid, ctr1) = xid_new (LE_xid env) (LE_xid_secs env) ctr
               in (cc0\<lparr>CC_LinkID := xid_string uid\<rparr>, ctr1))
         else (cc0, ctr))
      in case generatePatch (LE_range env) cc of
           Inl err \<Rightarrow> (Inl err, ctr')
         | Inr patch \<Rightarrow>
             (Inr (make_order env kc cc patch), ctr'))"

section \<open>Scripts (kubepack, yaml.go and helm3.go)\<close>

record ScriptRef =
  Sc_OS :: string
  Sc_URL :: string
  Sc_Command :: string
  Sc_Script :: string

record BlobStore =
  BS_Host :: string
  BS_Bucket :: string

definition NewBlobStore :: "BlobStore result" where
  "NewBlobStore = Inr \<lparr>BS_Host = ConnectorLinkHost, BS_Bucket = ConnectorLinkManifestBucket\<rparr>"

text \<open>
  The text of the packages in order, each with a line break; packages without a chart are
  skipped, and the first error ends the printing.
\<close>

fun print_packages :: "(ChartSelection \<Rightarrow> bytes result) \<Rightarrow> ChartSelection option list \<Rightarrow> bytes result" where
  "print_packages p [] = Inr []"
| "print_packages p (None # pkgs) = print_packages p pkgs"
| "print_packages p (Some c # pkgs) =
     (case p c of
        Inl err \<Rightarrow> Inl err
      | Inr t \<Rightarrow>
          (case print_packages p pkgs of
             Inl err \<Rightarrow> Inl err
           | Inr r \<Rightarrow> Inr (t @ CHR 0x0A # r)))"

text \<open>A generator with the options \<open>DisableAppReleaseCRD\<close> and \<open>OsIndependentScript\<close>.\<close>

type_synonym printer = "BlobStore \<Rightarrow> string \<Rightarrow> ChartSelection \<Rightarrow> bytes result"

definition generate_script :: "printer \<Rightarrow> BlobStore \<Rightarrow> Order \<Rightarrow> ScriptRef list result" where
  "generate_script p bs order =
     (case print_packages (p bs (Ord_UID order)) (Ord_Packages order) of
        Inl err \<Rightarrow> Inl err
      | Inr b \<Rightarrow> Inr [\<lparr>Sc_OS = [], Sc_URL = [], Sc_Command = [], Sc_Script = trim_space b\<rparr>])"

text \<open>\<open>None\<close> is the panic of an index out of range.\<close>

definition first_script :: "ScriptRef list \<Rightarrow> string option" where
  "first_script xs = (case xs of [] \<Rightarrow> None | x # _ \<Rightarrow> Some (Sc_Script x))"

definition GenerateScripts ::
    "printer \<Rightarrow> printer \<Rightarrow> BlobStore \<Rightarrow> Order \<Rightarrow> (string \<rightharpoonup> string) result option" where
  "GenerateScripts yaml helm3 bs order =
     (case generate_script yaml bs order of
        Inl err \<Rightarrow> Some (Inl err)
      | Inr scriptsYAML \<Rightarrow>
          (case generate_script helm3 bs order of
             Inl err \<Rightarrow> Some (Inl err)
           | Inr scriptsHelm3 \<Rightarrow>
               (case first_script scriptsYAML of
                  None \<Rightarrow> None
                | Some y \<Rightarrow>
                    (case first_script scriptsHelm3 of
                       None \<Rightarrow> None
                     | Some h \<Rightarrow> Some (Inr [''yaml'' \<mapsto> y, ''helm3'' \<mapsto> h])))))"

definition Generate ::
    "link_env \<Rightarrow> printer \<Rightarrow> printer \<Rightarrow> kube_client option \<Rightarrow> BlobStore \<Rightarrow> ClusterConnectorSpec \<Rightarrow>
     32 word \<Rightarrow> Link result option \<times> 32 word" where
  "Generate env yaml helm3 kc bs cv ctr =
     (case NewOrder env kc cv ctr of
        (Inl err, ctr') \<Rightarrow> (Some (Inl err), ctr')
      | (Inr order, ctr') \<Rightarrow>
          (case GenerateScripts yaml helm3 bs order of
             None \<Rightarrow> (None, ctr')
           | Some (Inl err) \<Rightarrow> (Some (Inl err), ctr')
           | Some (Inr result) \<Rightarrow>
               (Some (Inr \<lparr>Link_LinkID = Ord_UID order, Scripts = result\<rparr>), ctr')))"

section \<open>Lemmas\<close>

definition spec_ok :: "ClusterConnectorSpec \<Rightarrow> bool" where
  "spec_ok c \<longleftrightarrow> json_ok (spec_json c) \<and> distinct_members (spec_json c)"

lemma spec_ok_link:
  "spec_ok c \<Longrightarrow> ascii l \<Longrightarrow> spec_ok (c\<lparr>CC_LinkID := l\<rparr>)"
  by (simp add: spec_ok_def spec_json_def)

lemma spec_ok_empty: "spec_ok empty_spec"
  by (simp add: spec_ok_def spec_json_def empty_spec_def Container_json_def json_strings_def
      json_map_def ServiceAccountSpec_json_def ascii_def exI [of _ 0])

lemma xid_string_ascii: "ascii (xid_string i)"
proof -
  have "\<forall>c\<in>set xid_encoding. of_char c < (0x80 :: nat)" by (simp add: xid_encoding_def)
  then show ?thesis using xid_string_alphabet by (auto simp: ascii_def list_all_iff)
qed

lemma generatePatch_ok:
  assumes "spec_ok cc"
  shows "\<exists>xs d. generatePatch ord cc = Inr (patch_text xs) \<and>
    apply_patch xs (spec_json empty_spec) = Some d \<and> same_value d (spec_json cc)"
  using CreatePatch_applies [of "spec_json empty_spec" "spec_json cc" ord] assms spec_ok_empty
  by (auto simp: generatePatch_def spec_ok_def Let_def)

text \<open>The link id an order is made with: the one of the values, or the next identifier.\<close>

definition order_link_id :: "link_env \<Rightarrow> ClusterConnectorSpec \<Rightarrow> 32 word \<Rightarrow> string" where
  "order_link_id env cc ctr =
     (if CC_LinkID cc = [] then xid_string (fst (xid_new (LE_xid env) (LE_xid_secs env) ctr))
      else CC_LinkID cc)"

lemma NewOrder_ok:
  assumes "spec_ok cc"
  obtains order c xs d where "NewOrder env kc cc ctr =
      (Inr order, if CC_LinkID cc = [] then ctr + 1 else ctr)"
    "Ord_UID order = order_link_id env cc ctr" "Ord_Packages order = [Some c]"
    "Ch_ValuesPatch c = Some (patch_text xs)" "apply_patch xs (spec_json empty_spec) = Some d"
    "same_value d (spec_json (cc\<lparr>CC_LinkID := Ord_UID order\<rparr>))"
proof -
  let ?l = "order_link_id env cc ctr"
  have x: "snd (xid_new (LE_xid env) (LE_xid_secs env) ctr) = ctr + 1"
    by (simp add: xid_new_def Let_def split: prod.splits)
  have "spec_ok (cc\<lparr>CC_LinkID := ?l\<rparr>)"
  proof (cases "CC_LinkID cc = []")
    case True
    then show ?thesis using assms by (simp add: order_link_id_def spec_ok_link xid_string_ascii)
  next
    case False
    then have "cc\<lparr>CC_LinkID := ?l\<rparr> = cc" by (simp add: order_link_id_def)
    then show ?thesis using assms by simp
  qed
  then obtain xs d where p: "generatePatch (LE_range env) (cc\<lparr>CC_LinkID := ?l\<rparr>) = Inr (patch_text xs)"
    "apply_patch xs (spec_json empty_spec) = Some d"
    "same_value d (spec_json (cc\<lparr>CC_LinkID := ?l\<rparr>))"
    using generatePatch_ok by blast
  have same: "CC_LinkID cc \<noteq> [] \<Longrightarrow> generatePatch (LE_range env) cc = Inr (patch_text xs)"
    using p(1) by (simp add: order_link_id_def)
  let ?cc = "cc\<lparr>CC_LinkID := ?l\<rparr>"
  have "NewOrder env kc cc ctr =
      (Inr (make_order env kc ?cc (patch_text xs)), if CC_LinkID cc = [] then ctr + 1 else ctr)"
  proof (cases "CC_LinkID cc = []")
    case True
    obtain uid where "xid_new (LE_xid env) (LE_xid_secs env) ctr = (uid, ctr + 1)"
      using x by (metis prod.collapse)
    then show ?thesis using True p(1) by (simp add: NewOrder_def order_link_id_def)
  next
    case False
    then have "?cc = cc" by (simp add: order_link_id_def)
    then show ?thesis using False same by (simp add: NewOrder_def)
  qed
  then show ?thesis
    by (rule that) (use p(2,3) in \<open>(simp_all add: make_order_def)+\<close>)
qed

text \<open>On values that differ from the empty ones in the link id only, the patch is one operation.\<close>

lemma patch_of_link_id:
  assumes "ascii l" "l \<noteq> []"
  shows "CreatePatch (\<lambda>_ _ ms. ms) (json_text (spec_json empty_spec)) (json_text (spec_json (empty_spec\<lparr>CC_LinkID := l\<rparr>))) =
    Inr [NewOperation ''replace'' ''/linkID'' (JStr l)]"
proof -
  let ?a = "spec_json empty_spec" and ?b = "spec_json (empty_spec\<lparr>CC_LinkID := l\<rparr>)"
  have ok: "spec_ok empty_spec" "spec_ok (empty_spec\<lparr>CC_LinkID := l\<rparr>)"
    using spec_ok_empty spec_ok_link [OF spec_ok_empty assms(1)] by simp_all
  have "?a \<noteq> ?b" using assms(2) by (simp add: spec_json_def empty_spec_def)
  then have "json_text ?a \<noteq> json_text ?b"
    using json_codec.enc_inj ok unfolding spec_ok_def by blast
  moreover have "handleValues (\<lambda>_ _ ms. ms) ?a ?b [] = [NewOperation ''replace'' ''/linkID'' (JStr l)]"
    using assms(2) by (simp add: spec_json_def empty_spec_def Container_json_def json_strings_def
        json_map_def ServiceAccountSpec_json_def makePath_def rfc6901Encoder_def ranged_def)
  ultimately show ?thesis
    using ok json_decode_text [of ?a] json_decode_text [of ?b]
    by (simp add: CreatePatch_def spec_ok_def)
qed

text \<open>What a generator prints for an order with one package.\<close>

lemma generate_script_one:
  "Ord_Packages order = [Some c] \<Longrightarrow>
   generate_script p bs order =
     (case p bs (Ord_UID order) c of
        Inl err \<Rightarrow> Inl err
      | Inr t \<Rightarrow> Inr [\<lparr>Sc_OS = [], Sc_URL = [], Sc_Command = [],
          Sc_Script = trim_space (t @ [CHR 0x0A])\<rparr>])"
  by (simp add: generate_script_def split: sum.splits)

lemma GenerateScripts_one:
  "Ord_Packages order = [Some c] \<Longrightarrow>
   GenerateScripts yaml helm3 bs order = Some
     (case yaml bs (Ord_UID order) c of
        Inl err \<Rightarrow> Inl err
      | Inr y \<Rightarrow>
          (case helm3 bs (Ord_UID order) c of
             Inl err \<Rightarrow> Inl err
           | Inr h \<Rightarrow> Inr [''yaml'' \<mapsto> trim_space (y @ [CHR 0x0A]),
               ''helm3'' \<mapsto> trim_space (h @ [CHR 0x0A])]))"
  by (simp add: GenerateScripts_def generate_script_one first_script_def split: sum.splits)

text \<open>The link made of an order with one package, by what the two printers give for it.\<close>

definition printed_link :: "printer \<Rightarrow> printer \<Rightarrow> BlobStore \<Rightarrow> string \<Rightarrow> ChartSelection \<Rightarrow> Link result" where
  "printed_link yaml helm3 bs uid c =
     (case yaml bs uid c of
        Inl err \<Rightarrow> Inl err
      | Inr y \<Rightarrow>
          (case helm3 bs uid c of
             Inl err \<Rightarrow> Inl err
           | Inr h \<Rightarrow> Inr \<lparr>Link_LinkID = uid,
               Scripts = [''yaml'' \<mapsto> trim_space (y @ [CHR 0x0A]),
                 ''helm3'' \<mapsto> trim_space (h @ [CHR 0x0A])]\<rparr>))"

lemma printed_link_id: "printed_link yaml helm3 bs uid c = Inr l \<Longrightarrow> Link_LinkID l = uid"
  by (auto simp: printed_link_def split: sum.splits)

lemma Generate_ok:
  assumes "spec_ok cv"
  obtains order c where "fst (NewOrder env kc cv ctr) = Inr order"
    "Ord_UID order = order_link_id env cv ctr" "Ord_Packages order = [Some c]"
    "Generate env yaml helm3 kc bs cv ctr = (Some
      (printed_link yaml helm3 bs (Ord_UID order) c),
      if CC_LinkID cv = [] then ctr + 1 else ctr)"
proof -
  obtain order c where o: "NewOrder env kc cv ctr =
      (Inr order, if CC_LinkID cv = [] then ctr + 1 else ctr)"
    "Ord_UID order = order_link_id env cv ctr" "Ord_Packages order = [Some c]"
    using NewOrder_ok [OF assms, of env kc ctr] by metis
  show ?thesis
    by (rule that [of order c])
      (use o in \<open>auto simp: Generate_def GenerateScripts_one printed_link_def split: sum.splits\<close>)
qed

section \<open>Properties\<close>

text \<open>C13: An order for the connector's chart is made for all values whose strings and member names are
  ASCII, each object having every member once, as structs and Go maps do. Its UID is the link
  id of the values, or a fresh identifier when they have none, in which case the identifier
  counter moves on by one. It has one package, whose values patch, applied to the empty values,
  gives exactly the values with the link id set to the order's UID, up to the order of members.\<close>

theorem order_values:
  assumes "spec_ok cc"
  shows "\<exists>order c xs d. NewOrder env kc cc ctr =
      (Inr order, if CC_LinkID cc = [] then ctr + 1 else ctr) \<and>
    Ord_UID order = order_link_id env cc ctr \<and> Ord_Packages order = [Some c] \<and>
    Ch_ValuesPatch c = Some (patch_text xs) \<and>
    apply_patch xs (spec_json empty_spec) = Some d \<and>
    same_value d (spec_json (cc\<lparr>CC_LinkID := Ord_UID order\<rparr>))"
  using NewOrder_ok [OF assms, of env kc ctr] by metis

theorem order_values_witness:
  "\<exists>order c xs d. NewOrder \<lparr>LE_getenv = \<lambda>_. [], LE_xid = \<lparr>machineID = (1, 2, 3), pid = 4\<rparr>,
      LE_xid_secs = 5, LE_now = 6, LE_range = \<lambda>_ _ ms. ms\<rparr> None (empty_spec\<lparr>CC_Platform := \<lparr>Plat_BaseURL = ''https://a.b''\<rparr>\<rparr>) 7 = (Inr order, 8) \<and>
    Ord_Packages order = [Some c] \<and> Ch_ValuesPatch c = Some (patch_text xs) \<and>
    apply_patch xs (spec_json empty_spec) = Some d \<and>
    same_value d (spec_json (empty_spec\<lparr>CC_Platform := \<lparr>Plat_BaseURL = ''https://a.b''\<rparr>, CC_LinkID := Ord_UID order\<rparr>))"
proof -
  have "spec_ok (empty_spec\<lparr>CC_Platform := \<lparr>Plat_BaseURL = ''https://a.b''\<rparr>\<rparr>)"
    using spec_ok_empty by (simp add: spec_ok_def spec_json_def ascii_def)
  from order_values [OF this, of "\<lparr>LE_getenv = \<lambda>_. [], LE_xid = \<lparr>machineID = (1, 2, 3), pid = 4\<rparr>,
      LE_xid_secs = 5, LE_now = 6, LE_range = \<lambda>_ _ ms. ms\<rparr>" None 7] show ?thesis
    by (simp add: empty_spec_def) metis
qed

text \<open>C14: Generating a link never panics on an empty list of scripts: a generator that succeeds
  gives exactly one. It fails only if one of the two printers fails, and otherwise the link has
  the UID of the order as its id, and the two printed scripts without blanks around them.\<close>

theorem link_generated:
  assumes "spec_ok cv"
  shows "\<exists>order c r. fst (NewOrder env kc cv ctr) = Inr order \<and> Ord_Packages order = [Some c] \<and>
    Generate env yaml helm3 kc bs cv ctr = (Some r, if CC_LinkID cv = [] then ctr + 1 else ctr) \<and>
    (case r of
       Inl err \<Rightarrow> yaml bs (Ord_UID order) c = Inl err \<or> helm3 bs (Ord_UID order) c = Inl err
     | Inr l \<Rightarrow> Link_LinkID l = order_link_id env cv ctr \<and> dom (Scripts l) = {''yaml'', ''helm3''} \<and>
         (\<exists>y. yaml bs (Link_LinkID l) c = Inr y \<and> Scripts l ''yaml'' = Some (trim_space (y @ [CHR 0x0A]))) \<and>
         (\<exists>h. helm3 bs (Link_LinkID l) c = Inr h \<and> Scripts l ''helm3'' = Some (trim_space (h @ [CHR 0x0A]))))"
proof -
  obtain order c where "fst (NewOrder env kc cv ctr) = Inr order"
    "Ord_UID order = order_link_id env cv ctr" "Ord_Packages order = [Some c]"
    "Generate env yaml helm3 kc bs cv ctr = (Some
      (printed_link yaml helm3 bs (Ord_UID order) c),
      if CC_LinkID cv = [] then ctr + 1 else ctr)"
    using Generate_ok [OF assms, of env kc ctr yaml helm3 bs] .
  then show ?thesis
    by (cases "yaml bs (Ord_UID order) c"; cases "helm3 bs (Ord_UID order) c")
      (auto simp: printed_link_def)
qed

lemma trim_echo: "trim_space (''echo l1'' @ [CHR 0x0A]) = ''echo l1''"
  by code_simp

theorem link_generated_witness:
  "\<exists>l. Generate \<lparr>LE_getenv = \<lambda>_. [], LE_xid = \<lparr>machineID = (1, 2, 3), pid = 4\<rparr>, LE_xid_secs = 5,
      LE_now = 6, LE_range = \<lambda>_ _ ms. ms\<rparr> (\<lambda>_ uid _. Inr (''echo '' @ uid)) (\<lambda>_ _ c. Inr (''helm '' @ Ch_Name c)) None
      \<lparr>BS_Host = ''h'', BS_Bucket = ''b''\<rparr> (empty_spec\<lparr>CC_LinkID := ''l1''\<rparr>) 7 = (Some (Inr l), 7) \<and>
    Link_LinkID l = ''l1'' \<and> Scripts l ''yaml'' = Some ''echo l1''"
proof -
  have "spec_ok (empty_spec\<lparr>CC_LinkID := ''l1''\<rparr>)"
    by (rule spec_ok_link [OF spec_ok_empty]) (simp add: ascii_def)
  from link_generated [OF this, of "\<lparr>LE_getenv = \<lambda>_. [], LE_xid = \<lparr>machineID = (1, 2, 3), pid = 4\<rparr>,
      LE_xid_secs = 5, LE_now = 6, LE_range = \<lambda>_ _ ms. ms\<rparr>" None 7 "\<lambda>_ uid _. Inr (''echo '' @ uid)"
      "\<lambda>_ _ c. Inr (''helm '' @ Ch_Name c)" "\<lparr>BS_Host = ''h'', BS_Bucket = ''b''\<rparr>"]
  show ?thesis
    using trim_echo
    by (elim exE conjE) (rename_tac order c r, case_tac r, auto simp: order_link_id_def)
qed

end
