(* ===== verification/RestConfig.thy ===== *)
theory RestConfig
  imports TlsCache
begin

text \<open>
  The entry points for API clients: \<open>pkg/rest\<close> puts a NATS transport into a client-go
  configuration, \<open>pkg/http\<close> makes HTTP clients over one, and \<open>pkg/clientcmd\<close> is the getter that
  command line tools use. What client-go then does with such a configuration
  (\<open>rest.TransportConfig\<close>, \<open>transport.New\<close>, \<open>rest.HTTPClientFor\<close>, all vendored) is modelled too,
  since it decides whether the configuration is of any use.
\<close>

section \<open>client-go's configuration\<close>

record rest_config =
  RC_Host :: string
  RC_Username :: string
  RC_Password :: string
  RC_BearerToken :: string
  RC_BearerTokenFile :: string
  RC_Impersonate :: ImpersonationConfig
  RC_AuthProvider :: "nat option"
  RC_ExecProvider :: "nat option"
  RC_Insecure :: bool
  RC_ServerName :: string
  RC_CertFile :: string
  RC_KeyFile :: string
  RC_CAFile :: string
  RC_CertData :: bytes
  RC_KeyData :: bytes
  RC_CAData :: bytes
  RC_NextProtos :: "string list"
  RC_UserAgent :: string
  RC_DisableCompression :: bool
  RC_Transport :: "rt option"
  RC_WrapTransport :: "nat option"
  RC_Timeout :: duration
  RC_Dial :: "nat option"
  RC_Proxy :: "nat option"

text \<open>
  Authentication plugins are code outside: an exec plugin updates the transport configuration,
  an auth provider gives a wrapper that is composed with the one there is.
\<close>

record plugin_env =
  exec_update :: "nat \<Rightarrow> rt Config \<Rightarrow> rt Config result"
  auth_wrapper :: "nat \<Rightarrow> nat result"
  compose_wrappers :: "nat option \<Rightarrow> nat \<Rightarrow> nat"

definition base_transport_config :: "rest_config \<Rightarrow> rt Config" where
  "base_transport_config c = \<lparr>UserAgent = RC_UserAgent c,
     TLS = \<lparr>CAFile = RC_CAFile c, CertFile = RC_CertFile c, KeyFile = RC_KeyFile c,
       ReloadTLSFiles = False, Insecure = RC_Insecure c, ServerName = RC_ServerName c,
       CAData = RC_CAData c, CertData = RC_CertData c, KeyData = RC_KeyData c,
       NextProtos = RC_NextProtos c, GetCertHolder = None\<rparr>,
     Username = RC_Username c, Password = RC_Password c, BearerToken = RC_BearerToken c,
     BearerTokenFile = RC_BearerTokenFile c, Impersonate = RC_Impersonate c,
     DisableCompression = RC_DisableCompression c, Transport = RC_Transport c,
     WrapTransport = RC_WrapTransport c, DialHolder = RC_Dial c, Proxy = RC_Proxy c\<rparr>"

definition TransportConfig :: "plugin_env \<Rightarrow> rest_config \<Rightarrow> rt Config result" where
  "TransportConfig pl c =
     (let conf = base_transport_config c
      in if RC_ExecProvider c \<noteq> None \<and> RC_AuthProvider c \<noteq> None
         then Inl (ErrNew ''execProvider and authProvider cannot be used in combination'')
         else case (case RC_ExecProvider c of None \<Rightarrow> Inr conf | Some p \<Rightarrow> exec_update pl p conf) of
           Inl err \<Rightarrow> Inl err
         | Inr conf1 \<Rightarrow>
             (case RC_AuthProvider c of
                None \<Rightarrow> Inr conf1
              | Some p \<Rightarrow>
                  (case auth_wrapper pl p of
                     Inl err \<Rightarrow> Inl err
                   | Inr w \<Rightarrow> Inr (conf1\<lparr>WrapTransport :=
                       Some (compose_wrappers pl (WrapTransport conf1) w)\<rparr>))))"

text \<open>
  client-go's own \<open>transport.New\<close>; \<open>direct\<close> stands for its cache of plain TLS transports. Holders
  without a function (\<open>isValidHolders\<close>) do not occur: a holder is only made around one.
\<close>

definition custom_transport_with_tls :: go_error where
  "custom_transport_with_tls = ErrNew (''using a custom transport with TLS certificate options '' @
     ''or the insecure flag is not allowed'')"

definition client_go_New ::
    "wrap_env \<Rightarrow> (rt Config \<Rightarrow> rt result) \<Rightarrow> rt Config \<Rightarrow> rt result" where
  "client_go_New env direct config =
     (if Transport config \<noteq> None \<and>
         (HasCA config \<or> HasCertAuth config \<or> HasCertCallback config \<or> Insecure (TLS config))
      then Inl custom_transport_with_tls
      else case (case Transport config of Some t \<Rightarrow> Inr t | None \<Rightarrow> direct config) of
        Inl err \<Rightarrow> Inl err
      | Inr r \<Rightarrow> HTTPWrappersForConfig env config r)"

record rest_client =
  RCl_Transport :: rt
  RCl_Timeout :: duration

definition TransportFor ::
    "wrap_env \<Rightarrow> plugin_env \<Rightarrow> (rt Config \<Rightarrow> rt result) \<Rightarrow> rest_config \<Rightarrow> rt result" where
  "TransportFor env pl direct c =
     (case TransportConfig pl c of Inl err \<Rightarrow> Inl err | Inr cfg \<Rightarrow> client_go_New env direct cfg)"

definition HTTPClientFor ::
    "wrap_env \<Rightarrow> plugin_env \<Rightarrow> (rt Config \<Rightarrow> rt result) \<Rightarrow> rest_config \<Rightarrow> rest_client result" where
  "HTTPClientFor env pl direct c =
     (case TransportFor env pl direct c of
        Inl err \<Rightarrow> Inl err
      | Inr t \<Rightarrow>
          if t \<noteq> DefaultRT \<or> sint (RC_Timeout c) > 0
          then Inr \<lparr>RCl_Transport = t, RCl_Timeout = RC_Timeout c\<rparr>
          else Inr \<lparr>RCl_Transport = DefaultRT, RCl_Timeout = 0\<rparr>)"

section \<open>pkg/rest\<close>

text \<open>
  \<open>GetNoCopyConfig\<close> changes the configuration it is given and returns it, also along with an
  error of \<open>transport.New\<close>, in which case it is left without a transport. All entry points share the process-wide
  transport cache, which is passed along.
\<close>

record world =
  W_env :: wrap_env
  W_fs :: file_system
  W_crypto :: crypto
  W_plugins :: plugin_env

text \<open>
  \<open>kubernetes.NewForConfig\<close> (client-go); the default user agent and the making of a clientset around
  an HTTP client are arguments.
\<close>

definition NewForConfig ::
    "world \<Rightarrow> (rt Config \<Rightarrow> rt result) \<Rightarrow> string \<Rightarrow> (rest_config \<Rightarrow> rest_client \<Rightarrow> 'c result) \<Rightarrow>
     rest_config \<Rightarrow> 'c result" where
  "NewForConfig w direct user_agent clientset c =
     (let copy = (if RC_UserAgent c = [] then c\<lparr>RC_UserAgent := user_agent\<rparr> else c)
      in case HTTPClientFor (W_env w) (W_plugins w) direct copy of
           Inl err \<Rightarrow> Inl err
         | Inr httpClient \<Rightarrow> clientset copy httpClient)"

definition hub_New ::
    "world \<Rightarrow> rt Config \<Rightarrow> nat option \<Rightarrow> names \<Rightarrow> tlsTransportCache \<Rightarrow>
     rt result \<times> tlsTransportCache" where
  "hub_New w cfg nc n s =
     (let (r, _, s') = New (W_env w) (W_fs w) (W_crypto w) cfg nc n Timeout s in (r, s'))"

definition GetNoCopyConfig ::
    "world \<Rightarrow> rest_config \<Rightarrow> nat option \<Rightarrow> names \<Rightarrow> tlsTransportCache \<Rightarrow>
     (rest_config option \<times> go_error option) \<times> tlsTransportCache" where
  "GetNoCopyConfig w copy nc n s =
     (if nc = None then ((Some copy, None), s)
      else case TransportConfig (W_plugins w) copy of
        Inl err \<Rightarrow> ((None, Some err), s)
      | Inr cfg \<Rightarrow>
          (case hub_New w cfg nc n s of
             (Inl err, s') \<Rightarrow> ((Some (copy\<lparr>RC_Transport := None\<rparr>), Some err), s')
           | (Inr t, s') \<Rightarrow> ((Some (copy\<lparr>RC_Transport := Some t\<rparr>), None), s')))"

text \<open>\<open>rest.CopyConfig\<close> copies field by field; of the fields modelled it forgets none.\<close>

definition CopyConfig :: "rest_config \<Rightarrow> rest_config" where
  "CopyConfig c =
     \<lparr>RC_Host = RC_Host c, RC_Username = RC_Username c, RC_Password = RC_Password c,
      RC_BearerToken = RC_BearerToken c, RC_BearerTokenFile = RC_BearerTokenFile c,
      RC_Impersonate = RC_Impersonate c, RC_AuthProvider = RC_AuthProvider c,
      RC_ExecProvider = RC_ExecProvider c, RC_Insecure = RC_Insecure c,
      RC_ServerName = RC_ServerName c, RC_CertFile = RC_CertFile c, RC_KeyFile = RC_KeyFile c,
      RC_CAFile = RC_CAFile c, RC_CertData = RC_CertData c, RC_KeyData = RC_KeyData c,
      RC_CAData = RC_CAData c, RC_NextProtos = RC_NextProtos c, RC_UserAgent = RC_UserAgent c,
      RC_DisableCompression = RC_DisableCompression c, RC_Transport = RC_Transport c,
      RC_WrapTransport = RC_WrapTransport c, RC_Timeout = RC_Timeout c, RC_Dial = RC_Dial c,
      RC_Proxy = RC_Proxy c\<rparr>"

lemma CopyConfig_same: "CopyConfig c = c"
  by (simp add: CopyConfig_def)

definition GetForRestConfig ::
    "world \<Rightarrow> rest_config \<Rightarrow> nat option \<Rightarrow> names \<Rightarrow> tlsTransportCache \<Rightarrow>
     (rest_config option \<times> go_error option) \<times> tlsTransportCache" where
  "GetForRestConfig w config nc n s = GetNoCopyConfig w (CopyConfig config) nc n s"

text \<open>Loading a kubeconfig is client-go's: \<open>load\<close> parses it, \<open>client_config\<close> picks the context.\<close>

definition GetForKubeConfig ::
    "world \<Rightarrow> (bytes \<Rightarrow> 'k result) \<Rightarrow> ('k \<Rightarrow> string \<Rightarrow> rest_config result) \<Rightarrow> bytes \<Rightarrow> string \<Rightarrow>
     nat option \<Rightarrow> names \<Rightarrow> tlsTransportCache \<Rightarrow>
     (rest_config option \<times> go_error option) \<times> tlsTransportCache" where
  "GetForKubeConfig w load client_config kubeconfigBytes contextName nc n s =
     (case load kubeconfigBytes of
        Inl err \<Rightarrow> ((None, Some err), s)
      | Inr kubeconfig \<Rightarrow>
          (case client_config kubeconfig contextName of
             Inl err \<Rightarrow> ((None, Some err), s)
           | Inr config \<Rightarrow> GetNoCopyConfig w config nc n s))"

section \<open>pkg/http\<close>

record hub_client = HCl_Transport :: rt

definition NewClientForConfig ::
    "world \<Rightarrow> rt Config \<Rightarrow> nat option \<Rightarrow> names \<Rightarrow> tlsTransportCache \<Rightarrow>
     hub_client result \<times> tlsTransportCache" where
  "NewClientForConfig w cfg nc n s =
     (case hub_New w cfg nc n s of
        (Inl err, s') \<Rightarrow> (Inl err, s')
      | (Inr t, s') \<Rightarrow> (Inr \<lparr>HCl_Transport = t\<rparr>, s'))"

definition NewClient ::
    "world \<Rightarrow> nat option \<Rightarrow> names \<Rightarrow> tlsTransportCache \<Rightarrow> hub_client result \<times> tlsTransportCache" where
  "NewClient w nc n s =
     (case hub_New w empty_Config nc n s of
        (Inl err, s') \<Rightarrow> (Inl err, s')
      | (Inr t, s') \<Rightarrow> (Inr \<lparr>HCl_Transport = t\<rparr>, s'))"

definition NewTLSClient ::
    "world \<Rightarrow> TLSConfig \<Rightarrow> nat option \<Rightarrow> names \<Rightarrow> tlsTransportCache \<Rightarrow>
     hub_client result \<times> tlsTransportCache" where
  "NewTLSClient w tls nc n s =
     (case hub_New w (empty_Config\<lparr>TLS := tls\<rparr>) nc n s of
        (Inl err, s') \<Rightarrow> (Inl err, s')
      | (Inr t, s') \<Rightarrow> (Inr \<lparr>HCl_Transport = t\<rparr>, s'))"

section \<open>pkg/clientcmd\<close>

text \<open>
  The getter holds a parsed kubeconfig; \<open>default_client_config\<close> is client-go's loader with no
  overrides. Discovery and mapping are made of the configuration by client-go.
\<close>

record 'k restClientGetter =
  G_config :: 'k
  G_nc :: "nat option"
  G_names :: names

definition NewClientGetter :: "'k \<Rightarrow> nat option \<Rightarrow> names \<Rightarrow> 'k restClientGetter" where
  "NewClientGetter config nc n = \<lparr>G_config = config, G_nc = nc, G_names = n\<rparr>"

definition ToRawKubeConfigLoader ::
    "('k \<Rightarrow> rest_config result) \<Rightarrow> 'k restClientGetter \<Rightarrow> rest_config result" where
  "ToRawKubeConfigLoader default_client_config r = default_client_config (G_config r)"

text \<open>A getter made of flags is client-go's own, whose flags are added if there is a set of flags.\<close>

definition NewClientGetterFromFlags ::
    "(bool \<Rightarrow> 'g) \<Rightarrow> ('g \<Rightarrow> 'fs \<Rightarrow> 'fs) \<Rightarrow> 'fs option \<Rightarrow> 'g \<times> 'fs option" where
  "NewClientGetterFromFlags new_config_flags add_flags fs =
     (let client = new_config_flags True in (client, map_option (add_flags client) fs))"

definition ToRESTConfig ::
    "world \<Rightarrow> ('k \<Rightarrow> rest_config result) \<Rightarrow> 'k restClientGetter \<Rightarrow> tlsTransportCache \<Rightarrow>
     (rest_config option \<times> go_error option) \<times> tlsTransportCache" where
  "ToRESTConfig w default_client_config r s =
     (case ToRawKubeConfigLoader default_client_config r of
        Inl err \<Rightarrow> ((None, Some err), s)
      | Inr c2 \<Rightarrow> GetNoCopyConfig w c2 (G_nc r) (G_names r) s)"

definition ToDiscoveryClient ::
    "world \<Rightarrow> ('k \<Rightarrow> rest_config result) \<Rightarrow> (rest_config \<Rightarrow> 'd result) \<Rightarrow> 'k restClientGetter \<Rightarrow>
     tlsTransportCache \<Rightarrow> 'd result \<times> tlsTransportCache" where
  "ToDiscoveryClient w default_client_config new_discovery r s =
     (case ToRESTConfig w default_client_config r s of
        ((_, Some err), s') \<Rightarrow> (Inl err, s')
      | ((Some config, None), s') \<Rightarrow> (new_discovery config, s')
      | ((None, None), s') \<Rightarrow> (Inl (ErrNew ''nil configuration''), s'))"

definition ToRESTMapper ::
    "world \<Rightarrow> ('k \<Rightarrow> rest_config result) \<Rightarrow> (rt Config \<Rightarrow> rt result) \<Rightarrow>
     (rest_config \<Rightarrow> rest_client \<Rightarrow> 'm result) \<Rightarrow> 'k restClientGetter \<Rightarrow>
     tlsTransportCache \<Rightarrow> 'm result \<times> tlsTransportCache" where
  "ToRESTMapper w default_client_config direct new_mapper r s =
     (case ToRESTConfig w default_client_config r s of
        ((_, Some err), s') \<Rightarrow> (Inl err, s')
      | ((Some config, None), s') \<Rightarrow>
          (case HTTPClientFor (W_env w) (W_plugins w) direct config of
             Inl err \<Rightarrow> (Inl err, s')
           | Inr hc \<Rightarrow> (new_mapper config hc, s'))
      | ((None, None), s') \<Rightarrow> (Inl (ErrNew ''nil configuration''), s'))"

section \<open>Lemmas\<close>

lemma GetNoCopyConfig_ok:
  assumes "GetNoCopyConfig w c (Some k) n s = ((r, None), s')"
  obtains cfg t cfg' where "TransportConfig (W_plugins w) c = Inr cfg"
    "New (W_env w) (W_fs w) (W_crypto w) cfg (Some k) n Timeout s = (Inr t, cfg', s')"
    "r = Some (c\<lparr>RC_Transport := Some t\<rparr>)"
  using assms
  by (auto simp: GetNoCopyConfig_def hub_New_def split: sum.splits prod.splits)

lemma TransportConfig_plain:
  "RC_ExecProvider c = None \<Longrightarrow> RC_AuthProvider c = None \<Longrightarrow>
   TransportConfig pl c = Inr (base_transport_config c)"
  by (simp add: TransportConfig_def Let_def)

lemma base_transport_config_set:
  "base_transport_config (c\<lparr>RC_Transport := t\<rparr>) = (base_transport_config c)\<lparr>Transport := t\<rparr>"
  by (simp add: base_transport_config_def)

definition wants_tls :: "rest_config \<Rightarrow> bool" where
  "wants_tls c \<longleftrightarrow> RC_CAData c \<noteq> [] \<or> RC_CAFile c \<noteq> [] \<or> RC_Insecure c \<or>
     (RC_CertData c \<noteq> [] \<or> RC_CertFile c \<noteq> []) \<and> (RC_KeyData c \<noteq> [] \<or> RC_KeyFile c \<noteq> [])"

lemma wants_tls_base:
  "wants_tls c \<longleftrightarrow> HasCA (base_transport_config c) \<or> HasCertAuth (base_transport_config c) \<or>
     HasCertCallback (base_transport_config c) \<or> Insecure (TLS (base_transport_config c))"
  by (auto simp: wants_tls_def HasCA_def HasCertAuth_def HasCertCallback_def
      base_transport_config_def)

lemma wrapped_base:
  "HTTPWrappersForConfig env c r = Inr w \<Longrightarrow> rt_base w = rt_base r"
  by (auto simp: HTTPWrappersForConfig_def DebugWrappers_def NewBearerAuthWithRefreshRoundTripper_def
      Let_def split: if_splits option.splits sum.splits)

text \<open>A configuration given a transport, and the HTTP client that is made of it.\<close>

lemma GetNoCopyConfig_tunnels:
  assumes "cache_step\<^sup>*\<^sup>* empty_cache s" "GetNoCopyConfig w c (Some k) n s = ((Some c', None), s')"
    and "HTTPClientFor (W_env w) (W_plugins w) direct (c'\<lparr>RC_UserAgent := ua\<rparr>) = Inr hc"
    and "RC_ExecProvider c = None" "RC_AuthProvider c = None"
  shows "\<exists>a t. rt_base (RCl_Transport hc) = NatsRT a \<and> heap s' a = Some t \<and>
    GetLinkID (Names t) = GetLinkID n \<and> c' = c\<lparr>RC_Transport := RC_Transport c'\<rparr> \<and>
    \<not> wants_tls c"
proof -
  let ?cfg = "base_transport_config c"
  obtain cfg t cfg' where "TransportConfig (W_plugins w) c = Inr cfg"
    "New (W_env w) (W_fs w) (W_crypto w) cfg (Some k) n Timeout s = (Inr t, cfg', s')"
    "Some c' = Some (c\<lparr>RC_Transport := Some t\<rparr>)" using GetNoCopyConfig_ok [OF assms(2)] .
  then have t: "New (W_env w) (W_fs w) (W_crypto w) ?cfg (Some k) n Timeout s = (Inr t, cfg', s')"
    "c' = c\<lparr>RC_Transport := Some t\<rparr>"
    using TransportConfig_plain [OF assms(4,5), of "W_plugins w"] by simp_all
  have inv: "cache_inv s" by (rule cache_machine.reachable_inv [OF refl assms(1)])
  obtain a where a: "cache_get (W_fs w) (W_crypto w) ?cfg (Some k) n Timeout s = (Inr a, cfg', s')"
    "rt_base t = NatsRT a" "Proxy ?cfg = None" using New_ok [OF t(1)] by metis
  obtain x c1 where "loadTLSFiles (W_fs w) ?cfg = (None, c1)"
    and x: "heap s' a = Some x" "serves (config_key c1 n) x"
    using cache_get_serves [OF inv a(1,3)] by blast
  let ?c2 = "?cfg\<lparr>Transport := Some t, UserAgent := ua\<rparr>"
  have tc: "TransportConfig (W_plugins w) (c'\<lparr>RC_UserAgent := ua\<rparr>) = Inr ?c2"
    using TransportConfig_plain [of "c'\<lparr>RC_UserAgent := ua\<rparr>" "W_plugins w"] assms(4,5) t(2)
    by (simp add: base_transport_config_def)
  have nt: "\<not> wants_tls c" and wr: "HTTPWrappersForConfig (W_env w) ?c2 t =
      Inr (RCl_Transport hc) \<or> RCl_Transport hc = DefaultRT \<and>
      HTTPWrappersForConfig (W_env w) ?c2 t = Inr DefaultRT"
    using assms(3) wants_tls_base [of c]
    by (auto simp: HTTPClientFor_def TransportFor_def tc client_go_New_def HasCA_def
        HasCertAuth_def HasCertCallback_def split: sum.splits if_splits)
  have "rt_base (RCl_Transport hc) = NatsRT a"
    using wr wrapped_base a(2) by metis
  then show ?thesis
    using x nt t(2) by (auto simp: serves_def config_key_link)
qed

lemma GetNoCopyConfig_tls_rejected:
  assumes "GetNoCopyConfig w c (Some k) n s = ((Some c', None), s')" "wants_tls c"
    and "RC_ExecProvider c = None" "RC_AuthProvider c = None"
  shows "HTTPClientFor (W_env w) (W_plugins w) direct (c'\<lparr>RC_UserAgent := ua\<rparr>) = Inl custom_transport_with_tls"
proof -
  obtain t where t: "c' = c\<lparr>RC_Transport := Some t\<rparr>"
    using GetNoCopyConfig_ok [OF assms(1)] by (metis option.inject)
  have "TransportConfig (W_plugins w) (c'\<lparr>RC_UserAgent := ua\<rparr>) =
      Inr ((base_transport_config c)\<lparr>Transport := Some t, UserAgent := ua\<rparr>)"
    using TransportConfig_plain [of "c'\<lparr>RC_UserAgent := ua\<rparr>" "W_plugins w"] assms(3,4) t
    by (simp add: base_transport_config_def)
  then show ?thesis
    using assms(2) wants_tls_base [of c]
    by (simp add: HTTPClientFor_def TransportFor_def client_go_New_def HasCA_def HasCertAuth_def
        HasCertCallback_def)
qed

lemma NewForConfig_ok:
  assumes "NewForConfig w direct ua clientset c = Inr kc"
  obtains ua' hc where "HTTPClientFor (W_env w) (W_plugins w) direct (c\<lparr>RC_UserAgent := ua'\<rparr>) = Inr hc"
    "clientset (c\<lparr>RC_UserAgent := ua'\<rparr>) hc = Inr kc"
proof (cases "RC_UserAgent c = []")
  case True
  with assms that [of ua] show ?thesis by (auto simp: NewForConfig_def Let_def split: sum.splits)
next
  case False
  with assms that [of "RC_UserAgent c"] show ?thesis
    by (auto simp: NewForConfig_def Let_def split: sum.splits)
qed

text \<open>No clientset is made of a configuration with certificate options that was given a transport.\<close>

lemma NewForConfig_tls_rejected:
  assumes "GetNoCopyConfig w c (Some k) n s = ((Some c', None), s')" "wants_tls c"
    and "RC_ExecProvider c = None" "RC_AuthProvider c = None"
  shows "NewForConfig w direct ua clientset c' = Inl custom_transport_with_tls"
  using GetNoCopyConfig_tls_rejected [OF assms, of direct ua]
    GetNoCopyConfig_tls_rejected [OF assms, of direct "RC_UserAgent c'"]
  by (simp add: NewForConfig_def)

text \<open>A world without plugins or wrappers, and a configuration of a host only.\<close>

definition sample_world :: world where
  "sample_world = \<lparr>W_env = sample_wrap, W_fs = \<lambda>_. Inr [], W_crypto = no_crypto,
     W_plugins = \<lparr>exec_update = \<lambda>_ c. Inr c, auth_wrapper = Inr, compose_wrappers = \<lambda>_ w. w\<rparr>\<rparr>"

definition host_config :: rest_config where
  "host_config = \<lparr>RC_Host = ''h'', RC_Username = [], RC_Password = [], RC_BearerToken = [],
     RC_BearerTokenFile = [], RC_Impersonate =
       \<lparr>Imp_UserName = [], Imp_UID = [], Imp_Groups = [], Imp_Extra = []\<rparr>,
     RC_AuthProvider = None, RC_ExecProvider = None, RC_Insecure = False, RC_ServerName = [],
     RC_CertFile = [], RC_KeyFile = [], RC_CAFile = [], RC_CertData = [], RC_KeyData = [],
     RC_CAData = [], RC_NextProtos = [], RC_UserAgent = [], RC_DisableCompression = False,
     RC_Transport = None, RC_WrapTransport = None, RC_Timeout = 0, RC_Dial = None,
     RC_Proxy = None\<rparr>"

lemma host_base: "base_transport_config host_config = empty_Config"
  by (simp add: base_transport_config_def host_config_def empty_Config_def empty_TLS_def)

lemma host_plugins: "RC_ExecProvider host_config = None" "RC_AuthProvider host_config = None"
  by (simp_all add: host_config_def)

lemma host_proxied: "GetNoCopyConfig sample_world host_config (Some k) n empty_cache =
    ((Some (host_config\<lparr>RC_Transport := Some (NatsRT 0)\<rparr>), None),
     put_transport (config_key (empty_Config :: rt Config) n) 0
       (snd (alloc \<lparr>Conn = Some k, Names = n, NT_Timeout = Timeout, NT_DisableCompression = False,
          NT_TLS = None\<rparr> empty_cache)))"
  by (simp add: GetNoCopyConfig_def TransportConfig_plain [OF host_plugins] host_base hub_New_def
      sample_world_def first_New)

section \<open>Properties\<close>

text \<open>C32: A configuration without certificate options and without authentication plugins (exec or auth
  provider, whose wrappers could be anything) that was given a NATS transport works: if
  client-go makes an HTTP client of it, that client sends every request through the NATS transport
  of the caller's link, never directly; and nothing else in the configuration has changed.\<close>

theorem proxied_config_tunnels:
  assumes "cache_step\<^sup>*\<^sup>* empty_cache s" "GetNoCopyConfig w c (Some k) n s = ((Some c', None), s')"
    and "HTTPClientFor (W_env w) (W_plugins w) direct c' = Inr hc"
    and "RC_ExecProvider c = None" "RC_AuthProvider c = None"
  shows "\<exists>a t. rt_base (RCl_Transport hc) = NatsRT a \<and> heap s' a = Some t \<and>
    GetLinkID (Names t) = GetLinkID n \<and> c' = c\<lparr>RC_Transport := RC_Transport c'\<rparr> \<and>
    \<not> wants_tls c"
  using GetNoCopyConfig_tunnels [OF assms(1,2), of direct "RC_UserAgent c'"] assms(3,4,5) by simp

lemma host_client: "HTTPClientFor sample_wrap pl direct (host_config\<lparr>RC_Transport := Some (NatsRT 0)\<rparr>) =
    Inr \<lparr>RCl_Transport = NatsRT 0, RCl_Timeout = 0\<rparr>"
proof -
  have "TransportConfig pl (host_config\<lparr>RC_Transport := Some (NatsRT 0)\<rparr>) =
      Inr (empty_Config\<lparr>Transport := Some (NatsRT 0)\<rparr>)"
    using TransportConfig_plain [of "host_config\<lparr>RC_Transport := Some (NatsRT 0)\<rparr>" pl]
    by (simp add: base_transport_config_set host_base host_plugins)
  then show ?thesis
    by (simp add: HTTPClientFor_def TransportFor_def client_go_New_def HasCA_def HasCertAuth_def
        HasCertCallback_def empty_Config_def empty_TLS_def HTTPWrappersForConfig_def
        DebugWrappers_def HasBasicAuth_def HasTokenAuth_def sample_wrap_def Let_def
        host_config_def)
qed

theorem proxied_config_tunnels_witness:
  "\<exists>a t. rt_base (NatsRT 0) = NatsRT a \<and>
    heap (snd (GetNoCopyConfig sample_world host_config (Some 3) (CrossAccountNames ''l'') empty_cache)) a
      = Some t \<and> GetLinkID (Names t) = ''l'' \<and> \<not> wants_tls host_config"
  using proxied_config_tunnels [OF rtranclp.rtrancl_refl host_proxied [of 3 "CrossAccountNames ''l''"],
      where direct = "\<lambda>_. Inr DefaultRT"] host_client host_plugins host_proxied
  by (auto simp: sample_world_def)

text \<open>C33: A configuration without authentication plugins (exec or auth provider) that has a certificate
  authority, a client certificate or the insecure flag is of no use once it was given a NATS transport: \<open>GetNoCopyConfig\<close> leaves these options in the
  configuration, and client-go refuses to combine them with a transport of one's own. Every
  HTTP client for such a configuration fails to be made.\<close>

theorem proxied_config_with_tls_rejected:
  assumes "GetNoCopyConfig w c (Some k) n s = ((Some c', None), s')" "wants_tls c"
    and "RC_ExecProvider c = None" "RC_AuthProvider c = None"
  shows "HTTPClientFor (W_env w) (W_plugins w) direct c' = Inl custom_transport_with_tls"
  using GetNoCopyConfig_tls_rejected [OF assms, of direct "RC_UserAgent c'"] by simp

definition insecure_config :: rest_config where
  "insecure_config = host_config\<lparr>RC_Insecure := True\<rparr>"

lemma insecure_proxied: "\<exists>s'. GetNoCopyConfig sample_world insecure_config (Some k) n empty_cache =
    ((Some (insecure_config\<lparr>RC_Transport := Some (NatsRT 0)\<rparr>), None), s')"
  by (simp add: GetNoCopyConfig_def TransportConfig_def insecure_config_def host_config_def
      base_transport_config_def hub_New_def sample_world_def New_def cache_get_def tlsConfigKey_def
      loadTLSFiles_def dataFromSliceOrFile_def PersistableTLSConfigFor_def no_tls_requested_def
      HasCA_def HasCertAuth_def HasCertCallback_def empty_cache_def alloc_def
      HTTPWrappersForConfig_def DebugWrappers_def HasBasicAuth_def HasTokenAuth_def sample_wrap_def
      Let_def)

theorem proxied_config_with_tls_rejected_witness:
  "HTTPClientFor sample_wrap (W_plugins sample_world) (\<lambda>_. Inr DefaultRT)
     (insecure_config\<lparr>RC_Transport := Some (NatsRT 0)\<rparr>) = Inl custom_transport_with_tls"
proof -
  obtain s' where "GetNoCopyConfig sample_world insecure_config (Some 3) (SameAccountNames ''l'') empty_cache =
    ((Some (insecure_config\<lparr>RC_Transport := Some (NatsRT 0)\<rparr>), None), s')"
    using insecure_proxied by blast
  from proxied_config_with_tls_rejected [OF this, of "\<lambda>_. Inr DefaultRT"] show ?thesis
    by (simp add: insecure_config_def wants_tls_def host_config_def sample_world_def)
qed

end
