(* ===== verification/DemoServer.thy ===== *)
theory DemoServer
  imports Link RestConfig
begin

text \<open>
  \<open>cmd/demo-server/handlers.go\<close>: the platform's side of linking. A link is generated for a user's
  kubeconfig and remembered for ten minutes; the callback of the connector that was installed with
  it is accepted if the cluster behind the link has the id the connector reports. The cluster is
  asked through the tunnel.
\<close>

section \<open>State\<close>

text \<open>
  The package variable \<open>links\<close>, the process-wide transport cache, and the counter of the
  identifiers, which the tunnel uses too.
\<close>

record demo_state =
  links :: "string \<rightharpoonup> LinkData"
  demo_cache :: tlsTransportCache
  demo_ctr :: "32 word"

definition put_link :: "string \<Rightarrow> LinkData \<Rightarrow> demo_state \<Rightarrow> demo_state" where
  "put_link k v s = s\<lparr>links := (links s)(k \<mapsto> v)\<rparr>"

definition empty_demo :: "32 word \<Rightarrow> demo_state" where
  "empty_demo c = \<lparr>links = Map.empty, demo_cache = empty_cache, demo_ctr = c\<rparr>"

section \<open>Generating a link\<close>

definition genLink ::
    "link_env \<Rightarrow> printer \<Rightarrow> printer \<Rightarrow> int \<Rightarrow> BlobStore \<Rightarrow> User \<Rightarrow> LinkRequest \<Rightarrow> demo_state \<Rightarrow>
     Link result option \<times> demo_state" where
  "genLink env yaml helm3 now bs u req s =
     (case Generate env yaml helm3 None bs
             (empty_spec\<lparr>CC_LinkID := [], CC_Nats := \<lparr>N_Address = [], N_EncodedCreds = []\<rparr>\<rparr>)
             (demo_ctr s) of
        (None, ctr) \<Rightarrow> (None, s\<lparr>demo_ctr := ctr\<rparr>)
      | (Some (Inl err), ctr) \<Rightarrow> (Some (Inl err), s\<lparr>demo_ctr := ctr\<rparr>)
      | (Some (Inr l), ctr) \<Rightarrow>
          (Some (Inr l),
           put_link (Link_LinkID l)
             \<lparr>LinkData_LinkID = Link_LinkID l, LinkData_ClusterID = [],
              NotAfter = now + ConnectorLinkLifetime, LinkData_KubeConfig = KubeConfig req\<rparr>
             (s\<lparr>demo_ctr := ctr\<rparr>)))"

section \<open>The callback\<close>

text \<open>
  What the callback uses of client-go and \<open>fmt\<close>: loading a kubeconfig, plain transports, the
  default user agent, making a clientset of an HTTP client, reading the UID of a clientset's
  \<open>kube-system\<close> namespace, and the texts of a quoted string and of a duration.
\<close>

record ('k, 'c) callback_env =
  CE_world :: world
  CE_load :: "bytes \<Rightarrow> 'k result"
  CE_client_config :: "'k \<Rightarrow> string \<Rightarrow> rest_config result"
  CE_direct :: "rt Config \<Rightarrow> rt result"
  CE_user_agent :: string
  CE_clientset :: "rest_config \<Rightarrow> rest_client \<Rightarrow> 'c result"
  CE_namespace_uid :: "'c \<Rightarrow> string \<Rightarrow> string result"
  CE_quote :: "string \<Rightarrow> string"
  CE_duration_text :: "duration \<Rightarrow> string"

abbreviation callback_clientset :: "('k, 'c) callback_env \<Rightarrow> rest_config \<Rightarrow> 'c result" where
  "callback_clientset e \<equiv> NewForConfig (CE_world e) (CE_direct e) (CE_user_agent e) (CE_clientset e)"

definition ClusterUID :: "('k, 'c) callback_env \<Rightarrow> 'c \<Rightarrow> string result" where
  "ClusterUID e kc = CE_namespace_uid e kc ''kube-system''"

text \<open>
  \<open>%v\<close> of an error is its text. A nil configuration, which \<open>GetForKubeConfig\<close> never returns without
  an error, would be a nil dereference: the outer \<open>None\<close>. The last assignment of the handler is to
  its copy of the link (\<open>l\<close> is a struct value), which is not stored back.
\<close>

definition verify_cluster ::
    "('k, 'c) callback_env \<Rightarrow> CallbackRequest \<Rightarrow> LinkData \<Rightarrow> rest_config \<Rightarrow> go_error option \<times> LinkData" where
  "verify_cluster e req l cfg =
     (case callback_clientset e cfg of
        Inl err \<Rightarrow>
          (Some (ErrNew (''failed to creqate client for clustr id '' @ ClusterID req @
             '', reason: '' @ err_text err)), l)
      | Inr kc \<Rightarrow>
          (case ClusterUID e kc of
             Inl err \<Rightarrow>
               (Some (ErrNew (''failed to read cluster id for cluster '' @ ClusterID req @
                  '', reason '' @ err_text err)), l)
           | Inr actualClusterID \<Rightarrow>
               if ClusterID req \<noteq> actualClusterID
               then (Some (ErrNew (''actual cluster id '' @ actualClusterID @
                       '' does not match cluster id '' @ ClusterID req @ '' provided by l '' @
                       LinkID req)), l)
               else (None, l\<lparr>LinkData_ClusterID := ClusterID req\<rparr>)))"

definition handleCallback ::
    "('k, 'c) callback_env \<Rightarrow> int \<Rightarrow> nat option \<Rightarrow> CallbackRequest \<Rightarrow> demo_state \<Rightarrow>
     go_error option option \<times> demo_state" where
  "handleCallback e now nc req s =
     (case links s (LinkID req) of
        None \<Rightarrow> (Some (Some (ErrNew (''unknown l id '' @ CE_quote e (LinkID req)))), s)
      | Some l \<Rightarrow>
          if now > NotAfter l
          then (Some (Some (ErrNew (''l '' @ LinkData_LinkID l @ '' expired '' @
                  CE_duration_text e (time_sub now (NotAfter l)) @ '' ago''))), s)
          else
            let names = CrossAccountNames (LinkID req);
                ((cfg, err), cache) = GetForKubeConfig (CE_world e) (CE_load e) (CE_client_config e)
                  (LinkData_KubeConfig l) [] nc names (demo_cache s);
                s' = s\<lparr>demo_cache := cache\<rparr>
            in case err of
                 Some err \<Rightarrow>
                   (Some (Some (ErrNew (''failed to proxied rest config, reason: '' @ err_text err))), s')
               | None \<Rightarrow>
                   (case cfg of
                      None \<Rightarrow> (None, s')
                    | Some cfg \<Rightarrow> (Some (fst (verify_cluster e req l cfg)), s')))"

section \<open>Lemmas\<close>

interpretation link_table: keyed_store links put_link
  by unfold_locales (simp add: put_link_def)

lemma put_link_frame [simp]:
  "demo_cache (put_link k v s) = demo_cache s" "demo_ctr (put_link k v s) = demo_ctr s"
  by (simp_all add: put_link_def)

text \<open>The link data that is stored for a link generated at an instant for a request.\<close>

definition link_data :: "string \<Rightarrow> int \<Rightarrow> LinkRequest \<Rightarrow> LinkData" where
  "link_data lid t req = \<lparr>LinkData_LinkID = lid, LinkData_ClusterID = [],
     NotAfter = t + ConnectorLinkLifetime, LinkData_KubeConfig = KubeConfig req\<rparr>"

definition next_id :: "link_env \<Rightarrow> 32 word \<Rightarrow> string" where
  "next_id env ctr = xid_string (fst (xid_new (LE_xid env) (LE_xid_secs env) ctr))"

text \<open>Generating a link takes one identifier, and stores a link under it or changes nothing else.\<close>

lemma genLink_cases:
  obtains (failed) err where "genLink env yaml helm3 now bs u req s =
      (Some (Inl err), s\<lparr>demo_ctr := demo_ctr s + 1\<rparr>)"
      "\<exists>uid c. yaml bs uid c = Inl err \<or> helm3 bs uid c = Inl err"
  | (generated) l where "genLink env yaml helm3 now bs u req s =
      (Some (Inr l), put_link (next_id env (demo_ctr s)) (link_data (next_id env (demo_ctr s)) now req)
         (s\<lparr>demo_ctr := demo_ctr s + 1\<rparr>))"
      "Link_LinkID l = next_id env (demo_ctr s)"
proof -
  let ?cv = "empty_spec\<lparr>CC_LinkID := [], CC_Nats := \<lparr>N_Address = [], N_EncodedCreds = []\<rparr>\<rparr>"
  have cv: "?cv = empty_spec" by (simp add: empty_spec_def)
  have e: "CC_LinkID empty_spec = []" by (simp add: empty_spec_def)
  have "Generate env yaml helm3 None bs ?cv (demo_ctr s) =
      (Some (printed_link yaml helm3 bs (next_id env (demo_ctr s)) c), demo_ctr s + 1)"
    if "Ord_UID order = order_link_id env empty_spec (demo_ctr s)"
      "Generate env yaml helm3 None bs empty_spec (demo_ctr s) =
        (Some (printed_link yaml helm3 bs (Ord_UID order) c),
         if CC_LinkID empty_spec = [] then demo_ctr s + 1 else demo_ctr s)" for order c
    using that unfolding cv by (simp add: e order_link_id_def next_id_def)
  then obtain c where g: "Generate env yaml helm3 None bs ?cv (demo_ctr s) =
      (Some (printed_link yaml helm3 bs (next_id env (demo_ctr s)) c), demo_ctr s + 1)"
    by (metis Generate_ok [OF spec_ok_empty])
  show ?thesis
  proof (cases "printed_link yaml helm3 bs (next_id env (demo_ctr s)) c")
    case (Inl err)
    then have "\<exists>uid c. yaml bs uid c = Inl err \<or> helm3 bs uid c = Inl err"
      by (auto simp: printed_link_def split: sum.splits)
    with g Inl show ?thesis by (intro failed) (simp_all add: genLink_def)
  next
    case (Inr l)
    with g printed_link_id [OF Inr] show ?thesis
      by (intro generated) (simp_all add: genLink_def link_data_def)
  qed
qed

lemma GetNoCopyConfig_nil: "fst (GetNoCopyConfig w c nc n s) \<noteq> (None, None)"
  by (auto simp: GetNoCopyConfig_def split: sum.splits prod.splits)

lemma GetForKubeConfig_nil: "fst (GetForKubeConfig w load cl b x nc n s) \<noteq> (None, None)"
  using GetNoCopyConfig_nil by (auto simp: GetForKubeConfig_def split: sum.splits)

lemma hub_New_steps: "cache_step\<^sup>*\<^sup>* s (snd (hub_New w cfg nc n s))"
  by (auto simp: hub_New_def split: prod.splits intro: cache_step.new)

lemma GetForKubeConfig_steps: "cache_step\<^sup>*\<^sup>* s (snd (GetForKubeConfig w load cl b x nc n s))"
proof -
  have "cache_step\<^sup>*\<^sup>* s (snd (GetNoCopyConfig w c nc n s))" for c
    using hub_New_steps [of s w]
    by (auto simp: GetNoCopyConfig_def split: sum.splits prod.splits) (metis snd_conv)+
  then show ?thesis by (auto simp: GetForKubeConfig_def split: sum.splits)
qed

text \<open>The configuration that a link's kubeconfig gives on its way through the tunnel.\<close>

definition link_config ::
    "('k, 'c) callback_env \<Rightarrow> nat option \<Rightarrow> string \<Rightarrow> LinkData \<Rightarrow> tlsTransportCache \<Rightarrow>
     (rest_config option \<times> go_error option) \<times> tlsTransportCache" where
  "link_config e nc lid l c = GetForKubeConfig (CE_world e) (CE_load e) (CE_client_config e)
     (LinkData_KubeConfig l) [] nc (CrossAccountNames lid) c"

lemma verify_accepts:
  "fst (verify_cluster e req l cfg) = None \<longleftrightarrow>
   (\<exists>kc. callback_clientset e cfg = Inr kc \<and> ClusterUID e kc = Inr (ClusterID req))"
  by (auto simp: verify_cluster_def split: sum.splits)

lemma handleCallback_frame:
  "links (snd (handleCallback e now nc req s)) = links s"
  "demo_ctr (snd (handleCallback e now nc req s)) = demo_ctr s"
  by (auto simp: handleCallback_def Let_def split: option.splits prod.splits)

lemma handleCallback_cache:
  "cache_step\<^sup>*\<^sup>* (demo_cache s) (demo_cache (snd (handleCallback e now nc req s)))"
  using GetForKubeConfig_steps [of "demo_cache s" "CE_world e" "CE_load e" "CE_client_config e" _
      "[]" nc "CrossAccountNames (LinkID req)"]
  by (auto simp: handleCallback_def Let_def split: option.splits prod.splits) (metis snd_conv)+

lemma handleCallback_no_panic: "fst (handleCallback e now nc req s) \<noteq> None"
  using GetForKubeConfig_nil [of "CE_world e" "CE_load e" "CE_client_config e" _ "[]" nc
      "CrossAccountNames (LinkID req)" "demo_cache s"]
  by (auto simp: handleCallback_def Let_def split: option.splits prod.splits) (metis fst_conv)

lemma handleCallback_accepts:
  "fst (handleCallback e now nc req s) = Some None \<longleftrightarrow>
   (\<exists>l cfg kc. links s (LinkID req) = Some l \<and> now \<le> NotAfter l \<and>
      fst (link_config e nc (LinkID req) l (demo_cache s)) = (Some cfg, None) \<and>
      callback_clientset e cfg = Inr kc \<and> ClusterUID e kc = Inr (ClusterID req))"
  using verify_accepts [of e req]
  by (auto simp: handleCallback_def link_config_def Let_def not_less split: option.splits prod.splits)

section \<open>The server as a machine\<close>

text \<open>
  Requests are handled one at a time (the map \<open>links\<close> has no lock, so a server that handles them
  side by side must not be run); between them, the tunnel makes identifiers of its own. The machine
  keeps what happened beside the state: the links generated, the last one first, and the number of
  identifiers made. \<open>K\<close> holds the environments that callbacks may meet.
\<close>

type_synonym link_log = "(string \<times> int \<times> LinkRequest) list"
type_synonym demo_machine = "demo_state \<times> link_log \<times> nat"

inductive demo_step ::
    "('k, 'c) callback_env set \<Rightarrow> xid_env \<Rightarrow> demo_machine \<Rightarrow> demo_machine \<Rightarrow> bool" for K E where
  generate: "LE_xid env = E \<Longrightarrow> genLink env yaml helm3 now bs u req s = (Some (Inr l), s') \<Longrightarrow>
    demo_step K E (s, log, n) (s', (Link_LinkID l, now, req) # log, Suc n)"
| no_link: "LE_xid env = E \<Longrightarrow> genLink env yaml helm3 now bs u req s = (r, s') \<Longrightarrow>
    (\<forall>l. r \<noteq> Some (Inr l)) \<Longrightarrow> demo_step K E (s, log, n) (s', log, Suc n)"
| verify: "e \<in> K \<Longrightarrow> handleCallback e now nc req s = (r, s') \<Longrightarrow> demo_step K E (s, log, n) (s', log, n)"
| other_id: "demo_step K E (s, log, n) (s\<lparr>demo_ctr := demo_ctr s + 1\<rparr>, log, Suc n)"

inductive_cases demo_stepE: "demo_step K E m m'"

text \<open>The table the log stands for: what was generated last under an id.\<close>

definition log_links :: "link_log \<Rightarrow> string \<rightharpoonup> LinkData" where
  "log_links log = (\<lambda>i. map_option (\<lambda>(t, req). link_data i t req) (map_of log i))"

definition numbered :: "xid_env \<Rightarrow> 32 word \<Rightarrow> nat \<Rightarrow> string \<Rightarrow> bool" where
  "numbered E c k i \<longleftrightarrow> (\<exists>secs. i = xid_string (fst (xid_new E secs (c + of_nat k))))"

text \<open>The ids of the log carry the numbers of some of the first \<open>n\<close> identifiers, in order.\<close>

fun log_numbered :: "xid_env \<Rightarrow> 32 word \<Rightarrow> nat \<Rightarrow> link_log \<Rightarrow> bool" where
  "log_numbered E c n [] = True"
| "log_numbered E c n ((i, _) # log) = (\<exists>k<n. numbered E c k i \<and> log_numbered E c k log)"

definition demo_inv :: "32 word \<Rightarrow> xid_env \<Rightarrow> demo_machine \<Rightarrow> bool" where
  "demo_inv c E m = (case m of (s, log, n) \<Rightarrow>
     demo_ctr s = c + of_nat n \<and> links s = log_links log \<and> log_numbered E c n log \<and>
     cache_step\<^sup>*\<^sup>* empty_cache (demo_cache s))"

lemma log_numbered_mono: "log_numbered E c n log \<Longrightarrow> n \<le> n' \<Longrightarrow> log_numbered E c n' log"
  by (cases log) (use order.strict_trans2 in \<open>auto, blast\<close>)

lemma log_numbered_ids:
  "log_numbered E c n log \<Longrightarrow> i \<in> fst ` set log \<Longrightarrow> \<exists>k<n. numbered E c k i"
proof (induction log arbitrary: n)
  case (Cons x log)
  obtain j r where x: "x = (j, r)" by (cases x)
  then obtain k where k: "k < n" "numbered E c k j" "log_numbered E c k log"
    using Cons.prems(1) by auto
  show ?case
  proof (cases "i = j")
    case True
    then show ?thesis using k by blast
  next
    case False
    then have "i \<in> fst ` set log" using Cons.prems(2) x by simp
    then show ?thesis using Cons.IH [OF k(3)] k(1) order.strict_trans by blast
  qed
qed simp

lemma numbered_apart:
  "numbered E c k i \<Longrightarrow> numbered E c k' i \<Longrightarrow> k < 2 ^ 24 \<Longrightarrow> k' < 2 ^ 24 \<Longrightarrow> k = k'"
  unfolding numbered_def using xid_string_distinct by blast

lemma log_numbered_distinct:
  "log_numbered E c n log \<Longrightarrow> n \<le> 2 ^ 24 \<Longrightarrow> distinct (map fst log)"
proof (induction log arbitrary: n)
  case (Cons x log)
  obtain i r where x: "x = (i, r)" by (cases x)
  then obtain k where k: "k < n" "numbered E c k i" "log_numbered E c k log"
    using Cons.prems(1) by auto
  have "i \<notin> fst ` set log"
  proof
    assume "i \<in> fst ` set log"
    then obtain j where j: "j < k" "numbered E c j i" using log_numbered_ids [OF k(3)] by blast
    have "k < 2 ^ 24" "j < 2 ^ 24" using j(1) k(1) Cons.prems(2) by linarith+
    then show False using numbered_apart [OF k(2) j(2)] j(1) by simp
  qed
  moreover have "distinct (map fst log)" using Cons.IH [OF k(3)] k(1) Cons.prems(2) by simp
  ultimately show ?case by (simp add: x)
qed simp

lemma log_links_Cons: "log_links ((i, t, req) # log) = (log_links log)(i \<mapsto> link_data i t req)"
  by (auto simp: log_links_def)

interpretation demo: invariant_machine "\<lambda>m. m = (empty_demo c, [], 0)" "demo_step K E" "demo_inv c E"
  for c K E
proof unfold_locales
  fix m m'
  show "m = (empty_demo c, [], 0) \<Longrightarrow> demo_inv c E m"
    by (simp add: demo_inv_def empty_demo_def log_links_def)
  assume inv: "demo_inv c E m" and step: "demo_step K E m m'"
  have up: "c + of_nat (Suc n) = c + of_nat n + 1" for n by simp
  from step show "demo_inv c E m'"
  proof (cases rule: demo_step.cases)
    case (generate env yaml helm3 now bs u req s l s' log n)
    then show ?thesis
      using inv up
      by (cases rule: genLink_cases [of env yaml helm3 now bs u req s])
        (auto simp: demo_inv_def log_links_Cons link_table.look_put put_link_def next_id_def
          numbered_def intro!: exI [of _ n])
  next
    case (no_link env yaml helm3 now bs u req s r s' log n)
    then show ?thesis
      using inv log_numbered_mono [of E c n log "Suc n"]
      by (cases rule: genLink_cases [of env yaml helm3 now bs u req s])
        (auto simp: demo_inv_def)
  next
    case (verify e now nc req s r s' log n)
    have "cache_step\<^sup>*\<^sup>* empty_cache (demo_cache s')"
      using handleCallback_cache [of s e now nc req] inv verify
      by (auto simp: demo_inv_def)
    then show ?thesis
      using inv verify handleCallback_frame [of e now nc req s] by (auto simp: demo_inv_def)
  next
    case (other_id s log n)
    then show ?thesis
      using inv log_numbered_mono [of E c n log "Suc n"] by (auto simp: demo_inv_def)
  qed
qed

lemma log_links_Some: "log_links log i = Some l \<Longrightarrow> \<exists>t req. (i, t, req) \<in> set log \<and> l = link_data i t req"
  by (auto simp: log_links_def dest: map_of_SomeD)

lemma log_links_distinct:
  "distinct (map fst log) \<Longrightarrow> (i, t, req) \<in> set log \<Longrightarrow> log_links log i = Some (link_data i t req)"
  by (simp add: log_links_def)

section \<open>Properties\<close>

text \<open>C12: The table of links holds what was generated and nothing else: every entry is the link of
  that id as it was generated, good for ten minutes from then, with the kubeconfig of the request;
  and no link is lost to a later one as long as the process has made at most \<open>2 ^ 24\<close>
  identifiers. No callback, accepted or not, changes the table, so the cluster ids that callbacks
  proved are never recorded.\<close>

theorem demo_links:
  assumes "(demo_step K E)\<^sup>*\<^sup>* (empty_demo c, [], 0) (s, log, n)"
  shows "(\<forall>i l. links s i = Some l \<longrightarrow> (\<exists>t req. (i, t, req) \<in> set log \<and> l = link_data i t req)) \<and>
    (n \<le> 2 ^ 24 \<longrightarrow> (\<forall>(i, t, req)\<in>set log. links s i = Some (link_data i t req))) \<and>
    (\<forall>e now nc req. links (snd (handleCallback e now nc req s)) = links s)"
proof -
  have inv: "links s = log_links log" "log_numbered E c n log"
    using demo.reachable_inv [OF refl assms] by (simp_all add: demo_inv_def)
  have "\<forall>(i, t, req)\<in>set log. links s i = Some (link_data i t req)" if n: "n \<le> 2 ^ 24"
    using log_links_distinct [OF log_numbered_distinct [OF inv(2) n]] inv(1) by auto
  then show ?thesis using inv(1) log_links_Some handleCallback_frame(1) by fastforce
qed

text \<open>A server that has generated one link, and clients that always work.\<close>

definition sample_link_env :: link_env where
  "sample_link_env = \<lparr>LE_getenv = \<lambda>_. [], LE_xid = \<lparr>machineID = (1, 2, 3), pid = 4\<rparr>,
     LE_xid_secs = 5, LE_now = 6, LE_range = \<lambda>_ _ ms. ms\<rparr>"

definition sample_id :: string where
  "sample_id = next_id sample_link_env 7"

definition sample_server :: demo_state where
  "sample_server = put_link sample_id (link_data sample_id 100 \<lparr>KubeConfig = ''k''\<rparr>)
     ((empty_demo 7)\<lparr>demo_ctr := 8\<rparr>)"

definition sample_callbacks :: "(unit, rest_client) callback_env" where
  "sample_callbacks = \<lparr>CE_world = sample_world, CE_load = \<lambda>_. Inr (),
     CE_client_config = \<lambda>_ _. Inr host_config, CE_direct = \<lambda>_. Inr DefaultRT, CE_user_agent = [],
     CE_clientset = \<lambda>_ hc. Inr hc, CE_namespace_uid = \<lambda>_ _. Inr ''uid'', CE_quote = \<lambda>s. s,
     CE_duration_text = \<lambda>_. []\<rparr>"

lemma sample_generated:
  "(demo_step K (LE_xid sample_link_env))\<^sup>*\<^sup>* (empty_demo 7, [], 0)
     (sample_server, [(sample_id, 100, \<lparr>KubeConfig = ''k''\<rparr>)], 1)"
proof -
  let ?p = "\<lambda>_ _ _. Inr [] :: bytes result" and ?u = "\<lparr>User_Name = [], User_Email = []\<rparr>"
  let ?b = "\<lparr>BS_Host = [], BS_Bucket = []\<rparr>"
  obtain l where "genLink sample_link_env ?p ?p 100 ?b ?u \<lparr>KubeConfig = ''k''\<rparr> (empty_demo 7) =
      (Some (Inr l), sample_server)" "Link_LinkID l = sample_id"
    by (cases rule: genLink_cases [of sample_link_env ?p ?p 100 ?b ?u "\<lparr>KubeConfig = ''k''\<rparr>"
        "empty_demo 7"])
      (auto simp: sample_server_def sample_id_def empty_demo_def)
  from demo_step.generate [OF refl this(1), of K "[]" 0] this(2) show ?thesis by auto
qed

theorem demo_links_witness:
  "links sample_server sample_id = Some (link_data sample_id 100 \<lparr>KubeConfig = ''k''\<rparr>)"
  using demo_links [OF sample_generated [of UNIV]] by auto

text \<open>C11: An accepted callback proves the cluster's id over the tunnel. In a running server that has
  a NATS connection, a callback is accepted only within ten minutes of the generation of its link,
  for the kubeconfig given then, and the id was read by a client that sends every request through
  a NATS transport of that link. Kubeconfigs without plugins are meant; one with a certificate
  authority, a client certificate or the insecure flag is never accepted.\<close>

theorem callback_through_tunnel:
  assumes "(demo_step K E)\<^sup>*\<^sup>* (empty_demo c, [], 0) (s, log, n)"
    and "handleCallback e now (Some k) req s = (Some None, s')"
    and "\<forall>kcfg cfg. CE_client_config e kcfg [] = Inr cfg \<longrightarrow>
      RC_ExecProvider cfg = None \<and> RC_AuthProvider cfg = None"
  shows "\<exists>t lreq kcfg cfg ccfg hc kc a tr. (LinkID req, t, lreq) \<in> set log \<and>
    now \<le> t + ConnectorLinkLifetime \<and> CE_load e (KubeConfig lreq) = Inr kcfg \<and>
    CE_client_config e kcfg [] = Inr cfg \<and> \<not> wants_tls cfg \<and>
    CE_clientset e ccfg hc = Inr kc \<and> rt_base (RCl_Transport hc) = NatsRT a \<and>
    heap (demo_cache s') a = Some tr \<and> GetLinkID (Names tr) = LinkID req \<and>
    CE_namespace_uid e kc ''kube-system'' = Inr (ClusterID req)"
proof -
  have inv: "links s = log_links log" "cache_step\<^sup>*\<^sup>* empty_cache (demo_cache s)"
    using demo.reachable_inv [OF refl assms(1)] by (simp_all add: demo_inv_def)
  have "fst (handleCallback e now (Some k) req s) = Some None" using assms(2) by simp
  then obtain l c' kc where l: "links s (LinkID req) = Some l" "now \<le> NotAfter l"
    and g: "fst (link_config e (Some k) (LinkID req) l (demo_cache s)) = (Some c', None)"
    and kc: "callback_clientset e c' = Inr kc" "ClusterUID e kc = Inr (ClusterID req)"
    unfolding handleCallback_accepts by blast
  obtain t lreq where log: "(LinkID req, t, lreq) \<in> set log" "l = link_data (LinkID req) t lreq"
    using log_links_Some l(1) inv(1) by metis
  have s': "demo_cache s' = snd (link_config e (Some k) (LinkID req) l (demo_cache s))"
    using assms(2) l g
    by (auto simp: handleCallback_def link_config_def Let_def split: prod.splits)
  obtain kcfg cfg where load: "CE_load e (KubeConfig lreq) = Inr kcfg"
    "CE_client_config e kcfg [] = Inr cfg"
    "GetNoCopyConfig (CE_world e) cfg (Some k) (CrossAccountNames (LinkID req)) (demo_cache s) =
      ((Some c', None), demo_cache s')"
    using g s' log(2)
    by (auto simp: link_config_def GetForKubeConfig_def link_data_def split: sum.splits)
      (metis prod.collapse)
  obtain ua hc where hc: "HTTPClientFor (W_env (CE_world e)) (W_plugins (CE_world e)) (CE_direct e)
      (c'\<lparr>RC_UserAgent := ua\<rparr>) = Inr hc" "CE_clientset e (c'\<lparr>RC_UserAgent := ua\<rparr>) hc = Inr kc"
    using NewForConfig_ok [OF kc(1)] .
  have "RC_ExecProvider cfg = None" "RC_AuthProvider cfg = None" using assms(3) load(2) by blast+
  from GetNoCopyConfig_tunnels [OF inv(2) load(3) hc(1) this] hc(2) log l(2) load
    kc(2) show ?thesis
    by (auto simp: ClusterUID_def link_data_def) blast
qed

lemma sample_config:
  "fst (link_config sample_callbacks (Some 3) i l empty_cache) =
     (Some (host_config\<lparr>RC_Transport := Some (NatsRT 0)\<rparr>), None)"
  by (simp add: link_config_def GetForKubeConfig_def sample_callbacks_def host_proxied)

lemma sample_client:
  "callback_clientset sample_callbacks (host_config\<lparr>RC_Transport := Some (NatsRT 0)\<rparr>) =
     Inr \<lparr>RCl_Transport = NatsRT 0, RCl_Timeout = 0\<rparr>"
proof -
  have u: "RC_UserAgent host_config = []"
    "host_config\<lparr>RC_Transport := t, RC_UserAgent := []\<rparr> = host_config\<lparr>RC_Transport := t\<rparr>" for t
    by (simp_all add: host_config_def)
  show ?thesis
    by (simp add: NewForConfig_def sample_callbacks_def Let_def u host_client sample_world_def)
qed

lemma sample_accepted:
  "\<exists>s'. handleCallback sample_callbacks 200 (Some 3) \<lparr>LinkID = sample_id, ClusterID = ''uid''\<rparr>
     sample_server = (Some None, s')"
proof -
  let ?r = "\<lparr>LinkID = sample_id, ClusterID = ''uid''\<rparr>"
  have s: "demo_cache sample_server = empty_cache"
    "links sample_server sample_id = Some (link_data sample_id 100 \<lparr>KubeConfig = ''k''\<rparr>)"
    by (simp_all add: sample_server_def empty_demo_def put_link_def)
  have n: "200 \<le> NotAfter (link_data sample_id 100 \<lparr>KubeConfig = ''k''\<rparr>)"
    by (simp add: link_data_def ConnectorLinkLifetime_def)
  have u: "ClusterUID sample_callbacks kc = Inr ''uid''" for kc
    by (simp add: ClusterUID_def sample_callbacks_def)
  have "fst (handleCallback sample_callbacks 200 (Some 3) ?r sample_server) = Some None"
    unfolding handleCallback_accepts
    by (rule exI [of _ "link_data sample_id 100 \<lparr>KubeConfig = ''k''\<rparr>"],
      rule exI [of _ "host_config\<lparr>RC_Transport := Some (NatsRT 0)\<rparr>"],
      rule exI [of _ "\<lparr>RCl_Transport = NatsRT 0, RCl_Timeout = 0\<rparr>"])
      (simp only: CallbackRequest.simps s n u sample_config sample_client simp_thms fst_conv)
  then show ?thesis by (metis prod.collapse)
qed

theorem callback_through_tunnel_witness:
  "\<exists>(s' :: demo_state) t lreq kcfg cfg ccfg hc kc a tr. (sample_id, t, lreq) \<in> set [(sample_id, 100 :: int, \<lparr>KubeConfig = ''k''\<rparr>)] \<and>
    200 \<le> t + ConnectorLinkLifetime \<and> CE_load sample_callbacks (KubeConfig lreq) = Inr kcfg \<and>
    CE_client_config sample_callbacks kcfg [] = Inr cfg \<and> \<not> wants_tls cfg \<and>
    CE_clientset sample_callbacks ccfg hc = Inr kc \<and> rt_base (RCl_Transport hc) = NatsRT a \<and>
    heap (demo_cache s') a = Some tr \<and> GetLinkID (Names tr) = sample_id \<and>
    CE_namespace_uid sample_callbacks kc ''kube-system'' = Inr ''uid''"
proof -
  obtain s' where s': "handleCallback sample_callbacks 200 (Some 3)
      \<lparr>LinkID = sample_id, ClusterID = ''uid''\<rparr> sample_server = (Some None, s')"
    using sample_accepted by blast
  have "\<forall>kcfg cfg. CE_client_config sample_callbacks kcfg [] = Inr cfg \<longrightarrow>
      RC_ExecProvider cfg = None \<and> RC_AuthProvider cfg = None"
    using host_plugins by (auto simp: sample_callbacks_def)
  from callback_through_tunnel [OF sample_generated [of UNIV] s' this]
  show ?thesis unfolding CallbackRequest.simps by (rule exI [of _ s'])
qed

end
