(* ===== verification/RadixTree.thy ===== *)
theory RadixTree
  imports GoStd "HOL-Library.Multiset"
begin

unbundle bit_operations_syntax

text \<open>
  The radix tree of the router (vendored \<open>go-chi/chi/v5/tree.go\<close>): patterns, nodes, inserting a
  route, finding the route of a path, and finding a pattern. Regular expressions (Go's \<open>regexp\<close>) and
  the order in which \<open>sort.Sort\<close> leaves nodes of the same label are arguments. What a tree stands for
  is in \<open>RadixInsert\<close>, what is found in it in \<open>RouteSearch\<close>.
\<close>

section \<open>Patterns (chi/v5/tree.go)\<close>

datatype node_type = ntStatic | ntRegexp | ntParam | ntCatchAll

definition index_of :: "char \<Rightarrow> string \<Rightarrow> nat option" where
  "index_of c s = (if c \<in> set s then Some (length (takeWhile (\<lambda>x. x \<noteq> c) s)) else None)"

text \<open>The index of the brace that closes the one a text begins with; \<open>cc\<close> braces are open.\<close>

fun closing_brace :: "nat \<Rightarrow> nat \<Rightarrow> string \<Rightarrow> nat option" where
  "closing_brace cc i [] = None"
| "closing_brace cc i (c # cs) =
     (if c = CHR ''{'' then closing_brace (Suc cc) (Suc i) cs
      else if c = CHR ''}'' then (if cc = 1 then Some i else closing_brace (cc - 1) (Suc i) cs)
      else closing_brace cc (Suc i) cs)"

definition anchored :: "string \<Rightarrow> string" where
  "anchored r =
     (if r = [] then []
      else let r1 = (if hd r \<noteq> CHR ''^'' then CHR ''^'' # r else r)
           in if last r1 \<noteq> CHR ''$'' then r1 @ ''$'' else r1)"

text \<open>The next segment: its type, key, regular expression, tail, and its two ends; or the panic.\<close>

definition patNextSegment ::
    "string \<Rightarrow> string + node_type \<times> string \<times> string \<times> char \<times> nat \<times> nat" where
  "patNextSegment pattern =
     (case (index_of (CHR ''{'') pattern, index_of (CHR ''*'') pattern) of
        (None, None) \<Rightarrow> Inr (ntStatic, [], [], CHR 0x00, 0, length pattern)
      | (None, Some ws) \<Rightarrow>
          if ws < length pattern - 1
          then Inl (''chi: wildcard '' @ CHR 0x27 # ''*'' @ CHR 0x27 # '' must be the last value in a route. '' @
                 ''trim trailing text or use a '' @ CHR 0x27 # ''{param}'' @ CHR 0x27 # '' instead'')
          else Inr (ntCatchAll, ''*'', [], CHR 0x00, ws, length pattern)
      | (Some ps, ws) \<Rightarrow>
          if (case ws of Some w \<Rightarrow> w < ps | None \<Rightarrow> False)
          then Inl (''chi: wildcard '' @ CHR 0x27 # ''*'' @ CHR 0x27 # '' must be the last pattern in a route, '' @
                 ''otherwise use a '' @ CHR 0x27 # ''{param}'' @ [CHR 0x27])
          else (case closing_brace 0 0 (drop ps pattern) of
                  None \<Rightarrow> Inl (''chi: route param closing delimiter '' @ CHR 0x27 # ''}'' @ CHR 0x27 # '' is missing'')
                | Some i \<Rightarrow>
                    let key = take (i - 1) (drop (ps + 1) pattern);
                        pe = ps + i + 1;
                        tail = (if pe < length pattern then pattern ! pe else CHR ''/'')
                    in (case index_of (CHR '':'') key of
                          None \<Rightarrow> Inr (ntParam, key, [], tail, ps, pe)
                        | Some j \<Rightarrow> Inr (ntRegexp, take j key, anchored (drop (Suc j) key), tail, ps, pe))))"

lemma index_of_less: "index_of c s = Some i \<Longrightarrow> i < length s"
proof -
  assume a: "index_of c s = Some i"
  then have "i = length (takeWhile (\<lambda>x. x \<noteq> c) s)" "c \<in> set s"
    by (auto simp: index_of_def split: if_splits)
  then show ?thesis
    by (metis (mono_tags, lifting) length_takeWhile_le le_neq_implies_less takeWhile_eq_all_conv takeWhile_eq_take take_all_iff order_refl)
qed

lemma patNextSegment_progress:
  "patNextSegment p = Inr (ty, key, rx, tail, a, e) \<Longrightarrow> ty \<noteq> ntStatic \<Longrightarrow>
   length (drop e p) < length p"
  by (auto simp: patNextSegment_def Let_def dest: index_of_less split: option.splits if_splits)

definition quoted :: "string \<Rightarrow> string" where
  "quoted s = CHR 0x27 # s @ [CHR 0x27]"

function paramKeys_from :: "string \<Rightarrow> string list \<Rightarrow> string \<Rightarrow> string + string list" where
  "paramKeys_from pattern keys pat =
     (case patNextSegment pat of
        Inl p \<Rightarrow> Inl p
      | Inr (ty, key, _, _, _, e) \<Rightarrow>
          if ty = ntStatic then Inr keys
          else if key \<in> set keys
          then Inl (''chi: routing pattern '' @ quoted pattern @ '' contains duplicate param key, '' @ quoted key)
          else paramKeys_from pattern (keys @ [key]) (drop e pat))"
  by pat_completeness auto
termination
  by (relation "measure (\<lambda>(pattern, keys, pat). length pat)") (auto dest!: patNextSegment_progress)

declare paramKeys_from.simps [simp del]

definition patParamKeys :: "string \<Rightarrow> string + string list" where
  "patParamKeys pattern = paramKeys_from pattern [] pattern"


section \<open>Nodes\<close>

type_synonym methodTyp = "64 word"

definition mSTUB :: methodTyp where "mSTUB = 1"

definition methodMap :: "(string \<times> methodTyp) list" where
  "methodMap = [(''CONNECT'', 2), (''DELETE'', 4), (''GET'', 8), (''HEAD'', 16), (''OPTIONS'', 32),
     (''PATCH'', 64), (''POST'', 128), (''PUT'', 256), (''TRACE'', 512)]"

definition mALL :: methodTyp where
  "mALL = 2 OR 4 OR 8 OR 16 OR 32 OR 64 OR 128 OR 256 OR 512"

record 'h endpoint =
  E_handler :: 'h
  E_pattern :: string
  E_paramKeys :: "string list"

type_synonym 'h endpoints = "methodTyp \<rightharpoonup> 'h endpoint"

text \<open>
  The children are in four lists, by their types. The regular expression of a node is whether it
  matches a text. The field \<open>subroutes\<close>, which only listings of the routes read, is left out.
\<close>

datatype 'h node = Node
  (n_typ: node_type) (n_label: char) (n_tail: char) (n_prefix: string)
  (n_rex: "(string \<Rightarrow> bool) option") (n_endpoints: "'h endpoints option")
  (n_statics: "'h node list") (n_regexps: "'h node list") (n_params: "'h node list")
  (n_catchalls: "'h node list")

definition empty_node :: "'h node" where
  "empty_node = Node ntStatic (CHR 0x00) (CHR 0x00) [] None None [] [] [] []"

definition children :: "node_type \<Rightarrow> 'h node \<Rightarrow> 'h node list" where
  "children t n = (case t of ntStatic \<Rightarrow> n_statics n | ntRegexp \<Rightarrow> n_regexps n
     | ntParam \<Rightarrow> n_params n | ntCatchAll \<Rightarrow> n_catchalls n)"

fun with_children :: "node_type \<Rightarrow> 'h node list \<Rightarrow> 'h node \<Rightarrow> 'h node" where
  "with_children ntStatic cs (Node ty l t p x e ss rs ps as) = Node ty l t p x e cs rs ps as"
| "with_children ntRegexp cs (Node ty l t p x e ss rs ps as) = Node ty l t p x e ss cs ps as"
| "with_children ntParam cs (Node ty l t p x e ss rs ps as) = Node ty l t p x e ss rs cs as"
| "with_children ntCatchAll cs (Node ty l t p x e ss rs ps as) = Node ty l t p x e ss rs ps cs"

text \<open>A node with other particulars of its own and the same endpoints and children.\<close>

fun with_head :: "node_type \<Rightarrow> char \<Rightarrow> char \<Rightarrow> string \<Rightarrow> (string \<Rightarrow> bool) option \<Rightarrow> 'h node \<Rightarrow> 'h node" where
  "with_head ty l t p x (Node _ _ _ _ _ e ss rs ps as) = Node ty l t p x e ss rs ps as"

fun with_endpoints :: "'h endpoints \<Rightarrow> 'h node \<Rightarrow> 'h node" where
  "with_endpoints e (Node ty l t p x _ ss rs ps as) = Node ty l t p x (Some e) ss rs ps as"

text \<open>A new node, of which a literal in the code gives the label, the tail and the prefix.\<close>

definition new_node :: "node_type \<Rightarrow> char \<Rightarrow> char \<Rightarrow> string \<Rightarrow> 'h node" where
  "new_node ty l t p = Node ty l t p None None [] [] [] []"

text \<open>What the tree needs: compiled regular expressions, and the order that sorting gives.\<close>

record tree_env =
  TE_compile :: "string \<Rightarrow> (string \<Rightarrow> bool) option"
  TE_order :: "char list \<Rightarrow> nat list"   \<comment> \<open>of the nodes with these labels, by their positions\<close>

section \<open>Sorting (nodes)\<close>

abbreviation byte_of :: "char \<Rightarrow> nat" where "byte_of c \<equiv> of_char c"

text \<open>
  \<open>sort.Sort\<close> is not stable: any order of the positions that sorts the labels is possible. (What is
  none is replaced by the stable one.)
\<close>

definition sort_Sort :: "tree_env \<Rightarrow> 'h node list \<Rightarrow> 'h node list" where
  "sort_Sort E ns =
     (let p = TE_order E (map n_label ns)
      in if mset p = mset [0..<length ns] \<and> sorted (map (\<lambda>i. byte_of (n_label (ns ! i))) p)
         then map (\<lambda>i. ns ! i) p else sort_key (\<lambda>n. byte_of (n_label n)) ns)"

definition tailSort :: "'h node list \<Rightarrow> 'h node list" where
  "tailSort ns =
     (case filter (\<lambda>i. n_typ (ns ! i) \<noteq> ntStatic \<and> n_tail (ns ! i) = CHR ''/'') (rev [0..<length ns]) of
        [] \<Rightarrow> ns
      | i # _ \<Rightarrow> ns[i := ns ! (length ns - 1), length ns - 1 := ns ! i])"

definition Sort :: "tree_env \<Rightarrow> 'h node list \<Rightarrow> 'h node list" where
  "Sort E ns = tailSort (sort_Sort E ns)"

lemma mset_sort_Sort: "mset (sort_Sort E ns) = mset ns"
proof -
  have "mset (map (\<lambda>i. ns ! i) p) = mset ns" if "mset p = mset [0..<length ns]" for p
  proof -
    have "mset (map (\<lambda>i. ns ! i) p) = image_mset (\<lambda>i. ns ! i) (mset [0..<length ns])"
      by (simp only: mset_map that)
    also have "\<dots> = mset (map (\<lambda>i. ns ! i) [0..<length ns])" by (simp only: mset_map)
    also have "\<dots> = mset ns" by (simp add: map_nth)
    finally show ?thesis .
  qed
  then show ?thesis unfolding sort_Sort_def Let_def by (auto simp del: mset_map mset_upt)
qed

lemma mset_tailSort: "mset (tailSort ns) = mset ns"
proof (cases "filter (\<lambda>i. n_typ (ns ! i) \<noteq> ntStatic \<and> n_tail (ns ! i) = CHR ''/'') (rev [0..<length ns])")
  case (Cons i js)
  then have "i \<in> set (rev [0..<length ns])" by (metis filter_is_subset list.set_intros(1) subsetD)
  then have "i < length ns" "length ns - 1 < length ns" by auto
  then show ?thesis
    using mset_swap [of "length ns - 1" ns i] Cons by (simp add: tailSort_def)
qed (simp add: tailSort_def)

lemma mset_Sort [simp]: "mset (Sort E ns) = mset ns"
  by (simp add: Sort_def mset_tailSort mset_sort_Sort)

lemma set_Sort [simp]: "set (Sort E ns) = set ns"
  by (rule mset_eq_setD) simp

lemma distinct_map_Sort [simp]: "distinct (map f (Sort E ns)) = distinct (map f ns)"
proof -
  have "mset (map f (Sort E ns)) = mset (map f ns)" by simp
  then show ?thesis by (rule mset_eq_imp_distinct_iff)
qed

lemma sorted_Sort_static:
  assumes "\<forall>n\<in>set ns. n_typ n = ntStatic"
  shows "sorted (map (\<lambda>n. byte_of (n_label n)) (Sort E ns))"
proof -
  have "sorted (map (\<lambda>n. byte_of (n_label n)) (sort_Sort E ns))"
    by (simp add: sort_Sort_def Let_def comp_def)
  moreover have "\<forall>n\<in>set (sort_Sort E ns). n_typ n = ntStatic"
    using assms mset_eq_setD [OF mset_sort_Sort] by metis
  then have "tailSort (sort_Sort E ns) = sort_Sort E ns" by (simp add: tailSort_def)
  ultimately show ?thesis by (simp add: Sort_def)
qed

section \<open>Inserting a route\<close>

definition longestPrefix :: "string \<Rightarrow> string \<Rightarrow> nat" where
  "longestPrefix k1 k2 = length (takeWhile (\<lambda>(a, b). a = b) (zip k1 k2))"

fun edge_index :: "('a \<Rightarrow> bool) \<Rightarrow> 'a list \<Rightarrow> nat option" where
  "edge_index P [] = None"
| "edge_index P (x # xs) = (if P x then Some 0 else map_option Suc (edge_index P xs))"

lemma edge_index_Some: "edge_index P xs = Some i \<Longrightarrow> i < length xs \<and> P (xs ! i)"
  by (induction xs arbitrary: i) (auto split: if_splits)

lemma edge_index_None: "edge_index P xs = None \<longleftrightarrow> (\<forall>x\<in>set xs. \<not> P x)"
  by (induction xs) auto

text \<open>The position of the edge among the children of its type.\<close>

definition getEdge :: "node_type \<Rightarrow> char \<Rightarrow> char \<Rightarrow> string \<Rightarrow> 'h node \<Rightarrow> nat option" where
  "getEdge t label tail prefix n =
     edge_index (\<lambda>c. n_label c = label \<and> n_tail c = tail \<and> \<not> (t = ntRegexp \<and> n_prefix c \<noteq> prefix))
       (children t n)"

text \<open>The endpoints of a node after \<open>setEndpoint\<close> with these parameter keys.\<close>

definition set_methods :: "methodTyp \<Rightarrow> 'h \<Rightarrow> string \<Rightarrow> string list \<Rightarrow> 'h endpoints \<Rightarrow> 'h endpoints" where
  "set_methods m h pattern keys eps =
     (let e = \<lparr>E_handler = h, E_pattern = pattern, E_paramKeys = keys\<rparr>;
          eps1 = (if m AND mSTUB = mSTUB
                  then eps(mSTUB \<mapsto> (case eps mSTUB of Some x \<Rightarrow> x\<lparr>E_handler := h\<rparr>
                    | None \<Rightarrow> \<lparr>E_handler = h, E_pattern = [], E_paramKeys = []\<rparr>))
                  else eps)
      in if m AND mALL = mALL
         then foldl (\<lambda>f k. f(k \<mapsto> e)) eps1 (mALL # map snd methodMap)
         else eps1(m \<mapsto> e))"

definition setEndpoint :: "methodTyp \<Rightarrow> 'h \<Rightarrow> string \<Rightarrow> 'h node \<Rightarrow> string + 'h node" where
  "setEndpoint m h pattern n =
     (case patParamKeys pattern of
        Inl p \<Rightarrow> Inl p
      | Inr keys \<Rightarrow> Inr (with_endpoints (set_methods m h pattern keys
          (case n_endpoints n of None \<Rightarrow> Map.empty | Some eps \<Rightarrow> eps)) n))"

definition append_child :: "tree_env \<Rightarrow> 'h node \<Rightarrow> 'h node \<Rightarrow> 'h node" where
  "append_child E c n = with_children (n_typ c) (Sort E (children (n_typ c) n @ [c])) n"

text \<open>
  \<open>addChild\<close>: what the caller does with the node it returns is \<open>f\<close>, which is done to the node
  before it is put into its parent.
\<close>

lemma closing_brace_range: "closing_brace cc i s = Some j \<Longrightarrow> i \<le> j \<and> j < i + length s"
  by (induction cc i s rule: closing_brace.induct) (fastforce split: if_splits)+

lemma patNextSegment_cut:
  assumes "patNextSegment p = Inr (ty, key, rx, tail, a, e)" "ty \<noteq> ntStatic"
  shows "a < length p \<and> a < e \<and> e \<le> length p"
  using assms
  by (auto simp: patNextSegment_def Let_def dest!: index_of_less closing_brace_range
      split: option.splits if_splits)

function addChild ::
    "tree_env \<Rightarrow> ('h node \<Rightarrow> string + 'h node) \<Rightarrow> 'h node \<Rightarrow> 'h node \<Rightarrow> string \<Rightarrow> string + 'h node" where
  "addChild E f n child search =
     (case patNextSegment search of
        Inl p \<Rightarrow> Inl p
      | Inr (segTyp, _, segRexpat, segTail, segStartIdx, segEndIdx) \<Rightarrow>
          if segTyp = ntStatic
          then (case f child of Inl p \<Rightarrow> Inl p | Inr c \<Rightarrow> Inr (append_child E c n))
          else
            (case (if segTyp = ntRegexp
                   then (case TE_compile E segRexpat of
                           None \<Rightarrow> Inl (''chi: invalid regexp pattern '' @ quoted segRexpat @ '' in route param'')
                         | Some r \<Rightarrow> Inr (with_head (n_typ child) (n_label child) (n_tail child) segRexpat (Some r) child))
                   else Inr child) of
               Inl p \<Rightarrow> Inl p
             | Inr c1 \<Rightarrow>
                 if segStartIdx = 0
                 then let c2 = with_head segTyp (n_label c1) segTail (n_prefix c1) (n_rex c1) c1;
                          start = (if segTyp = ntCatchAll then length search else segEndIdx)
                      in if start \<noteq> length search
                         then let rest = drop start search
                              in (case addChild E f c2 (new_node ntStatic (hd rest) (CHR 0x00) rest) rest of
                                    Inl p \<Rightarrow> Inl p | Inr c \<Rightarrow> Inr (append_child E c n))
                         else (case f c2 of Inl p \<Rightarrow> Inl p | Inr c \<Rightarrow> Inr (append_child E c n))
                 else let c2 = with_head ntStatic (n_label c1) (n_tail c1) (take segStartIdx search) None c1;
                          rest = drop segStartIdx search
                      in (case addChild E f c2 (new_node segTyp (hd rest) segTail []) rest of
                            Inl p \<Rightarrow> Inl p | Inr c \<Rightarrow> Inr (append_child E c n))))"
  by pat_completeness auto
termination
  by (relation "measure (\<lambda>(E, f, n, child, search). length search)")
    (auto dest!: patNextSegment_cut)

declare addChild.simps [simp del]

text \<open>A node put in the place of the first edge with a label and a tail.\<close>

definition replaceChild :: "char \<Rightarrow> char \<Rightarrow> 'h node \<Rightarrow> 'h node \<Rightarrow> string + 'h node" where
  "replaceChild label tail child n =
     (let cs = children (n_typ child) n
      in case edge_index (\<lambda>c. n_label c = label \<and> n_tail c = tail) cs of
           None \<Rightarrow> Inl ''chi: replacing missing child''
         | Some i \<Rightarrow> Inr (with_children (n_typ child)
             (cs[i := with_head (n_typ child) label tail (n_prefix child) (n_rex child) child]) n))"

definition put_child :: "node_type \<Rightarrow> nat \<Rightarrow> 'h node \<Rightarrow> 'h node \<Rightarrow> 'h node" where
  "put_child t i c n = with_children t ((children t n)[i := c]) n"

lemma child_size: "c \<in> set (children t n) \<Longrightarrow> size c < size n"
  by (cases n; cases t) (auto simp: children_def dest!: size_list_estimation' [where f = size, OF _ order_refl])

lemma getEdge_less: "getEdge t l z p n = Some i \<Longrightarrow> i < length (children t n)"
  by (auto simp: getEdge_def dest: edge_index_Some)

lemma getEdge_size: "getEdge t l z p n = Some i \<Longrightarrow> size (children t n ! i) < size n"
  by (rule child_size, rule nth_mem, rule getEdge_less)

lemma elem_size: "n \<in> set ns \<Longrightarrow> size n \<le> size_list size ns"
  by (induction ns) auto

lemma last_size: "ns \<noteq> [] \<Longrightarrow> 3 * size (last ns) \<le> Suc (3 * size_list size ns)"
  using elem_size [OF last_in_set, of ns] by linarith

text \<open>
  Splitting a node \<open>n\<close> whose prefix and a search share the first \<open>k\<close> bytes: a new node with the
  shared prefix holds the old one, with the rest of its prefix, and what is inserted, which is the
  new node itself if the search ends here.
\<close>

definition split_node ::
    "tree_env \<Rightarrow> ('h node \<Rightarrow> string + 'h node) \<Rightarrow> 'h node \<Rightarrow> string \<Rightarrow> nat \<Rightarrow> string + 'h node" where
  "split_node E f n search k =
     (let child = new_node ntStatic (hd search) (CHR 0x00) (take k search);
          rest = drop k (n_prefix n);
          old = with_head (n_typ n) (n_prefix n ! k) (n_tail n) rest (n_rex n) n
      in case addChild E Inr child old rest of
           Inl p \<Rightarrow> Inl p
         | Inr child1 \<Rightarrow>
             let search' = drop k search
             in if search' = [] then f child1
                else addChild E f child1 (new_node ntStatic (hd search') (CHR 0x00) search') search')"

text \<open>
  \<open>InsertRoute\<close>, with \<open>f\<close> for setting the endpoint. The node that a split makes is complete before
  it replaces the old one here, and after that in the code, which makes no difference.
\<close>

function insert_route ::
    "tree_env \<Rightarrow> ('h node \<Rightarrow> string + 'h node) \<Rightarrow> 'h node \<Rightarrow> string \<Rightarrow> string + 'h node" where
  "insert_route E f n search =
     (if search = [] then f n
      else let label = hd search
      in case (if label = CHR ''{'' \<or> label = CHR ''*'' then patNextSegment search
               else Inr (ntStatic, [], [], CHR 0x00, 0, 0)) of
           Inl p \<Rightarrow> Inl p
         | Inr (segTyp, _, segRexpat, segTail, _, segEndIdx) \<Rightarrow>
             (case getEdge segTyp label segTail (if segTyp = ntRegexp then segRexpat else []) n of
                None \<Rightarrow> addChild E f n (new_node ntStatic label segTail search) search
              | Some i \<Rightarrow>
                  let c = children segTyp n ! i
                  in if n_typ c \<noteq> ntStatic
                     then (case insert_route E f c (drop segEndIdx search) of
                             Inl p \<Rightarrow> Inl p | Inr c' \<Rightarrow> Inr (put_child segTyp i c' n))
                     else let k = longestPrefix search (n_prefix c)
                          in if k = length (n_prefix c)
                             then (case insert_route E f c (drop k search) of
                                     Inl p \<Rightarrow> Inl p | Inr c' \<Rightarrow> Inr (put_child segTyp i c' n))
                             else (case split_node E f c search k of
                                     Inl p \<Rightarrow> Inl p
                                   | Inr child \<Rightarrow> replaceChild label segTail child n)))"
  by pat_completeness auto
termination
  by (relation "measure (\<lambda>(E, f, n, search). size n)")
    (auto dest!: getEdge_size)

declare insert_route.simps [simp del]

definition InsertRoute ::
    "tree_env \<Rightarrow> methodTyp \<Rightarrow> string \<Rightarrow> 'h \<Rightarrow> 'h node \<Rightarrow> string + 'h node" where
  "InsertRoute E m pattern h n = insert_route E (setEndpoint m h pattern) n pattern"

section \<open>Finding a route\<close>

text \<open>The binary search for a label, in nodes that are sorted by their labels.\<close>

function edge_search :: "'h node list \<Rightarrow> char \<Rightarrow> int \<Rightarrow> int \<Rightarrow> int \<Rightarrow> int" where
  "edge_search ns label i j idx =
     (if i \<le> j
      then let idx' = i + (j - i) div 2; l = n_label (ns ! nat idx')
           in if byte_of label > byte_of l then edge_search ns label (idx' + 1) j idx'
              else if byte_of label < byte_of l then edge_search ns label i (idx' - 1) idx'
              else idx'
      else idx)"
  by pat_completeness auto
termination
  by (relation "measure (\<lambda>(ns, label, i, j, idx). nat (j - i + 1))") auto

declare edge_search.simps [simp del]

definition findEdge :: "'h node list \<Rightarrow> char \<Rightarrow> 'h node option" where
  "findEdge ns label =
     (if ns = [] then None
      else let x = ns ! nat (edge_search ns label 0 (int (length ns) - 1) 0)
           in if n_label x \<noteq> label then None else Some x)"

lemma edge_search_range:
  "0 \<le> i \<Longrightarrow> j < int (length ns) \<Longrightarrow> 0 \<le> idx \<Longrightarrow> idx < int (length ns) \<Longrightarrow>
   0 \<le> edge_search ns label i j idx \<and> edge_search ns label i j idx < int (length ns)"
proof (induction ns label i j idx rule: edge_search.induct)
  case (1 ns label i j idx)
  show ?case
  proof (cases "i \<le> j")
    case True
    then have "0 \<le> i + (j - i) div 2" "i + (j - i) div 2 < int (length ns)" using 1(3,4) by auto
    then show ?thesis
      using 1(1,2) [OF True refl refl] 1(3,4) True
      by (subst (1 2) edge_search.simps) (simp add: Let_def)
  next
    case False
    then show ?thesis using 1(5,6) by (simp add: edge_search.simps)
  qed
qed

lemma findEdge_mem: "findEdge ns label = Some x \<Longrightarrow> x \<in> set ns"
  using edge_search_range [of 0 "int (length ns) - 1" ns 0 label]
  by (auto simp: findEdge_def Let_def split: if_splits) (metis nat_less_iff nth_mem)

text \<open>
  Where the value of a parameter ends in a search: at its tail, or at the end if the tail is a
  slash. A regular expression has a value that is not empty and matches, a parameter one without
  slashes.
\<close>

definition value_end :: "node_type \<Rightarrow> 'h node \<Rightarrow> string \<Rightarrow> nat option" where
  "value_end t n search =
     (case (case index_of (n_tail n) search of
              None \<Rightarrow> if n_tail n = CHR ''/'' then Some (length search) else None
            | Some p \<Rightarrow> if t = ntRegexp \<and> p = 0 then None else Some p) of
        None \<Rightarrow> None
      | Some p \<Rightarrow>
          (case (if t = ntRegexp then n_rex n else None) of
             Some r \<Rightarrow> if r (take p search) then Some p else None
           | None \<Rightarrow> if CHR ''/'' \<in> set (take p search) then None else Some p))"

text \<open>
  The endpoint for a method and the values on the way to it, if it is found, and whether a path was
  found that has no such endpoint (\<open>methodNotAllowed\<close>). Values that are pushed before a search that
  fails are popped after it, so the values are a parameter. (The methods of the flag's header
  \<open>Allow\<close> are left out.) A group of parameters or regular expressions that has failed is tried
  once more with its last node and an empty value, as in the code.
\<close>

function (sequential)
      findRoute :: "methodTyp \<Rightarrow> 'h node \<Rightarrow> string \<Rightarrow> string list \<Rightarrow> bool \<Rightarrow> ('h endpoint \<times> string list) option \<times> bool"
  and arrive :: "methodTyp \<Rightarrow> 'h node \<Rightarrow> string \<Rightarrow> string list \<Rightarrow> bool \<Rightarrow> ('h endpoint \<times> string list) option \<times> bool"
  and try_values :: "methodTyp \<Rightarrow> node_type \<Rightarrow> 'h node list \<Rightarrow> string \<Rightarrow> string list \<Rightarrow> bool \<Rightarrow> ('h endpoint \<times> string list) option \<times> bool"
  and try_group :: "methodTyp \<Rightarrow> node_type \<Rightarrow> 'h node list \<Rightarrow> string \<Rightarrow> string list \<Rightarrow> bool \<Rightarrow> ('h endpoint \<times> string list) option \<times> bool"
where
  "findRoute m (Node ty l t p x e ss rs ps as) path vs na =
     (case try_group m ntStatic ss path vs na of
        (Some r, na1) \<Rightarrow> (Some r, na1)
      | (None, na1) \<Rightarrow>
          (case try_group m ntRegexp rs path vs na1 of
             (Some r, na2) \<Rightarrow> (Some r, na2)
           | (None, na2) \<Rightarrow>
               (case try_group m ntParam ps path vs na2 of
                  (Some r, na3) \<Rightarrow> (Some r, na3)
                | (None, na3) \<Rightarrow> try_group m ntCatchAll as path vs na3)))"
| "arrive m n path vs na =
     (case (if path = [] then n_endpoints n else None) of
        None \<Rightarrow> findRoute m n path vs na
      | Some eps \<Rightarrow>
          (case eps m of
             Some e \<Rightarrow> (Some (e, vs), na)
           | None \<Rightarrow> findRoute m n path vs True))"
| "try_values m t [] path vs na = (None, na)"
| "try_values m t (n # ns) path vs na =
     (case value_end t n path of
        None \<Rightarrow> try_values m t ns path vs na
      | Some p \<Rightarrow>
          (case arrive m n (drop p path) (vs @ [take p path]) na of
             (Some r, na1) \<Rightarrow> (Some r, na1)
           | (None, na1) \<Rightarrow> try_values m t ns path vs na1))"
| "try_group m t ns path vs na =
     (if ns = [] then (None, na)
      else if t = ntStatic
      then (case findEdge ns (if path = [] then CHR 0x00 else hd path) of
              None \<Rightarrow> (None, na)
            | Some n \<Rightarrow>
                if take (length (n_prefix n)) path \<noteq> n_prefix n then (None, na)
                else arrive m n (drop (length (n_prefix n)) path) vs na)
      else if t = ntCatchAll then arrive m (hd ns) [] (vs @ [path]) na
      else if path = [] then (None, na)
      else (case try_values m t ns path vs na of
              (Some r, na1) \<Rightarrow> (Some r, na1)
            | (None, na1) \<Rightarrow> findRoute m (last ns) path (vs @ [[]]) na1))"
  by pat_completeness auto
termination
  by (relation "measure (\<lambda>x. case x of
       Inl (Inl (m, n, _)) \<Rightarrow> 3 * size n
     | Inl (Inr (m, n, _)) \<Rightarrow> 3 * size n + 1
     | Inr (Inl (m, t, ns, _)) \<Rightarrow> 3 * size_list size ns + 1
     | Inr (Inr (m, t, ns, _)) \<Rightarrow> 3 * size_list size ns + 2)")
    (auto dest!: findEdge_mem [THEN elem_size]
      simp: elem_size [OF hd_in_set] last_size less_Suc_eq_le)

declare arrive.simps [simp del]

section \<open>Finding a pattern\<close>

text \<open>
  Whether a pattern begins on the tree: the first group of children that has an edge for its first
  byte decides. A pattern of length zero is never asked for: the code would panic.
\<close>

definition pattern_edge :: "node_type \<Rightarrow> 'h node list \<Rightarrow> string \<Rightarrow> ('h node \<times> nat) option" where
  "pattern_edge t ns pattern =
     (if ns = [] then None
      else case t of
        ntCatchAll \<Rightarrow> Some (hd ns, longestPrefix pattern ''*'')
      | ntStatic \<Rightarrow>
          (case findEdge ns (hd pattern) of
             None \<Rightarrow> None
           | Some n \<Rightarrow>
               let k = longestPrefix pattern (n_prefix n)
               in if k < length (n_prefix n) then None else Some (n, k))
      | _ \<Rightarrow>
          (case findEdge ns (hd pattern) of
             None \<Rightarrow> None
           | Some n \<Rightarrow> Some (n, case index_of (CHR ''}'') pattern of None \<Rightarrow> 0 | Some i \<Rightarrow> Suc i)))"

lemma pattern_edge_mem: "pattern_edge t ns pattern = Some (n, k) \<Longrightarrow> n \<in> set ns"
  by (auto simp: pattern_edge_def Let_def split: node_type.splits option.splits if_splits
      dest: findEdge_mem)

fun first_some :: "'a option list \<Rightarrow> 'a option" where
  "first_some [] = None"
| "first_some (Some x # xs) = Some x"
| "first_some (None # xs) = first_some xs"

lemma first_some_mem: "first_some xs = Some x \<Longrightarrow> Some x \<in> set xs"
  by (induction xs rule: first_some.induct) auto

function findPattern :: "'h node \<Rightarrow> string \<Rightarrow> bool" where
  "findPattern n pattern =
     (case first_some (map (\<lambda>t. pattern_edge t (children t n) pattern)
             [ntStatic, ntRegexp, ntParam, ntCatchAll]) of
        None \<Rightarrow> False
      | Some (c, k) \<Rightarrow>
          let rest = drop k pattern in if rest = [] then True else findPattern c rest)"
  by pat_completeness auto
termination
  by (relation "measure (\<lambda>(n, pattern). size n)")
    (auto dest!: first_some_mem pattern_edge_mem [OF sym, THEN child_size])

declare findPattern.simps [simp del]

end
