(* ===== verification/RadixInsert.thy ===== *)
theory RadixInsert
  imports RadixTree
begin

text \<open>
  The table that a radix tree stands for, from sequences of segments to endpoints, and inserting as
  an update of the table that keeps the tree's invariant.
\<close>

section \<open>The table a tree stands for\<close>

text \<open>
  A pattern is a sequence of segments: bytes, parameters with the byte that ends them (their names
  do not matter to the tree), regular expressions, and the wildcard.
\<close>

datatype seg = Lit char | Rex string char | Par char | Star

fun wild_seg :: "node_type \<Rightarrow> string \<Rightarrow> char \<Rightarrow> seg" where
  "wild_seg ntRegexp x t = Rex x t"
| "wild_seg ntParam x t = Par t"
| "wild_seg ntCatchAll x t = Star"
| "wild_seg ntStatic x t = Lit t"

function pattern_segs :: "string \<Rightarrow> string + seg list" where
  "pattern_segs s =
     (case patNextSegment s of
        Inl p \<Rightarrow> Inl p
      | Inr (ty, key, rx, tail, a, e) \<Rightarrow>
          if ty = ntStatic then Inr (map Lit s)
          else (case pattern_segs (drop e s) of
                  Inl p \<Rightarrow> Inl p
                | Inr segs \<Rightarrow> Inr (map Lit (take a s) @ wild_seg ty rx tail # segs)))"
  by pat_completeness auto
termination
  by (relation "measure length") (auto dest!: patNextSegment_cut)

declare pattern_segs.simps [simp del]

text \<open>The segments of an edge, and the first of them, which tells the edges of a node apart.\<close>

definition edge_segs :: "'h node \<Rightarrow> seg list" where
  "edge_segs c = (if n_typ c = ntStatic then map Lit (n_prefix c)
     else [wild_seg (n_typ c) (n_prefix c) (n_tail c)])"

definition edges :: "'h node \<Rightarrow> 'h node list" where
  "edges n = n_statics n @ n_regexps n @ n_params n @ n_catchalls n"

text \<open>What is left of a sequence after its beginning.\<close>

definition strip :: "'a list \<Rightarrow> 'a list \<Rightarrow> 'a list option" where
  "strip p xs = (if take (length p) xs = p then Some (drop (length p) xs) else None)"

lemma strip_append [simp]: "strip p (p @ xs) = Some xs"
  by (simp add: strip_def)

lemma strip_Some_iff: "strip p xs = Some ys \<longleftrightarrow> xs = p @ ys"
  by (auto simp: strip_def) (metis append_take_drop_id)

lemma strip_Cons: "strip (a # p) (b # xs) = (if a = b then strip p xs else None)"
  by (auto simp: strip_def)

lemma strip_Nil [simp]: "strip [] xs = Some xs"
  by (simp add: strip_def)

lemma strip_append_left: "strip (p @ q) xs = (case strip p xs of None \<Rightarrow> None | Some ys \<Rightarrow> strip q ys)"
proof (induction p arbitrary: xs)
  case (Cons a p)
  then show ?case by (cases xs) (simp_all add: strip_Cons, simp_all add: strip_def)
qed simp

text \<open>
  The endpoints at a sequence of segments: those of the node itself, or those that one of its edges
  leads to. (In a well-formed tree there is at most one that does.)
\<close>

lemma edge_size: "c \<in> set (edges n) \<Longrightarrow> size c < size n"
  using child_size [of c ntStatic n] child_size [of c ntRegexp n] child_size [of c ntParam n]
    child_size [of c ntCatchAll n] by (auto simp: edges_def children_def)

function table :: "'h node \<Rightarrow> seg list \<Rightarrow> 'h endpoints option" where
  "table n segs =
     (if segs = [] then n_endpoints n
      else case find (\<lambda>c. edge_segs c \<noteq> [] \<and> hd (edge_segs c) = hd segs) (edges n) of
        None \<Rightarrow> None
      | Some c \<Rightarrow> (case strip (edge_segs c) segs of None \<Rightarrow> None | Some s \<Rightarrow> table c s))"
  by pat_completeness auto
termination
  by (relation "measure (\<lambda>(n, s). size n)")
    (auto dest!: find_Some_iff [THEN iffD1] intro!: edge_size)

declare table.simps [simp del]

text \<open>
  The invariant of a tree. Every edge is in the list of its type and is labelled by the beginning
  of its segments; no two edges begin with the same segment; static edges are sorted; every edge
  leads to endpoints.
\<close>

definition wildcard :: "char \<Rightarrow> bool" where
  "wildcard c \<longleftrightarrow> c = CHR ''{'' \<or> c = CHR ''*''"

definition edge_ok :: "tree_env \<Rightarrow> 'h node \<Rightarrow> bool" where
  "edge_ok E c \<longleftrightarrow> (case n_typ c of
     ntStatic \<Rightarrow> n_prefix c \<noteq> [] \<and> n_label c = hd (n_prefix c) \<and> n_tail c = CHR 0x00 \<and>
       list_all (\<lambda>x. \<not> wildcard x) (n_prefix c)
   | ntRegexp \<Rightarrow> n_label c = CHR ''{'' \<and> n_rex c = TE_compile E (n_prefix c) \<and> n_rex c \<noteq> None
   | ntParam \<Rightarrow> n_label c = CHR ''{''
   | ntCatchAll \<Rightarrow> n_label c = CHR ''*'' \<and> n_tail c = CHR 0x00)"

definition edges_ok :: "tree_env \<Rightarrow> 'h node \<Rightarrow> bool" where
  "edges_ok E n \<longleftrightarrow>
     (\<forall>t. \<forall>c\<in>set (children t n). n_typ c = t \<and> edge_ok E c) \<and>
     distinct (map (hd \<circ> edge_segs) (edges n)) \<and>
     sorted (map (\<lambda>c. byte_of (n_label c)) (n_statics n)) \<and>
     (\<forall>c\<in>set (edges n). table c \<noteq> Map.empty)"

function tree_ok :: "tree_env \<Rightarrow> 'h node \<Rightarrow> bool" where
  "tree_ok E n \<longleftrightarrow> edges_ok E n \<and> (\<forall>c\<in>set (edges n). tree_ok E c)"
  by pat_completeness auto
termination
  by (relation "measure (\<lambda>(E, n). size n)") (auto intro: edge_size)

declare tree_ok.simps [simp del]

lemma set_edges: "set (edges n) = (\<Union>t. set (children t n))"
proof -
  have "(\<Union>t. set (children t n)) = (\<Union>t\<in>{ntStatic, ntRegexp, ntParam, ntCatchAll}. set (children t n))"
    by (rule arg_cong [of _ _ "\<lambda>A. \<Union>t\<in>A. set (children t n)"]) (auto intro: node_type.exhaust)
  then show ?thesis by (simp add: edges_def children_def Un_assoc)
qed

lemma children_simps [simp]:
  "children ntStatic n = n_statics n" "children ntRegexp n = n_regexps n"
  "children ntParam n = n_params n" "children ntCatchAll n = n_catchalls n"
  by (simp_all add: children_def)

lemma children_with_children [simp]:
  "children t (with_children t' cs n) = (if t = t' then cs else children t n)"
  by (cases n; cases t; cases t') simp_all

lemma with_children_head [simp]:
  "n_typ (with_children t cs n) = n_typ n" "n_label (with_children t cs n) = n_label n"
  "n_tail (with_children t cs n) = n_tail n" "n_prefix (with_children t cs n) = n_prefix n"
  "n_rex (with_children t cs n) = n_rex n" "n_endpoints (with_children t cs n) = n_endpoints n"
  by (cases n; cases t; simp)+

lemma with_endpoints_simps [simp]:
  "n_typ (with_endpoints e n) = n_typ n" "n_label (with_endpoints e n) = n_label n"
  "n_tail (with_endpoints e n) = n_tail n" "n_prefix (with_endpoints e n) = n_prefix n"
  "n_rex (with_endpoints e n) = n_rex n" "n_endpoints (with_endpoints e n) = Some e"
  "children t (with_endpoints e n) = children t n" "edges (with_endpoints e n) = edges n"
  by (cases n; cases t; simp add: edges_def)+

lemma with_head_simps [simp]:
  "n_typ (with_head ty l t p x n) = ty" "n_label (with_head ty l t p x n) = l"
  "n_tail (with_head ty l t p x n) = t" "n_prefix (with_head ty l t p x n) = p"
  "n_rex (with_head ty l t p x n) = x" "n_endpoints (with_head ty l t p x n) = n_endpoints n"
  "children t' (with_head ty l t p x n) = children t' n" "edges (with_head ty l t p x n) = edges n"
  by (cases n; cases t'; simp add: edges_def)+

lemma new_node_simps [simp]:
  "n_typ (new_node ty l t p) = ty" "n_label (new_node ty l t p) = l"
  "n_tail (new_node ty l t p) = t" "n_prefix (new_node ty l t p) = p"
  "n_rex (new_node ty l t p) = None" "n_endpoints (new_node ty l t p) = None"
  "children t' (new_node ty l t p) = []" "edges (new_node ty l t p) = []"
  by (cases t'; simp add: new_node_def edges_def)+

lemma edge_ok_segs: "edge_ok E c \<Longrightarrow> edge_segs c \<noteq> []"
  by (auto simp: edge_ok_def edge_segs_def split: node_type.splits)

lemma edges_ok_edge: "edges_ok E n \<Longrightarrow> c \<in> set (edges n) \<Longrightarrow> edge_ok E c"
  by (auto simp: edges_ok_def set_edges)

lemma tree_ok_edges: "tree_ok E n \<Longrightarrow> edges_ok E n"
  using tree_ok.simps [of E n] by blast

lemma tree_ok_child: "tree_ok E n \<Longrightarrow> c \<in> set (edges n) \<Longrightarrow> tree_ok E c"
  using tree_ok.simps [of E n] by blast

text \<open>The table by the edges of a well-formed node.\<close>

definition edge_table :: "'h node \<Rightarrow> seg list \<Rightarrow> 'h endpoints option" where
  "edge_table c segs = (case strip (edge_segs c) segs of None \<Rightarrow> None | Some s \<Rightarrow> table c s)"

lemma table_Nil [simp]: "table n [] = n_endpoints n"
  by (simp add: table.simps)

lemma table_edge:
  assumes "edges_ok E n" "c \<in> set (edges n)" "segs \<noteq> []" "hd (edge_segs c) = hd segs"
  shows "table n segs = edge_table c segs"
proof -
  obtain d where d: "find (\<lambda>c. edge_segs c \<noteq> [] \<and> hd (edge_segs c) = hd segs) (edges n) = Some d"
    using assms(2,4) edge_ok_segs [OF edges_ok_edge [OF assms(1,2)]]
    by (cases "find (\<lambda>c. edge_segs c \<noteq> [] \<and> hd (edge_segs c) = hd segs) (edges n)")
      (auto simp: find_None_iff)
  then have "d \<in> set (edges n)" "hd (edge_segs d) = hd (edge_segs c)"
    using assms(4) by (auto simp: find_Some_iff)
  then have "d = c"
    using assms(1,2) 
    by (metis (mono_tags, lifting) comp_apply distinct_map edges_ok_def inj_onD)
  with d show ?thesis using assms(3) by (simp add: table.simps edge_table_def)
qed

lemma table_no_edge:
  assumes "segs \<noteq> []" "\<And>c. c \<in> set (edges n) \<Longrightarrow> hd (edge_segs c) \<noteq> hd segs"
  shows "table n segs = None"
proof -
  have "find (\<lambda>c. edge_segs c \<noteq> [] \<and> hd (edge_segs c) = hd segs) (edges n) = None"
    using assms(2) by (auto simp: find_None_iff)
  then show ?thesis using assms(1) by (simp add: table.simps)
qed

lemma edge_table_hd:
  "edge_ok E c \<Longrightarrow> edge_table c segs = Some e \<Longrightarrow> segs \<noteq> [] \<and> hd segs = hd (edge_segs c)"
  using edge_ok_segs [of E c]
  by (auto simp: edge_table_def strip_Some_iff split: option.splits)

section \<open>Patterns, piece by piece\<close>

lemma index_of_Cons: "index_of c (x # s) = (if x = c then Some 0 else map_option Suc (index_of c s))"
  by (simp add: index_of_def)

lemma index_of_None: "index_of c s = None \<longleftrightarrow> c \<notin> set s"
  by (simp add: index_of_def)

lemma patNextSegment_static:
  "list_all (\<lambda>x. \<not> wildcard x) s \<Longrightarrow> patNextSegment s = Inr (ntStatic, [], [], CHR 0x00, 0, length s)"
  by (auto simp: patNextSegment_def list_all_iff wildcard_def index_of_def)

lemma patNextSegment_is_static:
  "patNextSegment s = Inr (ntStatic, key, rx, tail, a, e) \<Longrightarrow> list_all (\<lambda>x. \<not> wildcard x) s"
  by (auto simp: patNextSegment_def list_all_iff wildcard_def index_of_None Let_def
      split: option.splits if_splits)

lemma index_of_pos: "index_of c s = Some w \<Longrightarrow> s \<noteq> []"
  by (auto simp: index_of_def split: if_splits)

text \<open>A byte before a pattern moves its first segment by one.\<close>

definition later :: "node_type \<times> string \<times> string \<times> char \<times> nat \<times> nat \<Rightarrow>
    node_type \<times> string \<times> string \<times> char \<times> nat \<times> nat" where
  "later r = (case r of (ty, key, rx, tail, a, e) \<Rightarrow>
     (ty, key, rx, tail, if ty = ntStatic then 0 else Suc a, Suc e))"

lemma patNextSegment_Cons:
  assumes "\<not> wildcard c"
  shows "patNextSegment (c # s) = map_sum id later (patNextSegment s)"
proof -
  have i: "index_of (CHR ''{'') (c # s) = map_option Suc (index_of (CHR ''{'') s)"
    "index_of (CHR ''*'') (c # s) = map_option Suc (index_of (CHR ''*'') s)"
    using assms by (auto simp: index_of_Cons wildcard_def)
  show ?thesis
  proof (cases "index_of (CHR ''{'') s")
    case None
    show ?thesis
    proof (cases "index_of (CHR ''*'') s")
      case (Some w)
      then have "s \<noteq> []" by (rule index_of_pos)
      then have "Suc w < length s \<longleftrightarrow> w < length s - Suc 0" by auto
      then show ?thesis using None Some by (simp add: patNextSegment_def i later_def)
    qed (use None in \<open>simp add: patNextSegment_def i later_def\<close>)
  next
    case (Some ps)
    then show ?thesis
      by (cases "index_of (CHR ''*'') s")
        (simp_all add: patNextSegment_def i later_def Let_def split: option.split)
  qed
qed

lemma pattern_segs_Cons:
  assumes "\<not> wildcard c"
  shows "pattern_segs (c # s) = map_sum id ((#) (Lit c)) (pattern_segs s)"
  using patNextSegment_Cons [OF assms, of s]
  by (subst (1 2) pattern_segs.simps)
    (auto simp: later_def split: sum.split prod.split)

lemma pattern_segs_append:
  "list_all (\<lambda>x. \<not> wildcard x) p \<Longrightarrow> pattern_segs (p @ s) = map_sum id ((@) (map Lit p)) (pattern_segs s)"
  by (cases "pattern_segs s"; induction p) (auto simp: pattern_segs_Cons)

lemma pattern_segs_Nil [simp]: "pattern_segs [] = Inr []"
  by (simp add: pattern_segs.simps patNextSegment_static)

lemma patNextSegment_front:
  assumes "patNextSegment s = Inr (ty, key, rx, tail, a, e)" "s \<noteq> []" "wildcard (hd s)"
  shows "ty \<noteq> ntStatic" "a = 0" "hd s = (if ty = ntCatchAll then CHR ''*'' else CHR ''{'')"
    "ty = ntCatchAll \<Longrightarrow> tail = CHR 0x00 \<and> e = length s"
proof -
  obtain c s' where s: "s = c # s'" using assms(2) by (cases s) auto
  show "ty \<noteq> ntStatic" "a = 0" "hd s = (if ty = ntCatchAll then CHR ''*'' else CHR ''{'')"
    "ty = ntCatchAll \<Longrightarrow> tail = CHR 0x00 \<and> e = length s"
    using assms(1,3) unfolding s
    by (auto simp: patNextSegment_def wildcard_def index_of_Cons Let_def split: option.splits if_splits)
qed

text \<open>The first segment of a search, by its first byte.\<close>

lemma search_cases:
  assumes "search \<noteq> []" "pattern_segs search = Inr segs"
  obtains (static) "\<not> wildcard (hd search)" "segs \<noteq> []" "hd segs = Lit (hd search)"
  | (wild) t key rx tail e segs' where "wildcard (hd search)"
    "patNextSegment search = Inr (t, key, rx, tail, 0, e)" "t \<noteq> ntStatic"
    "pattern_segs (drop e search) = Inr segs'" "segs = wild_seg t rx tail # segs'"
    "hd search = (if t = ntCatchAll then CHR ''*'' else CHR ''{'')"
    "t = ntCatchAll \<Longrightarrow> tail = CHR 0x00 \<and> e = length search"
proof (cases "wildcard (hd search)")
  case False
  obtain c s where s: "search = c # s" using assms(1) by (cases search) auto
  have "segs \<noteq> [] \<and> hd segs = Lit c"
    using assms(2) False by (cases "pattern_segs s") (auto simp: s pattern_segs_Cons)
  with False s show ?thesis by (intro static) simp_all
next
  case True
  obtain t key rx tail a e where p: "patNextSegment search = Inr (t, key, rx, tail, a, e)"
    using assms(2) by (subst (asm) pattern_segs.simps) (auto split: sum.splits)
  note f = patNextSegment_front [OF p assms(1) True]
  obtain segs' where "pattern_segs (drop e search) = Inr segs'" "segs = wild_seg t rx tail # segs'"
    using assms(2) f(1,2) by (subst (asm) pattern_segs.simps) (auto simp: p split: sum.splits)
  with True p f show ?thesis by (intro wild [of t key rx tail e segs']) simp_all
qed

section \<open>Edges that are added and replaced\<close>

definition same_head :: "'h node \<Rightarrow> 'h node \<Rightarrow> bool" where
  "same_head n n' \<longleftrightarrow> n_typ n' = n_typ n \<and> n_label n' = n_label n \<and> n_tail n' = n_tail n \<and>
     n_prefix n' = n_prefix n \<and> n_rex n' = n_rex n"

lemma same_head_edge:
  "same_head n n' \<Longrightarrow> edge_ok E n' = edge_ok E n" "same_head n n' \<Longrightarrow> edge_segs n' = edge_segs n"
  by (auto simp: same_head_def edge_ok_def edge_segs_def split: node_type.splits)

lemma same_head_refl [simp]: "same_head n n" by (simp add: same_head_def)

lemma edge_hd_iff:
  assumes "edge_ok E c" "t = ntStatic \<Longrightarrow> \<not> wildcard l \<and> tail = CHR 0x00"
    "t \<noteq> ntStatic \<Longrightarrow> l = (if t = ntCatchAll then CHR ''*'' else CHR ''{'')"
    "t = ntCatchAll \<Longrightarrow> tail = CHR 0x00"
  shows "hd (edge_segs c) = (if t = ntStatic then Lit l else wild_seg t x tail) \<longleftrightarrow>
    n_typ c = t \<and> n_label c = l \<and> n_tail c = tail \<and> (t = ntRegexp \<longrightarrow> n_prefix c = x)"
  using assms by (cases "n_typ c"; cases t) (auto simp: edge_ok_def edge_segs_def hd_map)

lemma append_child_simps:
  "same_head n (append_child E c n)" "n_endpoints (append_child E c n) = n_endpoints n"
  by (simp_all add: append_child_def same_head_def)

lemma mset_edges_append: "mset (edges (append_child E c n)) = add_mset c (mset (edges n))"
  by (cases n; cases "n_typ c") (simp_all add: append_child_def edges_def)

lemma set_edges_append [simp]: "set (edges (append_child E c n)) = insert c (set (edges n))"
  using arg_cong [OF mset_edges_append, of set_mset] by simp

lemma edges_ok_append:
  assumes "edges_ok E n" "edge_ok E c" "\<forall>d\<in>set (edges n). hd (edge_segs d) \<noteq> hd (edge_segs c)"
    "table c \<noteq> Map.empty"
  shows "edges_ok E (append_child E c n)"
proof -
  have "mset (map (hd \<circ> edge_segs) (edges (append_child E c n))) =
      mset (map (hd \<circ> edge_segs) (c # edges n))"
    using arg_cong [OF mset_edges_append, of "image_mset (hd \<circ> edge_segs)"] by simp
  then have "distinct (map (hd \<circ> edge_segs) (edges (append_child E c n))) =
      distinct (map (hd \<circ> edge_segs) (c # edges n))"
    by (rule mset_eq_imp_distinct_iff)
  moreover have "distinct (map (hd \<circ> edge_segs) (c # edges n))"
    using assms(1,3) by (auto simp: edges_ok_def)
  moreover have "sorted (map (\<lambda>c. byte_of (n_label c)) (children ntStatic (append_child E c n)))"
  proof (cases "n_typ c = ntStatic")
    case True
    have "\<forall>d\<in>set (n_statics n). n_typ d = ntStatic" using assms(1) children_simps(1) by (metis edges_ok_def)
    with True show ?thesis
      unfolding append_child_def by (simp del: children_simps) (simp add: sorted_Sort_static)
  next
    case False
    then show ?thesis
      using assms(1) unfolding append_child_def
      by (simp del: children_simps) (simp add: edges_ok_def)
  qed
  moreover have "n_typ d = t \<and> edge_ok E d" if "d \<in> set (children t (append_child E c n))" for d t
    using that assms(1,2) unfolding append_child_def edges_ok_def by (auto split: if_splits)
  moreover have "\<forall>d\<in>set (edges (append_child E c n)). table d \<noteq> Map.empty"
    using assms(1,4) by (auto simp: edges_ok_def)
  ultimately show ?thesis unfolding edges_ok_def by simp
qed

lemma append_child_ok:
  assumes "tree_ok E n" "edge_ok E c" "tree_ok E c"
    "\<forall>d\<in>set (edges n). hd (edge_segs d) \<noteq> hd (edge_segs c)" "table c \<noteq> Map.empty"
  shows "tree_ok E (append_child E c n)"
    and "table (append_child E c n) x =
      (if x \<noteq> [] \<and> hd x = hd (edge_segs c) then edge_table c x else table n x)"
proof -
  have ok: "edges_ok E (append_child E c n)"
    using edges_ok_append [OF tree_ok_edges [OF assms(1)] assms(2,4,5)] .
  then show "tree_ok E (append_child E c n)"
    using tree_ok.simps [of E "append_child E c n"] assms(3) tree_ok_child [OF assms(1)] by simp
  show "table (append_child E c n) x =
      (if x \<noteq> [] \<and> hd x = hd (edge_segs c) then edge_table c x else table n x)"
  proof (cases "x \<noteq> [] \<and> hd x = hd (edge_segs c)")
    case True
    then show ?thesis using table_edge [OF ok, of c x] by simp
  next
    case other: False
    show ?thesis
    proof (cases "x = []")
      case True
      then show ?thesis by (simp add: append_child_simps)
    next
      case False
      with other have h: "hd x \<noteq> hd (edge_segs c)" by simp
      show ?thesis
      proof (cases "\<exists>d\<in>set (edges n). hd (edge_segs d) = hd x")
        case True
        then obtain d where d: "d \<in> set (edges n)" "hd (edge_segs d) = hd x" by blast
        then show ?thesis
          using table_edge [OF ok, of d x] table_edge [OF tree_ok_edges [OF assms(1)] d(1) False d(2)]
            False h by simp
      next
        case none: False
        then have "table n x = None" "table (append_child E c n) x = None"
          using h by (auto intro!: table_no_edge [OF False])
        with h show ?thesis by simp
      qed
    qed
  qed
qed

lemma put_child_simps:
  "same_head n (put_child t i c n)" "n_endpoints (put_child t i c n) = n_endpoints n"
  by (simp_all add: put_child_def same_head_def)

lemma map_edges_put:
  assumes "i < length (children t n)" "f (children t n ! i) = f c"
  shows "map f (edges (put_child t i c n)) = map f (edges n)"
proof -
  have "map f ((children t n)[i := c]) = map f (children t n)"
    using assms(2) by (metis list_update_id map_update)
  then show ?thesis
    by (cases n; cases t) (simp_all add: put_child_def edges_def)
qed

lemma put_child_ok:
  assumes "tree_ok E n" "i < length (children t n)" "edge_ok E c" "tree_ok E c" "n_typ c = t"
    "hd (edge_segs c) = hd (edge_segs (children t n ! i))" "n_label c = n_label (children t n ! i)"
    "table c \<noteq> Map.empty"
  shows "tree_ok E (put_child t i c n)"
    and "table (put_child t i c n) x =
      (if x \<noteq> [] \<and> hd x = hd (edge_segs c) then edge_table c x else table n x)"
proof -
  note n = tree_ok_edges [OF assms(1)]
  have kids: "set (edges (put_child t i c n)) \<subseteq> insert c (set (edges n))"
    by (auto simp: set_edges put_child_def split: if_splits dest!: set_update_subset_insert [THEN subsetD])
  have c: "c \<in> set (edges (put_child t i c n))"
    using assms(2) by (auto simp: set_edges put_child_def intro!: exI [of _ t] set_update_memI)
  have ok: "edges_ok E (put_child t i c n)"
    unfolding edges_ok_def
  proof (intro conjI allI ballI)
    fix t' d assume "d \<in> set (children t' (put_child t i c n))"
    then have "d \<in> set (children t' n) \<or> d = c \<and> t' = t"
      by (auto simp: put_child_def split: if_splits dest!: set_update_subset_insert [THEN subsetD])
    then show "n_typ d = t'" "edge_ok E d" using n assms(3,5) by (auto simp: edges_ok_def)
  next
    show "distinct (map (hd \<circ> edge_segs) (edges (put_child t i c n)))"
      using n map_edges_put [OF assms(2), of "hd \<circ> edge_segs" c] assms(6) by (simp add: edges_ok_def)
  next
    have "map (\<lambda>c. byte_of (n_label c)) (children ntStatic (put_child t i c n)) =
        map (\<lambda>c. byte_of (n_label c)) (children ntStatic n)"
      using assms(2,7) by (cases "t = ntStatic") (auto simp: put_child_def map_update list_update_same_conv simp del: children_simps)
    then show "sorted (map (\<lambda>c. byte_of (n_label c)) (n_statics (put_child t i c n)))"
      using n by (simp add: edges_ok_def)
  next
    fix d assume "d \<in> set (edges (put_child t i c n))"
    then show "table d \<noteq> Map.empty" using kids n assms(8) by (auto simp: edges_ok_def)
  qed
  then show "tree_ok E (put_child t i c n)"
    using tree_ok.simps [of E "put_child t i c n"] assms(4) tree_ok_child [OF assms(1)] kids by blast
  show "table (put_child t i c n) x =
      (if x \<noteq> [] \<and> hd x = hd (edge_segs c) then edge_table c x else table n x)"
  proof (cases "x \<noteq> [] \<and> hd x = hd (edge_segs c)")
    case True
    then show ?thesis using table_edge [OF ok c, of x] by simp
  next
    case other: False
    show ?thesis
    proof (cases "x = []")
      case True
      then show ?thesis by (simp add: put_child_simps)
    next
      case False
      with other have h: "hd x \<noteq> hd (edge_segs c)" by simp
      show ?thesis
      proof (cases "\<exists>d\<in>set (edges n). hd (edge_segs d) = hd x")
        case True
        then obtain d where d: "d \<in> set (edges n)" "hd (edge_segs d) = hd x" by blast
        have "d \<in> set (edges (put_child t i c n))"
        proof -
          obtain t' where t': "d \<in> set (children t' n)" using d(1) by (auto simp: set_edges)
          then obtain j where j: "j < length (children t' n)" "children t' n ! j = d"
            by (auto simp: in_set_conv_nth)
          have "\<not> (t' = t \<and> j = i)" using h d(2) j assms(6) by auto
          then have "d \<in> set (children t' (put_child t i c n))"
            using j unfolding put_child_def
            by (cases "t' = t") (auto simp: in_set_conv_nth intro!: exI [of _ j])
          then show ?thesis by (auto simp: set_edges)
        qed
        from table_edge [OF ok this False d(2)] table_edge [OF n d(1) False d(2)]
        show ?thesis using h False by auto
      next
        case none: False
        then have "table n x = None" "table (put_child t i c n) x = None"
          using h kids by (auto intro!: table_no_edge [OF False])
        with h show ?thesis by simp
      qed
    qed
  qed
qed

section \<open>Inserting changes the table at one sequence of segments\<close>

text \<open>Setting endpoints, as a change of those of the node.\<close>

definition no_endpoints :: "'h endpoints option \<Rightarrow> 'h endpoints" where
  "no_endpoints x = (case x of None \<Rightarrow> Map.empty | Some eps \<Rightarrow> eps)"

definition set_eps :: "('h endpoints \<Rightarrow> 'h endpoints) \<Rightarrow> 'h node \<Rightarrow> string + 'h node" where
  "set_eps g n = Inr (with_endpoints (g (no_endpoints (n_endpoints n))) n)"

lemma setEndpoint_eps:
  "patParamKeys pattern = Inr keys \<Longrightarrow> setEndpoint m h pattern = set_eps (set_methods m h pattern keys)"
  by (intro ext) (simp add: setEndpoint_def set_eps_def no_endpoints_def)

definition compiles :: "tree_env \<Rightarrow> seg list \<Rightarrow> bool" where
  "compiles E segs \<longleftrightarrow> (\<forall>x t. Rex x t \<in> set segs \<longrightarrow> TE_compile E x \<noteq> None)"

lemma compiles_simps [simp]:
  "compiles E (g # segs) \<longleftrightarrow> (\<forall>x t. g = Rex x t \<longrightarrow> TE_compile E x \<noteq> None) \<and> compiles E segs"
  "compiles E []"
  by (auto simp: compiles_def)

lemma tree_ok_leaf: "edges n = [] \<Longrightarrow> tree_ok E n"
  by (simp add: tree_ok.simps [of E n] edges_ok_def) (simp add: edges_def children_def split: node_type.splits)

lemma tree_ok_cong:
  assumes "\<And>t. children t n' = children t n"
  shows "tree_ok E n' = tree_ok E n"
proof -
  have s: "n_statics n' = n_statics n" using assms [of ntStatic] by simp
  have "edges n' = edges n"
    using s assms [of ntRegexp] assms [of ntParam] assms [of ntCatchAll] by (simp add: edges_def)
  then show ?thesis
    unfolding tree_ok.simps [of E n'] tree_ok.simps [of E n] edges_ok_def s assms by simp
qed

lemma tree_ok_with [simp]:
  "tree_ok E (with_endpoints e n) = tree_ok E n" "tree_ok E (with_head ty l t p x n) = tree_ok E n"
  by (rule tree_ok_cong, simp)+

lemma table_with_endpoints: "table (with_endpoints e n) = (table n)([] \<mapsto> e)"
  by (intro ext) (simp add: table.simps [of "with_endpoints e n"] table.simps [of n])

lemma table_with_head: "table (with_head ty l t p x n) = table n"
  by (intro ext) (simp add: table.simps [of "with_head ty l t p x n"] table.simps [of n])

lemma table_leaf: "edges n = [] \<Longrightarrow> n_endpoints n = None \<Longrightarrow> table n = Map.empty"
  by (intro ext) (simp add: table.simps)

lemma edge_table_upd:
  assumes "edge_segs c' = edge_segs c" "table c' = (table c)(s \<mapsto> v)"
  shows "edge_table c' = (edge_table c)(edge_segs c @ s \<mapsto> v)"
proof
  fix x
  show "edge_table c' x = ((edge_table c)(edge_segs c @ s \<mapsto> v)) x"
    using strip_Some_iff [of "edge_segs c" x] by (auto simp: edge_table_def assms split: option.split)
qed

text \<open>A node made for a search: its label is the first byte, and it is the search if that is static.\<close>

definition made_for :: "string \<Rightarrow> 'h node \<Rightarrow> bool" where
  "made_for search c \<longleftrightarrow> search \<noteq> [] \<and> edges c = [] \<and> n_endpoints c = None \<and> n_label c = hd search \<and>
     (\<not> wildcard (hd search) \<longrightarrow> n_typ c = ntStatic \<and> n_tail c = CHR 0x00 \<and> n_prefix c = search)"

definition new_edge :: "tree_env \<Rightarrow> ('h endpoints \<Rightarrow> 'h endpoints) \<Rightarrow> seg list \<Rightarrow> 'h node \<Rightarrow> bool" where
  "new_edge E g segs c \<longleftrightarrow> edge_ok E c \<and> tree_ok E c \<and> edge_table c = [segs \<mapsto> g Map.empty]"

lemma edge_table_some: "edge_table c \<noteq> Map.empty \<Longrightarrow> table c \<noteq> Map.empty"
  by (auto simp: edge_table_def fun_eq_iff split: option.splits)

lemma new_edge_some: "new_edge E g segs c \<Longrightarrow> table c \<noteq> Map.empty"
  by (intro edge_table_some) (simp add: new_edge_def)

lemma new_edge_hd: "new_edge E g segs c \<Longrightarrow> segs \<noteq> [] \<and> hd segs = hd (edge_segs c)"
  using edge_table_hd [of E c segs "g Map.empty"] by (simp add: new_edge_def)

lemma new_edge_leaf:
  assumes "edges c = []" "n_endpoints c = None" "edge_ok E c"
  shows "\<exists>c'. set_eps g c = Inr c' \<and> same_head c c' \<and> new_edge E g (edge_segs c) c'"
proof -
  let ?c = "with_endpoints (g Map.empty) c"
  have s: "same_head c ?c" by (simp add: same_head_def)
  have "table ?c = [[] \<mapsto> g Map.empty]" by (simp add: table_with_endpoints table_leaf assms)
  then have "edge_table ?c = (edge_table c)(edge_segs c @ [] \<mapsto> g Map.empty)"
    by (intro edge_table_upd same_head_edge(2) [OF s]) (simp add: table_leaf assms)
  moreover have "edge_table c = Map.empty"
    by (intro ext) (simp add: edge_table_def table_leaf assms split: option.split)
  ultimately have "new_edge E g (edge_segs c) ?c"
    using assms same_head_edge(1) [OF s] by (simp add: new_edge_def tree_ok_leaf)
  then show ?thesis using s by (simp add: set_eps_def no_endpoints_def assms)
qed

lemma new_edge_above:
  assumes "edges c = []" "n_endpoints c = None" "edge_ok E c" "new_edge E g segs d"
  shows "new_edge E g (edge_segs c @ segs) (append_child E d c)"
proof -
  have d: "edge_ok E d" "tree_ok E d" "edge_table d = [segs \<mapsto> g Map.empty]"
    using assms(4) by (simp_all add: new_edge_def)
  have "\<forall>e\<in>set (edges c). hd (edge_segs e) \<noteq> hd (edge_segs d)" using assms(1) by simp
  note a = append_child_ok [OF tree_ok_leaf [OF assms(1)] d(1,2) this new_edge_some [OF assms(4)]]
  have "table (append_child E d c) = (table c)(segs \<mapsto> g Map.empty)"
    using new_edge_hd [OF assms(4)] by (intro ext) (auto simp: a(2) d(3) table_leaf assms(1,2))
  then have "edge_table (append_child E d c) = (edge_table c)(edge_segs c @ segs \<mapsto> g Map.empty)"
    by (intro edge_table_upd same_head_edge(2) append_child_simps)
  moreover have "edge_table c = Map.empty"
    by (intro ext) (simp add: edge_table_def table_leaf assms split: option.split)
  ultimately show ?thesis
    using a(1) assms(3) same_head_edge(1) [OF append_child_simps(1) [where E = E and c = d and n = c], of E]
    by (simp add: new_edge_def)
qed

lemma patNextSegment_split:
  assumes "patNextSegment s = Inr (ty, key, rx, tail, a, e)" "ty \<noteq> ntStatic"
  shows "list_all (\<lambda>x. \<not> wildcard x) (take a s) \<and> drop a s \<noteq> [] \<and> wildcard (hd (drop a s)) \<and>
    patNextSegment (drop a s) = Inr (ty, key, rx, tail, 0, e - a)"
  using assms
proof (induction s arbitrary: a e)
  case Nil
  then show ?case by (simp add: patNextSegment_static)
next
  case (Cons c s)
  show ?case
  proof (cases "wildcard c")
    case True
    then show ?thesis using patNextSegment_front [OF Cons.prems(1)] Cons.prems by simp
  next
    case False
    obtain ty' key' rx' tail' a' e' where n: "patNextSegment s = Inr (ty', key', rx', tail', a', e')"
      using patNextSegment_Cons [OF False, of s] Cons.prems(1) by (cases "patNextSegment s") auto
    then have "ty' = ty" "key' = key" "rx' = rx" "tail' = tail" "a = Suc a'" "e = Suc e'"
      using patNextSegment_Cons [OF False, of s] Cons.prems by (auto simp: later_def split: if_splits)
    then show ?thesis using Cons.IH [of a' e'] n Cons.prems(2) False by simp
  qed
qed

lemma with_head_twice [simp]: "with_head ty l t p x (with_head ty' l' t' p' x' n) = with_head ty l t p x n"
  by (cases n) simp

lemma addChild_new:
  assumes "pattern_segs search = Inr segs" "compiles E segs" "made_for search child"
  shows "\<exists>c. addChild E (set_eps g) n child search = Inr (append_child E c n) \<and> new_edge E g segs c"
  using assms
proof (induction "length search" arbitrary: n child search segs rule: less_induct)
  case less
  have m: "search \<noteq> []" "edges child = []" "n_endpoints child = None" "n_label child = hd search"
    using less.prems(3) by (simp_all add: made_for_def)
  from m(1) less.prems(1) show ?case
  proof (cases rule: search_cases)
    case static
    then have h: "n_typ child = ntStatic" "n_tail child = CHR 0x00" "n_prefix child = search"
      using less.prems(3) by (simp_all add: made_for_def)
    obtain ty key rx tail a e where p: "patNextSegment search = Inr (ty, key, rx, tail, a, e)"
      using less.prems(1) by (subst (asm) pattern_segs.simps) (auto split: sum.splits)
    show ?thesis
    proof (cases "ty = ntStatic")
      case True
      then have w: "list_all (\<lambda>x. \<not> wildcard x) search" using p patNextSegment_is_static by blast
      have "edge_ok E child" using h m(1,4) w by (simp add: edge_ok_def)
      from new_edge_leaf [OF m(2,3) this, of g] obtain c where
        "set_eps g child = Inr c" "new_edge E g (edge_segs child) c" by blast
      moreover have "edge_segs child = segs"
        using True p less.prems(1) h by (subst (asm) pattern_segs.simps) (simp add: edge_segs_def)
      ultimately show ?thesis using True p by (subst addChild.simps) (auto intro!: exI [of _ c])
    next
      case False
      note q = patNextSegment_split [OF p False]
      let ?rest = "drop a search"
      have a: "a \<noteq> 0" using q static(1) by (intro notI) simp
      obtain segs' where r: "pattern_segs ?rest = Inr segs'" "segs = map Lit (take a search) @ segs'"
        using pattern_segs_append [of "take a search" ?rest] q less.prems(1)
        by (cases "pattern_segs ?rest") auto
      have c: "compiles E segs'" using less.prems(2) r(2) by (auto simp: compiles_def)
      let ?c2 = "with_head ntStatic (n_label child) (n_tail child) (take a search) None child"
      have "\<exists>d. addChild E (set_eps g) ?c2 (new_node ty (hd ?rest) tail []) ?rest = Inr (append_child E d ?c2) \<and>
          new_edge E g segs' d"
        by (rule less.hyps [OF _ r(1) c]) (use a m(1) q in \<open>auto simp: made_for_def\<close>)
      then obtain d where d: "new_edge E g segs' d"
        "addChild E (set_eps g) ?c2 (new_node ty (hd ?rest) tail []) ?rest = Inr (append_child E d ?c2)"
        by blast
      have "edge_ok E ?c2" using q a h m by (auto simp: edge_ok_def hd_take)
      from new_edge_above [OF _ _ this d(1)] have "new_edge E g segs (append_child E d ?c2)"
        using m r(2) by (simp add: edge_segs_def)
      moreover have "ty = ntRegexp \<longrightarrow> TE_compile E rx \<noteq> None"
      proof
        assume "ty = ntRegexp"
        then have "Rex rx tail \<in> set segs"
          using less.prems(1) p by (subst (asm) pattern_segs.simps) (auto split: sum.splits)
        then show "TE_compile E rx \<noteq> None" using less.prems(2) by (auto simp: compiles_def)
      qed
      ultimately show ?thesis
        using False a d(2) h by (subst addChild.simps) (auto simp: p intro!: exI [of _ "append_child E d ?c2"])
    qed
  next
    case (wild t key rx tail e segs')
    let ?rest = "drop e search"
    have "\<exists>pre r. (if t = ntRegexp
         then (case TE_compile E rx of
                 None \<Rightarrow> Inl (''chi: invalid regexp pattern '' @ quoted rx @ '' in route param'')
               | Some r \<Rightarrow> Inr (with_head (n_typ child) (n_label child) (n_tail child) rx (Some r) child))
         else Inr child) = Inr (with_head (n_typ child) (n_label child) (n_tail child) pre r child) \<and>
         (t = ntRegexp \<longrightarrow> pre = rx \<and> r = TE_compile E rx \<and> r \<noteq> None)"
    proof (cases "t = ntRegexp")
      case True
      then obtain r where "TE_compile E rx = Some r"
        using less.prems(2) wild(5) by (auto simp: compiles_def)
      then show ?thesis using True by (intro exI [of _ rx] exI [of _ "Some r"]) simp
    next
      case False
      then show ?thesis
        by (intro exI [of _ "n_prefix child"] exI [of _ "n_rex child"]) (cases child; simp)
    qed
    then obtain pre r where c1: "(if t = ntRegexp
         then (case TE_compile E rx of
                 None \<Rightarrow> Inl (''chi: invalid regexp pattern '' @ quoted rx @ '' in route param'')
               | Some r \<Rightarrow> Inr (with_head (n_typ child) (n_label child) (n_tail child) rx (Some r) child))
         else Inr child) = Inr (with_head (n_typ child) (n_label child) (n_tail child) pre r child)"
      "t = ntRegexp \<longrightarrow> pre = rx \<and> r = TE_compile E rx \<and> r \<noteq> None" by blast
    let ?c2 = "with_head t (n_label child) tail pre r child"
    have ok: "edge_ok E ?c2" "edge_segs ?c2 = [wild_seg t rx tail]"
      using wild c1(2) m(4) by (cases t; auto simp: edge_ok_def edge_segs_def)+
    have leaf: "edges ?c2 = []" "n_endpoints ?c2 = None" using m by simp_all
    show ?thesis
    proof (cases "e = length search")
      case True
      then have "segs' = []" using wild(4) by simp
      with new_edge_leaf [OF leaf ok(1), of g] obtain c where
        c: "set_eps g ?c2 = Inr c" "new_edge E g segs c" using ok(2) wild(5) by auto
      have "addChild E (set_eps g) n child search = Inr (append_child E c n)"
        using wild(3) True c(1)
        by (subst addChild.simps) (simp only: wild(2) c1(1) sum.case prod.case if_True if_False Let_def
          with_head_simps with_head_twice refl simp_thms if_cancel)
      with c(2) show ?thesis by blast
    next
      case False
      then have n: "?rest \<noteq> []" "e > 0" "t \<noteq> ntCatchAll" using patNextSegment_cut [OF wild(2,3)] wild(7) by auto
      have c: "compiles E segs'" using less.prems(2) wild(5) by simp
      have "\<exists>d. addChild E (set_eps g) ?c2 (new_node ntStatic (hd ?rest) (CHR 0x00) ?rest) ?rest =
          Inr (append_child E d ?c2) \<and> new_edge E g segs' d"
        by (rule less.hyps [OF _ wild(4) c]) (use n m(1) in \<open>auto simp: made_for_def\<close>)
      then obtain d where d: "new_edge E g segs' d"
        "addChild E (set_eps g) ?c2 (new_node ntStatic (hd ?rest) (CHR 0x00) ?rest) ?rest = Inr (append_child E d ?c2)"
        by blast
      have "new_edge E g segs (append_child E d ?c2)"
        using new_edge_above [OF leaf ok(1) d(1)] ok(2) wild(5) by simp
      moreover have "addChild E (set_eps g) n child search = Inr (append_child E (append_child E d ?c2) n)"
        using wild(3) False n(3) d(2)
        by (subst addChild.simps) (simp only: wild(2) c1(1) sum.case prod.case if_True if_False Let_def
          with_head_simps with_head_twice refl not_False_eq_True simp_thms)
      ultimately show ?thesis by blast
    qed
  qed
qed

text \<open>Looking for an edge is looking for a first segment.\<close>

definition edge_key_ok :: "node_type \<Rightarrow> char \<Rightarrow> char \<Rightarrow> bool" where
  "edge_key_ok t l tail \<longleftrightarrow>
     (if t = ntStatic then \<not> wildcard l \<and> tail = CHR 0x00
      else l = (if t = ntCatchAll then CHR ''*'' else CHR ''{'') \<and> (t = ntCatchAll \<longrightarrow> tail = CHR 0x00))"

definition edge_key_seg :: "node_type \<Rightarrow> char \<Rightarrow> char \<Rightarrow> string \<Rightarrow> seg" where
  "edge_key_seg t l tail x = (if t = ntStatic then Lit l else wild_seg t x tail)"

lemma edge_key_iff:
  "edge_ok E c \<Longrightarrow> edge_key_ok t l tail \<Longrightarrow> hd (edge_segs c) = edge_key_seg t l tail x \<longleftrightarrow>
   n_typ c = t \<and> n_label c = l \<and> n_tail c = tail \<and> (t = ntRegexp \<longrightarrow> n_prefix c = x)"
  unfolding edge_key_seg_def by (rule edge_hd_iff) (auto simp: edge_key_ok_def split: if_splits)

lemma getEdge_SomeD:
  assumes "tree_ok E n" "edge_key_ok t l tail" "getEdge t l tail (if t = ntRegexp then x else []) n = Some i"
  shows "i < length (children t n)" "children t n ! i \<in> set (edges n)" "n_typ (children t n ! i) = t"
    "edge_ok E (children t n ! i)" "hd (edge_segs (children t n ! i)) = edge_key_seg t l tail x"
    "n_label (children t n ! i) = l" "n_tail (children t n ! i) = tail"
proof -
  let ?c = "children t n ! i"
  show i: "i < length (children t n)" using getEdge_less [OF assms(3)] .
  then have m: "?c \<in> set (children t n)" by simp
  then show "?c \<in> set (edges n)" by (auto simp: set_edges)
  show c: "n_typ ?c = t" "edge_ok E ?c" using tree_ok_edges [OF assms(1)] m by (auto simp: edges_ok_def)
  show "n_label ?c = l" "n_tail ?c = tail"
    using edge_index_Some [OF assms(3) [unfolded getEdge_def]] by simp_all
  moreover have "t = ntRegexp \<longrightarrow> n_prefix ?c = x"
    using edge_index_Some [OF assms(3) [unfolded getEdge_def]] by auto
  ultimately show "hd (edge_segs ?c) = edge_key_seg t l tail x"
    using edge_key_iff [OF c(2) assms(2)] c(1) by simp
qed

lemma getEdge_NoneD:
  assumes "tree_ok E n" "edge_key_ok t l tail" "getEdge t l tail (if t = ntRegexp then x else []) n = None"
    "d \<in> set (edges n)"
  shows "hd (edge_segs d) \<noteq> edge_key_seg t l tail x"
proof
  assume h: "hd (edge_segs d) = edge_key_seg t l tail x"
  obtain t' where t': "d \<in> set (children t' n)" using assms(4) by (auto simp: set_edges)
  then have d: "n_typ d = t'" "edge_ok E d" using tree_ok_edges [OF assms(1)] by (auto simp: edges_ok_def)
  then show False
    using edge_key_iff [OF d(2) assms(2)] h t' assms(3) by (auto simp: getEdge_def edge_index_None split: if_splits)
qed

text \<open>What inserting does to a node: the same node but for its table at the segments inserted.\<close>

definition inserted ::
    "tree_env \<Rightarrow> ('h endpoints \<Rightarrow> 'h endpoints) \<Rightarrow> seg list \<Rightarrow> 'h node \<Rightarrow> 'h node \<Rightarrow> bool" where
  "inserted E g segs n n' \<longleftrightarrow> tree_ok E n' \<and> same_head n n' \<and>
     table n' = (table n)(segs \<mapsto> g (no_endpoints (table n segs)))"

lemma inserted_append:
  assumes "tree_ok E n" "new_edge E g segs c" "\<forall>d\<in>set (edges n). hd (edge_segs d) \<noteq> hd segs"
  shows "inserted E g segs n (append_child E c n)"
proof -
  have c: "edge_ok E c" "tree_ok E c" "edge_table c = [segs \<mapsto> g Map.empty]"
    using assms(2) by (simp_all add: new_edge_def)
  note h = new_edge_hd [OF assms(2)]
  have "\<forall>d\<in>set (edges n). hd (edge_segs d) \<noteq> hd (edge_segs c)" using assms(3) h by simp
  note a = append_child_ok [OF assms(1) c(1,2) this new_edge_some [OF assms(2)]]
  have none: "table n x = None" if "x \<noteq> []" "hd x = hd segs" for x
    using assms(3) that by (intro table_no_edge) auto
  have "table (append_child E c n) = (table n)(segs \<mapsto> g (no_endpoints (table n segs)))"
    using h none by (intro ext) (auto simp: a(2) c(3) no_endpoints_def)
  then show ?thesis using a(1) by (simp add: inserted_def append_child_simps)
qed

lemma inserted_put:
  assumes "tree_ok E n" "i < length (children t n)" "children t n ! i = c" "n_typ c = t" "edge_ok E c"
    "edge_ok E c'" "tree_ok E c'" "n_typ c' = t" "n_label c' = n_label c"
    "hd (edge_segs c') = hd (edge_segs c)" "segs \<noteq> []" "hd segs = hd (edge_segs c)"
    "edge_table c' = (edge_table c)(segs \<mapsto> g (no_endpoints (edge_table c segs)))"
  shows "inserted E g segs n (put_child t i c' n)"
proof -
  have m: "c \<in> set (edges n)" using assms(2,3) by (auto simp: set_edges intro!: exI [of _ t])
  have h: "hd (edge_segs c') = hd (edge_segs (children t n ! i))" "n_label c' = n_label (children t n ! i)"
    using assms(3,9,10) by simp_all
  have "table c' \<noteq> Map.empty" by (intro edge_table_some) (simp add: assms(13))
  note p = put_child_ok [OF assms(1,2,6,7,8) h this]
  have e: "table n x = edge_table c x" if "x \<noteq> []" "hd x = hd (edge_segs c)" for x
    using table_edge [OF tree_ok_edges [OF assms(1)] m, of x] that by simp
  have "table (put_child t i c' n) = (table n)(segs \<mapsto> g (no_endpoints (table n segs)))"
    using assms(10-12) by (intro ext) (auto simp: p(2) assms(13) e)
  then show ?thesis using p(1) by (simp add: inserted_def put_child_simps)
qed

lemma inserted_below:
  assumes "tree_ok E n" "i < length (children t n)" "children t n ! i = c" "n_typ c = t" "edge_ok E c"
    "inserted E g s c c'"
  shows "inserted E g (edge_segs c @ s) n (put_child t i c' n)"
proof -
  have c': "same_head c c'" "tree_ok E c'" "table c' = (table c)(s \<mapsto> g (no_endpoints (table c s)))"
    using assms(6) by (simp_all add: inserted_def)
  have "edge_table c (edge_segs c @ s) = table c s" by (simp add: edge_table_def)
  then have "edge_table c' = (edge_table c)(edge_segs c @ s \<mapsto> g (no_endpoints (edge_table c (edge_segs c @ s))))"
    using edge_table_upd [OF same_head_edge(2) [OF c'(1)] c'(3)] by simp
  then show ?thesis
    using assms(1-5) c'(1,2) same_head_edge [OF c'(1)] edge_ok_segs [OF assms(5)]
    by (intro inserted_put) (auto simp: same_head_def)
qed

text \<open>The longest prefix, and the node that is split at its end.\<close>

lemma longestPrefix_take: "take (longestPrefix a b) a = take (longestPrefix a b) b"
  by (induction a b rule: list_induct2') (auto simp: longestPrefix_def)

lemma longestPrefix_le: "longestPrefix a b \<le> length a" "longestPrefix a b \<le> length b"
  by (induction a b rule: list_induct2') (auto simp: longestPrefix_def)

lemma longestPrefix_stop:
  "longestPrefix a b < length a \<Longrightarrow> longestPrefix a b < length b \<Longrightarrow>
   a ! longestPrefix a b \<noteq> b ! longestPrefix a b"
  by (induction a b rule: list_induct2') (auto simp: longestPrefix_def)

lemma longestPrefix_pos: "a \<noteq> [] \<Longrightarrow> b \<noteq> [] \<Longrightarrow> hd a = hd b \<Longrightarrow> longestPrefix a b > 0"
  by (cases a; cases b) (auto simp: longestPrefix_def)

lemma addChild_static:
  "list_all (\<lambda>x. \<not> wildcard x) s \<Longrightarrow> addChild E Inr n c s = Inr (append_child E c n)"
  by (subst addChild.simps) (simp add: patNextSegment_static)

text \<open>Splitting leaves the table of an edge as it is.\<close>

definition split_old :: "'h node \<Rightarrow> nat \<Rightarrow> 'h node" where
  "split_old c k = with_head (n_typ c) (n_prefix c ! k) (n_tail c) (drop k (n_prefix c)) (n_rex c) c"

definition split_child :: "tree_env \<Rightarrow> 'h node \<Rightarrow> nat \<Rightarrow> 'h node" where
  "split_child E c k = append_child E (split_old c k)
     (new_node ntStatic (n_label c) (CHR 0x00) (take k (n_prefix c)))"

lemma split_child_ok:
  assumes "edge_ok E c" "tree_ok E c" "n_typ c = ntStatic" "0 < k" "k < length (n_prefix c)"
    "table c \<noteq> Map.empty"
  shows "edge_ok E (split_child E c k)" "tree_ok E (split_child E c k)"
    "edge_segs (split_child E c k) = map Lit (take k (n_prefix c))"
    "edge_table (split_child E c k) = edge_table c"
    "edges (split_child E c k) = [split_old c k]" "hd (edge_segs (split_old c k)) = Lit (n_prefix c ! k)"
    "n_endpoints (split_child E c k) = None" "n_typ (split_child E c k) = ntStatic"
    "n_label (split_child E c k) = n_label c" "n_tail (split_child E c k) = CHR 0x00"
    "table (split_child E c k) x = (if x \<noteq> [] \<and> hd x = Lit (n_prefix c ! k) then edge_table (split_old c k) x else None)"
proof -
  let ?o = "split_old c k" and ?b = "new_node ntStatic (n_label c) (CHR 0x00) (take k (n_prefix c))"
  have c: "n_prefix c \<noteq> []" "n_label c = hd (n_prefix c)" "n_tail c = CHR 0x00"
    "list_all (\<lambda>x. \<not> wildcard x) (n_prefix c)"
    using assms(1,3) by (simp_all add: edge_ok_def)
  have o: "edge_ok E ?o" "tree_ok E ?o" "edge_segs ?o = map Lit (drop k (n_prefix c))" "n_typ ?o = ntStatic"
    using assms c by (auto simp: split_old_def edge_ok_def edge_segs_def hd_drop_conv_nth list_all_iff dest: in_set_dropD)
  show oh: "hd (edge_segs ?o) = Lit (n_prefix c ! k)" using assms(5) o(3) by (simp add: hd_map hd_drop_conv_nth)
  have b: "edge_ok E ?b" "tree_ok E ?b" "edge_segs ?b = map Lit (take k (n_prefix c))" "table ?b = Map.empty"
    using assms c by (auto simp: edge_ok_def edge_segs_def list_all_iff tree_ok_leaf table_leaf dest: in_set_takeD)
  note h = append_child_simps [where E = E and c = ?o and n = ?b, folded split_child_def]
  show "edge_ok E (split_child E c k)" "edge_segs (split_child E c k) = map Lit (take k (n_prefix c))"
    using same_head_edge [OF h(1)] b by simp_all
  then have es: "edge_segs (split_child E c k) = map Lit (take k (n_prefix c))" by simp
  show "n_endpoints (split_child E c k) = None" "n_typ (split_child E c k) = ntStatic"
    "n_label (split_child E c k) = n_label c" "n_tail (split_child E c k) = CHR 0x00"
    using h by (simp_all add: same_head_def)
  have "mset (edges (split_child E c k)) = {#?o#}"
    by (simp add: split_child_def mset_edges_append)
  then show "edges (split_child E c k) = [?o]" by simp
  have "\<forall>d\<in>set (edges ?b). hd (edge_segs d) \<noteq> hd (edge_segs ?o)" by simp
  moreover have ot: "table ?o = table c" by (simp add: split_old_def table_with_head)
  ultimately have "table ?o \<noteq> Map.empty" "\<forall>d\<in>set (edges ?b). hd (edge_segs d) \<noteq> hd (edge_segs ?o)"
    using assms(6) by simp_all
  note a = append_child_ok [OF b(2) o(1,2) this(2,1), folded split_child_def]
  show "tree_ok E (split_child E c k)" by (rule a(1))
  show t: "table (split_child E c k) x =
      (if x \<noteq> [] \<and> hd x = Lit (n_prefix c ! k) then edge_table ?o x else None)" for x
    by (simp add: a(2) b(4) oh)
  note ot
  moreover have "edge_segs c = map Lit (take k (n_prefix c)) @ edge_segs ?o"
    using assms(3) o(3) by (simp add: edge_segs_def flip: map_append)
  moreover have "y \<noteq> [] \<and> hd y = Lit (n_prefix c ! k)" if "strip (edge_segs ?o) y = Some z" for y z
    using that edge_ok_segs [OF o(1)] oh by (auto simp: strip_Some_iff)
  ultimately show "edge_table (split_child E c k) = edge_table c"
    by (intro ext) (auto simp: edge_table_def es strip_append_left t split: option.splits)
qed

lemma split_node_ok:
  assumes "edge_ok E c" "tree_ok E c" "n_typ c = ntStatic" "search \<noteq> []" "hd search = n_label c"
    "k = longestPrefix search (n_prefix c)" "k \<noteq> length (n_prefix c)"
    "pattern_segs search = Inr segs" "compiles E segs" "table c \<noteq> Map.empty"
  shows "\<exists>c'. split_node E (set_eps g) c search k = Inr c' \<and> edge_ok E c' \<and> tree_ok E c' \<and>
    n_typ c' = ntStatic \<and> n_label c' = n_label c \<and> n_tail c' = CHR 0x00 \<and>
    hd (edge_segs c') = hd (edge_segs c) \<and> hd segs = hd (edge_segs c) \<and> segs \<noteq> [] \<and>
    edge_table c' = (edge_table c)(segs \<mapsto> g (no_endpoints (edge_table c segs)))"
proof -
  have c: "n_prefix c \<noteq> []" "n_label c = hd (n_prefix c)" "list_all (\<lambda>x. \<not> wildcard x) (n_prefix c)"
    using assms(1,3) by (simp_all add: edge_ok_def)
  have k: "0 < k" "k < length (n_prefix c)" "k \<le> length search" "take k search = take k (n_prefix c)"
    using longestPrefix_pos [of search "n_prefix c"] longestPrefix_le [of search "n_prefix c"]
      longestPrefix_take [of search "n_prefix c"] assms(4-7) c(1,2) by auto
  let ?child = "split_child E c k"
  note sp = split_child_ok [OF assms(1-3) k(1,2) assms(10)]
  have w: "list_all (\<lambda>x. \<not> wildcard x) (drop k (n_prefix c))" "list_all (\<lambda>x. \<not> wildcard x) (take k search)"
    using c(3) by (auto simp: k(4) list_all_iff dest: in_set_dropD in_set_takeD)
  obtain rest where r: "pattern_segs (drop k search) = Inr rest" "segs = map Lit (take k search) @ rest"
    using pattern_segs_append [OF w(2), of "drop k search"] assms(8)
    by (cases "pattern_segs (drop k search)") auto
  have hs: "segs \<noteq> []" "hd segs = hd (edge_segs c)"
    using r(2) k c assms(3) by (auto simp: edge_segs_def hd_map hd_append hd_take)
  have "hd (edge_segs ?child) = hd (edge_segs c)" "edge_segs ?child @ rest = segs"
    using sp(3) k c(1) assms(3) r(2) by (simp_all add: edge_segs_def hd_map hd_take)
  note e = this
  have split: "split_node E (set_eps g) c search k =
      (if drop k search = [] then set_eps g ?child
       else addChild E (set_eps g) ?child
         (new_node ntStatic (hd (drop k search)) (CHR 0x00) (drop k search)) (drop k search))"
    by (simp only: split_node_def Let_def addChild_static [OF w(1)] sum.case assms(5) k(4)
        split_child_def split_old_def)
  have "\<exists>c'. split_node E (set_eps g) c search k = Inr c' \<and> inserted E g rest ?child c'"
  proof (cases "drop k search = []")
    case True
    then have "rest = []" using r(1) by simp
    then show ?thesis
      using True sp(2,7) by (simp add: split set_eps_def inserted_def same_head_def table_with_endpoints)
  next
    case False
    have "compiles E rest" using assms(9) r(2) by (auto simp: compiles_def)
    moreover have "made_for (drop k search) (new_node ntStatic (hd (drop k search)) (CHR 0x00) (drop k search))"
      using False by (simp add: made_for_def)
    ultimately obtain d where d: "new_edge E g rest d"
      "split_node E (set_eps g) c search k = Inr (append_child E d ?child)"
      using addChild_new [OF r(1), of E _ g ?child] False split by auto
    have "hd rest \<noteq> Lit (n_prefix c ! k)"
    proof -
      have "search ! k \<noteq> n_prefix c ! k"
        using longestPrefix_stop [of search "n_prefix c"] k(2) False assms(6) by simp
      then have n: "hd (drop k search) \<noteq> n_prefix c ! k" using False by (simp add: hd_drop_conv_nth)
      from False r(1) show ?thesis
      proof (cases rule: search_cases)
        case static
        then show ?thesis using n by simp
      next
        case (wild t key rx tail e segs')
        then show ?thesis by (cases t) simp_all
      qed
    qed
    then have "inserted E g rest ?child (append_child E d ?child)"
      using inserted_append [OF sp(2) d(1)] sp(5,6) by simp
    with d(2) show ?thesis by blast
  qed
  then obtain c' where c': "split_node E (set_eps g) c search k = Inr c'" "tree_ok E c'" "same_head ?child c'"
    "table c' = (table ?child)(rest \<mapsto> g (no_endpoints (table ?child rest)))"
    by (auto simp: inserted_def)
  have "edge_table ?child (edge_segs ?child @ rest) = table ?child rest" by (simp add: edge_table_def)
  then have "edge_table c' = (edge_table c)(segs \<mapsto> g (no_endpoints (edge_table c segs)))"
    using edge_table_upd [OF same_head_edge(2) [OF c'(3)] c'(4)] by (simp add: sp(4) e(2))
  then show ?thesis
    using c' hs e(1) same_head_edge [OF c'(3)] sp(1,8-10)
    by (intro exI [of _ c']) (simp add: same_head_def)
qed

lemma insert_route_ok:
  assumes "tree_ok E n" "pattern_segs search = Inr segs" "compiles E segs"
  shows "\<exists>n'. insert_route E (set_eps g) n search = Inr n' \<and> inserted E g segs n n'"
  using assms
proof (induction "size n" arbitrary: n search segs rule: less_induct)
  case less
  note ok = less.prems(1)
  show ?case
  proof (cases "search = []")
    case True
    then have "segs = []" using less.prems(2) by simp
    then show ?thesis
      using True ok by (subst insert_route.simps)
        (simp add: set_eps_def inserted_def same_head_def table_with_endpoints)
  next
    case False
    obtain t key rx tail e where
      nxt: "(if hd search = CHR ''{'' \<or> hd search = CHR ''*'' then patNextSegment search
         else Inr (ntStatic, [], [], CHR 0x00, 0, 0)) = Inr (t, key, rx, tail, 0, e)"
      and key: "edge_key_ok t (hd search) tail" "segs \<noteq> []" "hd segs = edge_key_seg t (hd search) tail rx"
      and rest: "t \<noteq> ntStatic \<Longrightarrow> pattern_segs (drop e search) = Inr (tl segs)"
    proof -
      from False less.prems(2) show thesis
      proof (cases rule: search_cases)
        case static
        then show thesis
          by (intro that [of ntStatic "[]" "[]" "CHR 0x00" 0])
            (simp_all add: wildcard_def edge_key_ok_def edge_key_seg_def)
      next
        case (wild t key rx tail e segs')
        then show thesis
          by (intro that [of t key rx tail e])
            (auto simp: wildcard_def edge_key_ok_def edge_key_seg_def)
      qed
    qed
    note step = insert_route.simps [of E "set_eps g" n search, unfolded Let_def nxt]
    show ?thesis
    proof (cases "getEdge t (hd search) tail (if t = ntRegexp then rx else []) n")
      case None
      have "made_for search (new_node ntStatic (hd search) tail search)"
        using False key(1) by (simp add: made_for_def edge_key_ok_def wildcard_def split: if_splits)
      from addChild_new [OF less.prems(2,3) this, of g n] obtain c where
        "addChild E (set_eps g) n (new_node ntStatic (hd search) tail search) search = Inr (append_child E c n)"
        "new_edge E g segs c" by blast
      moreover have "\<forall>d\<in>set (edges n). hd (edge_segs d) \<noteq> hd segs"
        using getEdge_NoneD [OF ok key(1) None] key(3) by simp
      ultimately show ?thesis
        using inserted_append [OF ok, of g segs c] False None by (auto simp: step)
    next
      case (Some i)
      let ?c = "children t n ! i"
      note c = getEdge_SomeD [OF ok key(1) Some]
      have some: "table ?c \<noteq> Map.empty" using tree_ok_edges [OF ok] c(2) by (auto simp: edges_ok_def)
      have small: "size ?c < size n" "tree_ok E ?c" using edge_size [OF c(2)] tree_ok_child [OF ok c(2)] by simp_all
      show ?thesis
      proof (cases "t = ntStatic")
        case False
        have s: "segs = edge_segs ?c @ tl segs"
          using False c(3,5) key(2,3) by (cases segs) (auto simp: edge_segs_def)
        have "compiles E (tl segs)" using less.prems(3) by (auto simp: compiles_def dest: list.set_sel(2) [OF key(2)])
        from less.hyps [OF small rest [OF False] this] obtain c' where
          c': "insert_route E (set_eps g) ?c (drop e search) = Inr c'" "inserted E g (tl segs) ?c c'" by blast
        then have "inserted E g segs n (put_child t i c' n)"
          using inserted_below [OF ok c(1) refl c(3,4) c'(2)] s by simp
        then show ?thesis using c'(1) Some \<open>search \<noteq> []\<close> False c(3) by (simp add: step)
      next
        case True
        let ?k = "longestPrefix search (n_prefix ?c)"
        have p: "edge_segs ?c = map Lit (n_prefix ?c)" "list_all (\<lambda>x. \<not> wildcard x) (n_prefix ?c)"
          using True c(3,4) by (simp_all add: edge_segs_def edge_ok_def)
        show ?thesis
        proof (cases "?k = length (n_prefix ?c)")
          case full: True
          then have sr: "search = n_prefix ?c @ drop ?k search"
            using longestPrefix_take [of search "n_prefix ?c"] by (metis append_take_drop_id take_all_iff order_refl)
          obtain r where r: "pattern_segs (drop ?k search) = Inr r" "segs = edge_segs ?c @ r"
            using pattern_segs_append [OF p(2), of "drop ?k search"] less.prems(2) sr p(1)
            by (cases "pattern_segs (drop ?k search)") auto
          have "compiles E r" using less.prems(3) r(2) by (auto simp: compiles_def)
          from less.hyps [OF small r(1) this] obtain c' where
            c': "insert_route E (set_eps g) ?c (drop ?k search) = Inr c'" "inserted E g r ?c c'" by blast
          then have "inserted E g segs n (put_child t i c' n)"
            using inserted_below [OF ok c(1) refl c(3,4) c'(2)] r(2) by simp
          then show ?thesis using c'(1) Some \<open>search \<noteq> []\<close> True c(3) full by (simp add: step)
        next
          case part: False
          have ct: "n_typ ?c = ntStatic" using True c(3) by simp
          from split_node_ok [OF c(4) small(2) ct \<open>search \<noteq> []\<close> c(6) [symmetric] refl part less.prems(2,3) some, of g]
          obtain c' where c': "split_node E (set_eps g) ?c search ?k = Inr c'" "edge_ok E c'" "tree_ok E c'"
            "n_typ c' = ntStatic" "n_label c' = n_label ?c" "n_tail c' = CHR 0x00"
            "hd (edge_segs c') = hd (edge_segs ?c)" "hd segs = hd (edge_segs ?c)" "segs \<noteq> []"
            "edge_table c' = (edge_table ?c)(segs \<mapsto> g (no_endpoints (edge_table ?c segs)))" by blast
          have "inserted E g segs n (put_child t i c' n)"
            by (rule inserted_put [OF ok c(1) refl c(3,4) c'(2,3) _ c'(5,7,9,8)]) (use c'(4,10) True in simp_all)
          moreover have "replaceChild (hd search) tail c' n = Inr (put_child t i c' n)"
          proof -
            have "with_head (n_typ c') (hd search) tail (n_prefix c') (n_rex c') c' = c'"
              using c'(5,6) c(6,7) key(1) True by (cases c') (simp add: edge_key_ok_def)
            then show ?thesis
              using Some c'(4) True by (simp add: replaceChild_def getEdge_def put_child_def)
          qed
          ultimately show ?thesis using c'(1) Some \<open>search \<noteq> []\<close> True c(3) part by (simp add: step)
        qed
      qed
    qed
  qed
qed

end
