(* ===== verification/RouteSearch.thy ===== *)
theory RouteSearch
  imports RadixInsert
begin

unbundle bit_operations_syntax

text \<open>
  Finding in a radix tree: how a path matches the segments of a pattern, the search as matching
  with the table, finding a pattern, and the machine of registrations with its properties.
\<close>

section \<open>Finding a route is matching the path with the table\<close>

text \<open>
  How a path matches segments, and the values it gives them. A value ends at the segment's tail, or
  with the path if the tail is a slash. With the flag \<open>loose\<close>, a parameter or a regular expression
  also takes the empty value before a path that is not empty, whatever comes next.
\<close>

definition ends_at :: "char \<Rightarrow> string \<Rightarrow> string \<Rightarrow> bool" where
  "ends_at t v p \<longleftrightarrow> t \<notin> set v \<and> v @ p \<noteq> [] \<and> (if p = [] then t = CHR ''/'' else hd p = t)"

inductive matches :: "tree_env \<Rightarrow> bool \<Rightarrow> seg list \<Rightarrow> string \<Rightarrow> string list \<Rightarrow> bool"
  for E :: tree_env and loose :: bool where
  match_done: "matches E loose [] [] []"
| match_lit: "matches E loose segs p vs \<Longrightarrow> matches E loose (Lit c # segs) (c # p) vs"
| match_par: "ends_at t v p \<Longrightarrow> CHR ''/'' \<notin> set v \<Longrightarrow> matches E loose segs p vs \<Longrightarrow>
    matches E loose (Par t # segs) (v @ p) (v # vs)"
| match_rex: "ends_at t v p \<Longrightarrow> v \<noteq> [] \<Longrightarrow> TE_compile E x = Some r \<Longrightarrow> r v \<Longrightarrow>
    matches E loose segs p vs \<Longrightarrow> matches E loose (Rex x t # segs) (v @ p) (v # vs)"
| match_star: "matches E loose segs [] vs \<Longrightarrow> matches E loose (Star # segs) p (p # vs)"
| match_gap: "loose \<Longrightarrow> p \<noteq> [] \<Longrightarrow> g = Par t \<or> g = Rex x t \<Longrightarrow> matches E loose segs p vs \<Longrightarrow>
    matches E loose (g # segs) p ([] # vs)"

inductive_cases matches_LitE: "matches E loose (Lit c # segs) p vs"
inductive_cases matches_ParE: "matches E loose (Par t # segs) p vs"
inductive_cases matches_RexE: "matches E loose (Rex x t # segs) p vs"
inductive_cases matches_StarE: "matches E loose (Star # segs) p vs"
inductive_simps matches_Nil [simp]: "matches E loose [] p vs"

lemma matches_Lit: "matches E loose (Lit c # segs) p vs \<longleftrightarrow> (\<exists>q. p = c # q \<and> matches E loose segs q vs)"
  by (auto elim: matches_LitE intro: match_lit)

lemma matches_Lits:
  "matches E loose (map Lit q @ segs) p vs \<longleftrightarrow> (\<exists>r. p = q @ r \<and> matches E loose segs r vs)"
  by (induction q arbitrary: p) (auto simp: matches_Lit)

lemma matches_Star: "matches E loose (Star # segs) p vs \<longleftrightarrow> (\<exists>us. vs = p # us \<and> matches E loose segs [] us)"
  by (auto elim: matches_StarE intro: match_star)

text \<open>The end of a value is where it matches.\<close>

lemma index_of_Some_iff: "index_of c s = Some i \<longleftrightarrow> i < length s \<and> s ! i = c \<and> c \<notin> set (take i s)"
proof (induction s arbitrary: i)
  case (Cons x s)
  then show ?case by (cases i) (auto simp: index_of_Cons)
qed (simp add: index_of_def)

lemma index_of_ends:
  assumes "path \<noteq> []"
  shows "(case index_of t path of None \<Rightarrow> if t = CHR ''/'' then Some (length path) else None | Some p \<Rightarrow> Some p) =
    Some p \<longleftrightarrow> p \<le> length path \<and> ends_at t (take p path) (drop p path)"
proof (cases "index_of t path")
  case None
  then have t: "t \<notin> set path" by (simp add: index_of_None)
  show ?thesis
  proof (cases "p < length path")
    case True
    then have "hd (drop p path) \<in> set path" by (simp add: hd_drop_conv_nth)
    then have "\<not> ends_at t (take p path) (drop p path)" using t True by (auto simp: ends_at_def)
    with True None show ?thesis by simp
  next
    case False
    then have "p \<le> length path \<and> ends_at t (take p path) (drop p path) \<longleftrightarrow> p = length path \<and> t = CHR ''/''"
      using t assms by (cases "t = CHR ''/''") (auto simp: ends_at_def)
    then show ?thesis unfolding None by auto
  qed
next
  case (Some i)
  then have i: "i < length path" "path ! i = t" "t \<notin> set (take i path)" by (simp_all add: index_of_Some_iff)
  have "p = i" if "p \<le> length path" "ends_at t (take p path) (drop p path)"
  proof (cases "p < length path")
    case True
    then have "index_of t path = Some p"
      using that by (simp add: ends_at_def index_of_Some_iff hd_drop_conv_nth)
    then show ?thesis using Some by simp
  next
    case False
    then have "take p path = path" by simp
    then have "t \<notin> set path" using that(2) unfolding ends_at_def by metis
    then show ?thesis using i by auto
  qed
  moreover have "ends_at t (take i path) (drop i path)"
    using i assms by (simp add: ends_at_def hd_drop_conv_nth)
  ultimately show ?thesis using Some i by auto
qed

lemma value_end_iff:
  assumes "path \<noteq> []" "edge_ok E c" "n_typ c = t" "t = ntParam \<or> t = ntRegexp"
  shows "value_end t c path = Some p \<longleftrightarrow> p \<le> length path \<and> ends_at (n_tail c) (take p path) (drop p path) \<and>
    (if t = ntRegexp then p \<noteq> 0 \<and> (\<exists>r. TE_compile E (n_prefix c) = Some r \<and> r (take p path))
     else CHR ''/'' \<notin> set (take p path))"
proof (cases "t = ntRegexp")
  case True
  have "n_rex c = TE_compile E (n_prefix c) \<and> n_rex c \<noteq> None"
    using assms(2) [unfolded edge_ok_def assms(3) True node_type.case] by blast
  then obtain r where r: "n_rex c = Some r" "TE_compile E (n_prefix c) = Some r"
    by (metis option.exhaust)
  let ?i = "case index_of (n_tail c) path of
      None \<Rightarrow> if n_tail c = CHR ''/'' then Some (length path) else None | Some p \<Rightarrow> Some p"
  have "value_end t c path = (case ?i of None \<Rightarrow> None
      | Some p \<Rightarrow> if p = 0 then None else if r (take p path) then Some p else None)"
    using True r(1) assms(1) by (cases "index_of (n_tail c) path") (simp_all add: value_end_def)
  also have "\<dots> = Some p \<longleftrightarrow> ?i = Some p \<and> p \<noteq> 0 \<and> r (take p path)"
    by (cases ?i) auto
  finally show ?thesis unfolding index_of_ends [OF assms(1)] using True r(2) by auto
next
  case False
  let ?i = "case index_of (n_tail c) path of
      None \<Rightarrow> if n_tail c = CHR ''/'' then Some (length path) else None | Some p \<Rightarrow> Some p"
  have "value_end t c path = (case ?i of None \<Rightarrow> None
      | Some p \<Rightarrow> if CHR ''/'' \<in> set (take p path) then None else Some p)"
    using False by (cases "index_of (n_tail c) path") (simp_all add: value_end_def)
  also have "\<dots> = Some p \<longleftrightarrow> ?i = Some p \<and> CHR ''/'' \<notin> set (take p path)"
    by (cases ?i) auto
  finally show ?thesis unfolding index_of_ends [OF assms(1)] using False by auto
qed

text \<open>
  What a search finds among routes: \<open>R segs eps\<close> says that there is a route with the endpoints. What
  is found is a route that matches, and if nothing is found then no route with the method matches,
  and the flag is set if a route with other methods does.
\<close>

definition finds ::
    "tree_env \<Rightarrow> methodTyp \<Rightarrow> (seg list \<Rightarrow> 'h endpoints \<Rightarrow> bool) \<Rightarrow> string \<Rightarrow> string list \<Rightarrow> bool \<Rightarrow>
     ('h endpoint \<times> string list) option \<times> bool \<Rightarrow> bool" where
  "finds E m R path vs na res \<longleftrightarrow>
     (case fst res of
        Some (e, ws) \<Rightarrow> \<exists>segs us eps. ws = vs @ us \<and> R segs eps \<and> eps m = Some e \<and> matches E True segs path us
      | None \<Rightarrow> (na \<longrightarrow> snd res) \<and>
          (\<forall>segs us eps. R segs eps \<and> matches E False segs path us \<longrightarrow> eps m = None \<and> snd res)) \<and>
     (snd res \<longrightarrow> na \<or> (\<exists>segs us eps. R segs eps \<and> matches E True segs path us))"

lemma finds_seq:
  assumes "finds E m R path vs na (None, na1)" "finds E m R' path vs na1 res"
  shows "finds E m (\<lambda>s e. R s e \<or> R' s e) path vs na res"
  using assms by (cases res; cases "fst res") (simp_all add: finds_def, (blast+)?)

lemma finds_stop:
  assumes "finds E m R path vs na (Some r, na1)"
  shows "finds E m (\<lambda>s e. R s e \<or> R' s e) path vs na (Some r, na1)"
  using assms by (cases r) (auto simp: finds_def)

lemma finds_none:
  assumes "\<And>segs eps us. R segs eps \<Longrightarrow> \<not> matches E False segs path us"
  shows "finds E m R path vs na (None, na)"
  using assms by (auto simp: finds_def)

lemma finds_cong: "(\<And>s e. R s e \<longleftrightarrow> R' s e) \<Longrightarrow> finds E m R path vs na res = finds E m R' path vs na res"
  by (rule arg_cong [of R R' "\<lambda>R. finds E m R path vs na res"]) (intro ext, simp)

text \<open>A search from where an edge leads to.\<close>

lemma finds_below:
  assumes "finds E m (\<lambda>s e. table c s = Some e) rest (vs @ v) na res"
    "\<And>s us. matches E True s rest us \<Longrightarrow> matches E True (edge_segs c @ s) path (v @ us)"
    "\<And>s us. matches E False (edge_segs c @ s) path us \<Longrightarrow> \<exists>us'. matches E False s rest us'"
  shows "finds E m (\<lambda>s e. edge_table c s = Some e) path vs na res"
proof -
  have t: "edge_table c segs = Some e \<longleftrightarrow> (\<exists>s. segs = edge_segs c @ s \<and> table c s = Some e)" for segs e
    by (auto simp: edge_table_def strip_Some_iff split: option.splits)
  have flag: "snd res \<longrightarrow> na \<or> (\<exists>segs us eps. edge_table c segs = Some eps \<and> matches E True segs path us)"
  proof
    assume "snd res"
    then consider "na" | s us eps where "table c s = Some eps" "matches E True s rest us"
      using assms(1) by (auto simp: finds_def)
    then show "na \<or> (\<exists>segs us eps. edge_table c segs = Some eps \<and> matches E True segs path us)"
      by cases (use assms(2) t in blast)+
  qed
  show ?thesis
  proof (cases "fst res")
    case None
    have "\<forall>segs us eps. edge_table c segs = Some eps \<and> matches E False segs path us \<longrightarrow> eps m = None \<and> snd res"
    proof (intro allI impI)
      fix segs us eps assume a: "edge_table c segs = Some eps \<and> matches E False segs path us"
      then obtain s where s: "segs = edge_segs c @ s" "table c s = Some eps" using t by metis
      then obtain us' where "matches E False s rest us'" using a assms(3) [of s us] by blast
      with s show "eps m = None \<and> snd res" using assms(1) None by (simp add: finds_def)
    qed
    moreover have "na \<longrightarrow> snd res" using assms(1) None by (simp add: finds_def)
    ultimately show ?thesis using None flag by (simp add: finds_def)
  next
    case (Some r)
    obtain e ws where r: "r = (e, ws)" by (cases r)
    obtain s us eps where "ws = (vs @ v) @ us" "table c s = Some eps" "eps m = Some e" "matches E True s rest us"
      using assms(1) Some r by (auto simp: finds_def)
    then have "\<exists>segs us eps. ws = vs @ us \<and> edge_table c segs = Some eps \<and> eps m = Some e \<and> matches E True segs path us"
      using assms(2) t by (metis append.assoc)
    then show ?thesis using Some r flag by (simp add: finds_def)
  qed
qed

text \<open>Once more with the last node: nothing that could match strictly is left.\<close>

lemma finds_again:
  assumes "finds E m R path vs na (None, na1)"
    "finds E m R' path (vs @ [v]) na1 res"
    "\<And>s e us. R' s e \<Longrightarrow> matches E True s path us \<Longrightarrow> \<exists>s'. R s' e \<and> matches E True s' path (v # us)"
  shows "finds E m R path vs na res"
proof -
  have flag: "snd res \<longrightarrow> na \<or> (\<exists>segs us eps. R segs eps \<and> matches E True segs path us)"
  proof
    assume "snd res"
    then consider "na1" | s us eps where "R' s eps" "matches E True s path us"
      using assms(2) by (auto simp: finds_def)
    then show "na \<or> (\<exists>segs us eps. R segs eps \<and> matches E True segs path us)"
    proof cases
      case 1
      then show ?thesis using assms(1) by (simp add: finds_def)
    next
      case 2
      then show ?thesis using assms(3) by blast
    qed
  qed
  show ?thesis
  proof (cases "fst res")
    case None
    then show ?thesis using assms(1,2) flag by (cases res) (simp add: finds_def)
  next
    case (Some r)
    obtain e ws where r: "r = (e, ws)" by (cases r)
    obtain s us eps where "ws = vs @ v # us" "R' s eps" "eps m = Some e" "matches E True s path us"
      using assms(2) Some r by (auto simp: finds_def)
    then have "\<exists>segs us eps. ws = vs @ us \<and> R segs eps \<and> eps m = Some e \<and> matches E True segs path us"
      using assms(3) by metis
    then show ?thesis using Some r flag by (simp add: finds_def)
  qed
qed

text \<open>The binary search finds the edge with a label.\<close>

lemma edge_search_finds:
  assumes "sorted (map (\<lambda>c. byte_of (n_label c)) ns)" "0 \<le> i" "j < int (length ns)"
    "i \<le> int q" "int q \<le> j" "n_label (ns ! q) = l"
  shows "n_label (ns ! nat (edge_search ns l i j idx)) = l"
  using assms
proof (induction ns l i j idx rule: edge_search.induct)
  case (1 ns l i j idx)
  let ?k = "i + (j - i) div 2"
  have k: "i \<le> j" "i \<le> ?k" "?k \<le> j" using 1(6,7) by auto
  have mono: "byte_of (n_label (ns ! a)) \<le> byte_of (n_label (ns ! b))" if "a \<le> b" "b < length ns" for a b
    using sorted_nth_mono [OF 1(3) that(1)] that by simp
  show ?case
  proof (cases "byte_of l > byte_of (n_label (ns ! nat ?k))")
    case True
    have "\<not> q \<le> nat ?k"
    proof
      assume "q \<le> nat ?k"
      then have "byte_of l \<le> byte_of (n_label (ns ! nat ?k))"
        using mono [of q "nat ?k"] k 1(4,5,8) by auto
      with True show False by simp
    qed
    then have "?k + 1 \<le> int q" using k 1(4) by auto
    then show ?thesis
      using 1(1) [OF k(1) refl refl True] 1(3-8) True k by (subst edge_search.simps) (simp add: Let_def)
  next
    case ge: False
    show ?thesis
    proof (cases "byte_of l < byte_of (n_label (ns ! nat ?k))")
      case True
      have "\<not> nat ?k \<le> q"
      proof
        assume "nat ?k \<le> q"
        then have "byte_of (n_label (ns ! nat ?k)) \<le> byte_of l"
          using mono [of "nat ?k" q] 1(5,7,8) by auto
        with True show False by simp
      qed
      then have "int q \<le> ?k - 1" using k 1(4) by auto
      then show ?thesis
        using 1(2) [OF k(1) refl refl ge True] 1(3-8) True k by (subst edge_search.simps) (simp add: Let_def)
    next
      case False
      then have "byte_of l = byte_of (n_label (ns ! nat ?k))" using ge by simp
      then have "n_label (ns ! nat ?k) = l" by simp
      then show ?thesis using k(1) by (subst edge_search.simps) (simp add: Let_def)
    qed
  qed
qed

lemma findEdge_complete:
  assumes "sorted (map (\<lambda>c. byte_of (n_label c)) ns)" "c \<in> set ns"
  shows "\<exists>d. findEdge ns (n_label c) = Some d \<and> n_label d = n_label c"
proof -
  obtain q where q: "q < length ns" "ns ! q = c" using assms(2) by (auto simp: in_set_conv_nth)
  have "n_label (ns ! nat (edge_search ns (n_label c) 0 (int (length ns) - 1) 0)) = n_label c"
    by (rule edge_search_finds [OF assms(1), of _ _ q]) (use q in auto)
  then show ?thesis using assms(2) by (auto simp: findEdge_def Let_def)
qed

definition group_ok :: "tree_env \<Rightarrow> node_type \<Rightarrow> 'h node list \<Rightarrow> bool" where
  "group_ok E t ns \<longleftrightarrow> (\<forall>c\<in>set ns. edge_ok E c \<and> tree_ok E c \<and> n_typ c = t) \<and>
     distinct (map (hd \<circ> edge_segs) ns) \<and>
     (t = ntStatic \<longrightarrow> sorted (map (\<lambda>c. byte_of (n_label c)) ns))"

abbreviation group_routes :: "'h node list \<Rightarrow> seg list \<Rightarrow> 'h endpoints \<Rightarrow> bool" where
  "group_routes ns s e \<equiv> \<exists>c\<in>set ns. edge_table c s = Some e"

lemma tree_ok_groups:
  "tree_ok E (Node ty l t p x e ss rs ps as) \<Longrightarrow>
   group_ok E ntStatic ss \<and> group_ok E ntRegexp rs \<and> group_ok E ntParam ps \<and> group_ok E ntCatchAll as"
  using tree_ok.simps [of E "Node ty l t p x e ss rs ps as"]
  by (auto simp: group_ok_def edges_ok_def edges_def children_def split: node_type.splits)

lemma tree_routes:
  assumes "tree_ok E n"
  shows "(segs \<noteq> [] \<and> table n segs = Some e) \<longleftrightarrow> group_routes (edges n) segs e"
proof
  assume a: "segs \<noteq> [] \<and> table n segs = Some e"
  then obtain c where "c \<in> set (edges n)" "hd (edge_segs c) = hd segs"
    using table_no_edge [of segs n] by (metis option.distinct(1))
  then show "group_routes (edges n) segs e"
    using a table_edge [OF tree_ok_edges [OF assms]] by metis
next
  assume "group_routes (edges n) segs e"
  then obtain c where c: "c \<in> set (edges n)" "edge_table c segs = Some e" by blast
  then have "segs \<noteq> [] \<and> hd segs = hd (edge_segs c)"
    by (intro edge_table_hd [OF edges_ok_edge [OF tree_ok_edges [OF assms]]])
  then show "segs \<noteq> [] \<and> table n segs = Some e"
    using table_edge [OF tree_ok_edges [OF assms] c(1)] c(2) by metis
qed

text \<open>No other edge of its group leads a path strictly, or at all, where one cannot.\<close>

lemma edge_no_match:
  assumes "\<And>s us. \<not> matches E False (edge_segs c @ s) path us"
  shows "edge_table c segs = Some e \<Longrightarrow> \<not> matches E False segs path us"
  using assms by (auto simp: edge_table_def strip_Some_iff split: option.splits)

lemma wild_edge_segs:
  "n_typ c = ntParam \<Longrightarrow> edge_segs c = [Par (n_tail c)]"
  "n_typ c = ntRegexp \<Longrightarrow> edge_segs c = [Rex (n_prefix c) (n_tail c)]"
  "n_typ c = ntCatchAll \<Longrightarrow> edge_segs c = [Star]"
  "n_typ c = ntStatic \<Longrightarrow> edge_segs c = map Lit (n_prefix c)"
  by (simp_all add: edge_segs_def)

text \<open>A parameter or regular expression matches strictly exactly at the end of its value.\<close>

lemma value_match:
  assumes "path \<noteq> []" "edge_ok E c" "n_typ c = ntParam \<or> n_typ c = ntRegexp"
  shows "value_end (n_typ c) c path = Some p \<Longrightarrow> matches E L s (drop p path) us \<Longrightarrow>
      matches E L (edge_segs c @ s) path (take p path # us)"
    and "matches E False (edge_segs c @ s) path us \<Longrightarrow>
      \<exists>p us'. value_end (n_typ c) c path = Some p \<and> matches E False s (drop p path) us'"
proof -
  note iff = value_end_iff [OF assms(1,2) refl assms(3)]
  assume v: "value_end (n_typ c) c path = Some p" and m: "matches E L s (drop p path) us"
  have e: "ends_at (n_tail c) (take p path) (drop p path)" using iffD1 [OF iff v] by blast
  show "matches E L (edge_segs c @ s) path (take p path # us)"
  proof (cases "n_typ c = ntParam")
    case True
    then have "CHR ''/'' \<notin> set (take p path)" using iffD1 [OF iff v] by simp
    from match_par [OF e this m] show ?thesis by (simp add: wild_edge_segs True)
  next
    case False
    then have t: "n_typ c = ntRegexp" using assms(3) by simp
    then obtain r where "TE_compile E (n_prefix c) = Some r" "r (take p path)" "take p path \<noteq> []"
      using iffD1 [OF iff v] assms(1) by auto
    from match_rex [OF e this(3,1,2) m] show ?thesis by (simp add: wild_edge_segs t)
  qed
next
  note iff = value_end_iff [OF assms(1,2) refl assms(3)]
  assume m: "matches E False (edge_segs c @ s) path us"
  show "\<exists>p us'. value_end (n_typ c) c path = Some p \<and> matches E False s (drop p path) us'"
  proof (cases "n_typ c = ntParam")
    case True
    then have "matches E False (Par (n_tail c) # s) path us" using m by (simp add: wild_edge_segs)
    then obtain v q us' where q: "path = v @ q" "ends_at (n_tail c) v q" "CHR ''/'' \<notin> set v" "matches E False s q us'"
      by (elim matches_ParE) auto
    then have "value_end (n_typ c) c path = Some (length v)" using iff True by simp
    then show ?thesis using q by auto
  next
    case False
    then have t: "n_typ c = ntRegexp" using assms(3) by simp
    then have "matches E False (Rex (n_prefix c) (n_tail c) # s) path us" using m by (simp add: wild_edge_segs)
    then obtain v q r us' where q: "path = v @ q" "ends_at (n_tail c) v q" "v \<noteq> []"
      "TE_compile E (n_prefix c) = Some r" "r v" "matches E False s q us'"
      by (elim matches_RexE) auto
    then have "value_end (n_typ c) c path = Some (length v)" using iff t by simp
    then show ?thesis using q by auto
  qed
qed

text \<open>The search at a node that was reached.\<close>

lemma finds_arrive:
  assumes "tree_ok E n"
    "\<And>na'. finds E m (\<lambda>s e. s \<noteq> [] \<and> table n s = Some e) path vs na' (findRoute m n path vs na')"
  shows "finds E m (\<lambda>s e. table n s = Some e) path vs na (arrive m n path vs na)"
proof (cases "path = [] \<and> n_endpoints n \<noteq> None")
  case False
  have "finds E m (\<lambda>s e. s = [] \<and> table n s = Some e) path vs na (None, na)"
    by (rule finds_none) (use False in auto)
  from finds_seq [OF this assms(2)] show ?thesis
    using False by (subst (asm) finds_cong [where R' = "\<lambda>s e. table n s = Some e"]) (auto simp: arrive.simps)
next
  case True
  then obtain eps where eps: "n_endpoints n = Some eps" by auto
  show ?thesis
  proof (cases "eps m")
    case None
    have "finds E m (\<lambda>s e. s = [] \<and> table n s = Some e) path vs na (None, True)"
      using True eps None by (auto simp: finds_def)
    from finds_seq [OF this assms(2)] show ?thesis
      using True eps None by (subst (asm) finds_cong [where R' = "\<lambda>s e. table n s = Some e"]) (auto simp: arrive.simps)
  next
    case (Some e)
    have "vs = vs @ [] \<and> table n [] = Some eps \<and> eps m = Some e \<and> matches E True [] path []"
      using True eps Some by simp
    moreover have "arrive m n path vs na = (Some (e, vs), na)" using True eps Some by (simp add: arrive.simps)
    ultimately show ?thesis unfolding finds_def by (simp only: fst_conv snd_conv option.case prod.case) blast
  qed
qed

lemma finds_group_cons:
  "finds E m (\<lambda>s e. edge_table c s = Some e \<or> group_routes ns s e) path vs na res \<Longrightarrow>
   finds E m (group_routes (c # ns)) path vs na res"
  by (subst (asm) finds_cong [where R' = "group_routes (c # ns)"]) auto

text \<open>In a group with one edge that can match, the others do not matter.\<close>

lemma finds_group_one:
  assumes "finds E m (\<lambda>s e. edge_table c s = Some e) path vs na res" "c \<in> set ns"
    "\<And>d s us. d \<in> set ns \<Longrightarrow> d \<noteq> c \<Longrightarrow> \<not> matches E False (edge_segs d @ s) path us"
  shows "finds E m (group_routes ns) path vs na res"
proof -
  have "finds E m (\<lambda>s e. \<exists>d\<in>set ns - {c}. edge_table d s = Some e) path vs na (None, na)"
    by (rule finds_none) (use assms(3) edge_no_match in blast)
  from finds_seq [OF this assms(1)] show ?thesis
    by (subst (asm) finds_cong [where R' = "group_routes ns"]) (use assms(2) in auto)
qed

lemma static_match: "n_typ c = ntStatic \<Longrightarrow> matches E L (edge_segs c @ s) path us \<longleftrightarrow>
    (\<exists>r. path = n_prefix c @ r \<and> matches E L s r us)"
  by (simp add: wild_edge_segs matches_Lits)

lemma finds_static:
  assumes "group_ok E ntStatic ns"
    "\<And>n. n \<in> set ns \<Longrightarrow> finds E m (\<lambda>s e. table n s = Some e) (drop (length (n_prefix n)) path) vs na
        (arrive m n (drop (length (n_prefix n)) path) vs na)"
  shows "finds E m (group_routes ns) path vs na (try_group m ntStatic ns path vs na)"
proof -
  let ?l = "if path = [] then CHR 0x00 else hd path"
  have ok: "edge_ok E c" "n_typ c = ntStatic" "n_prefix c \<noteq> []" "n_label c = hd (n_prefix c)"
    if "c \<in> set ns" for c
    using assms(1) that by (auto simp: group_ok_def edge_ok_def)
  have lab: "n_label c = hd path \<and> path \<noteq> []" if "c \<in> set ns" "matches E False (edge_segs c @ s) path us" for c s us
    using that static_match [of c E False s path us] ok [of c] by auto
  show ?thesis
  proof (cases "findEdge ns ?l")
    case None
    have "\<not> matches E False (edge_segs c @ s) path us" if "c \<in> set ns" for c s us
    proof
      assume m: "matches E False (edge_segs c @ s) path us"
      then have "?l = n_label c" using lab [OF that m] by simp
      then show False using None findEdge_complete [of ns c] that assms(1) by (auto simp: group_ok_def)
    qed
    then have "finds E m (group_routes ns) path vs na (None, na)"
      by (intro finds_none) (use edge_no_match in blast)
    moreover have "try_group m ntStatic ns path vs na = (None, na)" using None by simp
    ultimately show ?thesis by (simp only:)
  next
    case (Some n)
    have n: "n \<in> set ns" "n_label n = ?l"
      using findEdge_mem [OF Some] Some by (auto simp: findEdge_def Let_def split: if_splits)
    have others: "\<not> matches E False (edge_segs d @ s) path us" if "d \<in> set ns" "d \<noteq> n" for d s us
    proof
      assume m: "matches E False (edge_segs d @ s) path us"
      then have "n_label d = n_label n" using lab [OF that(1) m] n(2) by simp
      then have "(hd \<circ> edge_segs) d = (hd \<circ> edge_segs) n"
        using ok [OF that(1)] ok [OF n(1)] by (simp add: wild_edge_segs hd_map)
      then show False
        using that n(1) assms(1) unfolding group_ok_def distinct_map by (meson inj_onD)
    qed
    show ?thesis
    proof (cases "take (length (n_prefix n)) path = n_prefix n")
      case False
      have "\<not> matches E False (edge_segs n @ s) path us" for s us
        using static_match [OF ok(2) [OF n(1)]] False by auto
      then have "\<not> matches E False (edge_segs d @ s) path us" if "d \<in> set ns" for d s us
        using others [OF that] by (cases "d = n") auto
      then have "finds E m (group_routes ns) path vs na (None, na)"
        by (intro finds_none) (use edge_no_match in blast)
      then show ?thesis using Some False n(1) by (auto split: if_splits)
    next
      case True
      then have p: "path = n_prefix n @ drop (length (n_prefix n)) path" by (metis append_take_drop_id)
      have "finds E m (\<lambda>s e. edge_table n s = Some e) path vs na (arrive m n (drop (length (n_prefix n)) path) vs na)"
      proof (rule finds_below [where v = "[]" and rest = "drop (length (n_prefix n)) path"])
        show "finds E m (\<lambda>s e. table n s = Some e) (drop (length (n_prefix n)) path) (vs @ []) na
            (arrive m n (drop (length (n_prefix n)) path) vs na)" using assms(2) [OF n(1)] by simp
        fix s us
        show "matches E True s (drop (length (n_prefix n)) path) us \<Longrightarrow> matches E True (edge_segs n @ s) path ([] @ us)"
          using static_match [OF ok(2) [OF n(1)]] p by auto
        show "matches E False (edge_segs n @ s) path us \<Longrightarrow> \<exists>us'. matches E False s (drop (length (n_prefix n)) path) us'"
          using static_match [OF ok(2) [OF n(1)]] by auto
      qed
      from finds_group_one [OF this n(1) others] show ?thesis
        using Some True n(1) by (auto split: if_splits)
    qed
  qed
qed

lemma finds_catchall:
  assumes "group_ok E ntCatchAll ns"
    "\<And>n. n \<in> set ns \<Longrightarrow> finds E m (\<lambda>s e. table n s = Some e) [] (vs @ [path]) na (arrive m n [] (vs @ [path]) na)"
  shows "finds E m (group_routes ns) path vs na (try_group m ntCatchAll ns path vs na)"
proof (cases ns)
  case Nil
  then show ?thesis by (simp add: finds_none)
next
  case (Cons n r)
  have star: "edge_segs c = [Star]" if "c \<in> set ns" for c
    using assms(1) that by (simp add: group_ok_def wild_edge_segs)
  have "r = []"
  proof (rule ccontr)
    assume "r \<noteq> []"
    then obtain d r' where "r = d # r'" by (cases r) auto
    then show False using assms(1) star [of n] star [of d] Cons by (simp add: group_ok_def)
  qed
  have "finds E m (\<lambda>s e. edge_table n s = Some e) path vs na (arrive m n [] (vs @ [path]) na)"
    by (rule finds_below [where v = "[path]" and rest = "[]"])
      (use assms(2) star Cons in \<open>auto simp: matches_Star\<close>)
  then show ?thesis using Cons \<open>r = []\<close> by simp
qed

lemma finds_values:
  assumes "path \<noteq> []" "group_ok E t ns" "t = ntParam \<or> t = ntRegexp"
    "\<And>n p na. n \<in> set ns \<Longrightarrow> finds E m (\<lambda>s e. table n s = Some e) (drop p path) (vs @ [take p path]) na
        (arrive m n (drop p path) (vs @ [take p path]) na)"
  shows "finds E m (group_routes ns) path vs na (try_values m t ns path vs na)"
  using assms(2,4)
proof (induction ns arbitrary: na)
  case Nil
  then show ?case by (simp add: finds_none)
next
  case (Cons n ns)
  have n: "edge_ok E n" "n_typ n = t" and g: "group_ok E t ns" using Cons.prems(1) by (simp_all add: group_ok_def)
  have t: "n_typ n = ntParam \<or> n_typ n = ntRegexp" using n(2) assms(3) by simp
  note vm = value_match [OF assms(1) n(1) t, unfolded n(2)]
  note IH = Cons.IH [OF g Cons.prems(2)]
  show ?case
  proof (cases "value_end t n path")
    case None
    have "finds E m (\<lambda>s e. edge_table n s = Some e) path vs na (None, na)"
      by (rule finds_none) (use vm(2) None edge_no_match in fastforce)
    from finds_seq [OF this IH] show ?thesis using None by (intro finds_group_cons) simp
  next
    case (Some p)
    have f: "finds E m (\<lambda>s e. edge_table n s = Some e) path vs na (arrive m n (drop p path) (vs @ [take p path]) na)"
      by (rule finds_below [where v = "[take p path]" and rest = "drop p path"])
        (use Cons.prems(2) vm Some in \<open>auto\<close>)
    obtain r na1 where a: "arrive m n (drop p path) (vs @ [take p path]) na = (r, na1)" by fastforce
    show ?thesis
    proof (cases r)
      case None
      from finds_seq [OF f [unfolded a None] IH] show ?thesis
        using Some a None by (intro finds_group_cons) simp
    next
      case (Some x)
      from finds_stop [OF f [unfolded a Some]] show ?thesis
        using \<open>value_end t n path = Some p\<close> a Some by (intro finds_group_cons) simp
    qed
  qed
qed

text \<open>The whole search.\<close>

lemma no_value: "\<not> matches E False (Par t # s) [] us" "\<not> matches E False (Rex x t # s) [] us"
  by (auto simp: ends_at_def elim!: matches_ParE matches_RexE)

lemma matches_gap:
  assumes "group_ok E t ns" "n \<in> set ns" "t = ntParam \<or> t = ntRegexp" "path \<noteq> []"
    "table n s = Some e" "matches E True s path us"
  shows "\<exists>s'. group_routes ns s' e \<and> matches E True s' path ([] # us)"
proof -
  have "n_typ n = t" using assms(1,2) by (simp add: group_ok_def)
  then obtain g where g: "edge_segs n = [g]" "g = Par (n_tail n) \<or> g = Rex (n_prefix n) (n_tail n)"
    using assms(3) by (auto simp: wild_edge_segs)
  from match_gap [OF TrueI assms(4) g(2) assms(6)] have "matches E True (g # s) path ([] # us)" .
  moreover have "edge_table n (g # s) = Some e"
    using assms(5) strip_append [of "[g]" s] by (simp add: edge_table_def g(1) del: strip_append)
  ultimately show ?thesis using assms(2) by blast
qed

lemma finds_groups:
  assumes "finds E m R1 path vs na r1" "\<And>na. finds E m R2 path vs na (f2 na)"
    "\<And>na. finds E m R3 path vs na (f3 na)" "\<And>na. finds E m R4 path vs na (f4 na)"
  shows "finds E m (\<lambda>s e. R1 s e \<or> R2 s e \<or> R3 s e \<or> R4 s e) path vs na
    (case r1 of (Some r, na1) \<Rightarrow> (Some r, na1)
     | (None, na1) \<Rightarrow> (case f2 na1 of (Some r, na2) \<Rightarrow> (Some r, na2)
       | (None, na2) \<Rightarrow> (case f3 na2 of (Some r, na3) \<Rightarrow> (Some r, na3) | (None, na3) \<Rightarrow> f4 na3)))"
proof -
  have seq: "finds E m (\<lambda>s e. R s e \<or> R' s e) path vs na
      (case x of (Some r, na1) \<Rightarrow> (Some r, na1) | (None, na1) \<Rightarrow> f na1)"
    if "finds E m R path vs na x" "\<And>na. finds E m R' path vs na (f na)" for R R' x f na
  proof (cases x)
    case (Pair r na1)
    show ?thesis
    proof (cases r)
      case None
      then show ?thesis using finds_seq [OF that(1) [unfolded Pair None] that(2)] Pair by simp
    next
      case (Some a)
      then show ?thesis using finds_stop [OF that(1) [unfolded Pair Some]] Pair by simp
    qed
  qed
  show ?thesis by (intro seq assms)
qed

theorem findRoute_finds:
  fixes n :: "'h node"
  shows "tree_ok E n \<Longrightarrow> finds E m (\<lambda>s e. s \<noteq> [] \<and> table n s = Some e) path vs na (findRoute m n path vs na)"
proof (induction "size n" arbitrary: n path vs na rule: less_induct)
  case less
  obtain ty l t p x e ss rs ps as where n: "n = Node ty l t p x e ss rs ps as" by (cases n)
  have ed: "edges n = ss @ rs @ ps @ as" by (simp add: n edges_def)
  note g = tree_ok_groups [OF less.prems [unfolded n]]
  have arr: "finds E m (\<lambda>s e. table c s = Some e) path vs na (arrive m c path vs na)"
    and fnd: "finds E m (\<lambda>s e. s \<noteq> [] \<and> table c s = Some e) path vs na (findRoute m c path vs na)"
    if "c \<in> set (edges n)" for c path vs na
  proof -
    show f: "finds E m (\<lambda>s e. s \<noteq> [] \<and> table c s = Some e) path vs na (findRoute m c path vs na)"
      for path vs na using less.hyps [OF edge_size [OF that] tree_ok_child [OF less.prems that]] .
    show "finds E m (\<lambda>s e. table c s = Some e) path vs na (arrive m c path vs na)"
      by (rule finds_arrive [OF tree_ok_child [OF less.prems that] f])
  qed
  have wild: "finds E m (group_routes ns) path vs na (try_group m t ns path vs na)"
    if "group_ok E t ns" "t = ntParam \<or> t = ntRegexp" "set ns \<subseteq> set (edges n)" for t ns na
  proof (cases "ns = [] \<or> path = []")
    case True
    have "\<not> matches E False segs [] us" if gr: "group_routes ns segs e" for segs e us
    proof
      assume "matches E False segs [] us"
      moreover obtain c s where "c \<in> set ns" "segs = edge_segs c @ s"
        using gr by (auto simp: edge_table_def strip_Some_iff split: option.splits)
      moreover have "n_typ c = t" using \<open>c \<in> set ns\<close> \<open>group_ok E t ns\<close> by (simp add: group_ok_def)
      ultimately show False
        using \<open>t = ntParam \<or> t = ntRegexp\<close>
        by (auto simp: wild_edge_segs no_value)
    qed
    then have "finds E m (group_routes ns) path vs na (None, na)"
      using True by (intro finds_none) auto
    moreover have "try_group m t ns path vs na = (None, na)" using True that(2) by auto
    ultimately show ?thesis by (simp only:)
  next
    case False
    have v: "finds E m (group_routes ns) path vs na (try_values m t ns path vs na)"
      by (rule finds_values [OF _ that(1,2)]) (use False that(3) arr in auto)
    obtain r na1 where tv: "try_values m t ns path vs na = (r, na1)" by fastforce
    show ?thesis
    proof (cases r)
      case (Some a)
      then show ?thesis using v tv False that(2) by auto
    next
      case None
      have l: "last ns \<in> set ns" "last ns \<in> set (edges n)" using False that(3) last_in_set by auto
      have "finds E m (group_routes ns) path vs na (findRoute m (last ns) path (vs @ [[]]) na1)"
      proof (rule finds_again [OF v [unfolded tv None] fnd [OF l(2)]])
        fix s e us assume "s \<noteq> [] \<and> table (last ns) s = Some e" "matches E True s path us"
        then show "\<exists>s'. group_routes ns s' e \<and> matches E True s' path ([] # us)"
          using matches_gap [OF that(1) l(1) that(2)] False by blast
      qed
      then show ?thesis using None tv False that(2) by auto
    qed
  qed
  have st: "finds E m (group_routes ss) path vs na (try_group m ntStatic ss path vs na)"
    by (rule finds_static) (use g arr ed in auto)
  have ca: "finds E m (group_routes as) path vs na (try_group m ntCatchAll as path vs na)" for na
    by (rule finds_catchall) (use g arr ed in auto)
  have "finds E m (\<lambda>s e. group_routes ss s e \<or> group_routes rs s e \<or> group_routes ps s e \<or> group_routes as s e)
      path vs na (findRoute m n path vs na)"
    unfolding n findRoute.simps
    by (rule finds_groups [OF st wild wild ca]) (use g ed in auto)
  then show ?case
    by (subst finds_cong [OF tree_routes [OF less.prems]], subst (asm) finds_cong [where R' = "group_routes (edges n)"])
      (auto simp: ed)
qed

section \<open>Registering routes\<close>

text \<open>The keys of a pattern and its segments are read in the same way.\<close>

definition wild_count :: "seg list \<Rightarrow> nat" where
  "wild_count segs = length (filter (\<lambda>g. case g of Lit _ \<Rightarrow> False | _ \<Rightarrow> True) segs)"

lemma wild_count_simps [simp]:
  "wild_count [] = 0" "wild_count (xs @ ys) = wild_count xs + wild_count ys" "wild_count (map Lit s) = 0"
  "wild_count (g # segs) = (case g of Lit _ \<Rightarrow> 0 | _ \<Rightarrow> 1) + wild_count segs"
  by (simp_all add: wild_count_def comp_def split: seg.split)

lemma paramKeys_segs:
  "paramKeys_from pattern keys pat = Inr ks \<Longrightarrow>
   \<exists>segs. pattern_segs pat = Inr segs \<and> length ks = length keys + wild_count segs"
proof (induction pattern keys pat rule: paramKeys_from.induct)
  case (1 pattern keys pat)
  obtain ty key rx tail a e where p: "patNextSegment pat = Inr (ty, key, rx, tail, a, e)"
    using 1(2) by (subst (asm) paramKeys_from.simps) (auto split: sum.splits)
  show ?case
  proof (cases "ty = ntStatic")
    case True
    then show ?thesis
      using 1(2) p by (subst (asm) paramKeys_from.simps) (simp add: pattern_segs.simps [of pat])
  next
    case False
    then have k: "key \<notin> set keys" "paramKeys_from pattern (keys @ [key]) (drop e pat) = Inr ks"
      using 1(2) p by (subst (asm) paramKeys_from.simps; simp split: if_splits)+
    from 1(1) [OF p refl refl refl refl refl False k] obtain segs where
      "pattern_segs (drop e pat) = Inr segs" "length ks = length keys + 1 + wild_count segs" by auto
    moreover have "(case wild_seg ty rx tail of Lit _ \<Rightarrow> 0 | _ \<Rightarrow> 1) = (1 :: nat)"
      using False by (cases ty) simp_all
    ultimately show ?thesis using p False by (simp add: pattern_segs.simps [of pat])
  qed
qed

lemma pattern_keys:
  "patParamKeys pattern = Inr keys \<Longrightarrow>
   \<exists>segs. pattern_segs pattern = Inr segs \<and> length keys = wild_count segs"
  using paramKeys_segs [of pattern "[]" pattern keys] by (simp add: patParamKeys_def)

lemma matches_values: "matches E L segs path vs \<Longrightarrow> length vs = wild_count segs"
  by (induction rule: matches.induct) auto

lemma InsertRoute_ok:
  assumes "tree_ok E n" "patParamKeys pattern = Inr keys" "pattern_segs pattern = Inr segs" "compiles E segs"
  shows "\<exists>n'. InsertRoute E m pattern h n = Inr n' \<and>
    inserted E (set_methods m h pattern keys) segs n n'"
  using insert_route_ok [OF assms(1,3,4), of "set_methods m h pattern keys"]
  by (simp add: InsertRoute_def setEndpoint_eps [OF assms(2)])

text \<open>Inserting succeeds only for a pattern with keys (and then its regular expressions compile).\<close>

type_synonym 'h registration = "methodTyp \<times> string \<times> 'h"

definition covers :: "methodTyp \<Rightarrow> methodTyp \<Rightarrow> bool" where
  "covers m' m \<longleftrightarrow> m' = m \<or> m' AND mALL = mALL"

lemma set_methods_at:
  assumes "m \<in> snd ` set methodMap"
  shows "set_methods m' h pattern keys eps m =
    (if covers m' m then Some \<lparr>E_handler = h, E_pattern = pattern, E_paramKeys = keys\<rparr> else eps m)"
proof -
  have m: "m \<noteq> mSTUB" using assms by (auto simp: methodMap_def mSTUB_def)
  have f: "foldl (\<lambda>f k. f(k \<mapsto> e)) eps' ks m = (if m \<in> set ks then Some e else eps' m)" for eps' ks and e :: "'a endpoint"
    by (induction ks arbitrary: eps') auto
  show ?thesis
  proof (cases "m' AND mALL = mALL")
    case True
    then have "covers m' m" by (simp add: covers_def)
    then show ?thesis using assms True by (simp add: set_methods_def Let_def f del: foldl_Cons)
  next
    case False
    then have "covers m' m \<longleftrightarrow> m = m'" by (auto simp: covers_def)
    then show ?thesis using m False by (simp add: set_methods_def Let_def)
  qed
qed

text \<open>A tree with what was registered in it, the latest first.\<close>

inductive routes_step :: "tree_env \<Rightarrow> 'h node \<times> 'h registration list \<Rightarrow> 'h node \<times> 'h registration list \<Rightarrow> bool"
  for E :: tree_env where
  register: "patParamKeys pattern = Inr keys \<Longrightarrow> pattern_segs pattern = Inr segs \<Longrightarrow> compiles E segs \<Longrightarrow>
    pattern \<noteq> [] \<Longrightarrow> InsertRoute E m pattern h n = Inr n' \<Longrightarrow>
    routes_step E (n, rs) (n', (m, pattern, h) # rs)"

definition at_segs :: "seg list \<Rightarrow> 'h registration \<Rightarrow> bool" where
  "at_segs segs r = (case r of (m, p, h) \<Rightarrow> pattern_segs p = Inr segs)"

definition registration_endpoint :: "'h registration \<Rightarrow> 'h endpoint" where
  "registration_endpoint r = (case r of (m, p, h) \<Rightarrow> \<lparr>E_handler = h, E_pattern = p,
     E_paramKeys = (case patParamKeys p of Inl _ \<Rightarrow> [] | Inr keys \<Rightarrow> keys)\<rparr>)"

text \<open>The abstract table: at each sequence of segments and for each method, the latest that covers it.\<close>

definition latest :: "'h registration list \<Rightarrow> seg list \<Rightarrow> methodTyp \<Rightarrow> 'h registration option" where
  "latest rs segs m = find (\<lambda>r. at_segs segs r \<and> covers (fst r) m) rs"

definition routes_inv :: "tree_env \<Rightarrow> 'h node \<times> 'h registration list \<Rightarrow> bool" where
  "routes_inv E s \<longleftrightarrow> (case s of (n, rs) \<Rightarrow> tree_ok E n \<and>
     (\<forall>r\<in>set rs. \<exists>keys segs. patParamKeys (fst (snd r)) = Inr keys \<and> at_segs segs r \<and> segs \<noteq> []) \<and>
     (\<forall>segs. (table n segs = None \<longleftrightarrow> (\<forall>r\<in>set rs. \<not> at_segs segs r)) \<and>
       (\<forall>m\<in>snd ` set methodMap. no_endpoints (table n segs) m =
          map_option registration_endpoint (latest rs segs m))))"

lemma empty_node_ok: "tree_ok E empty_node" "table empty_node = Map.empty"
  by (simp_all add: tree_ok_leaf table_leaf empty_node_def edges_def)

lemma pattern_segs_nonempty: "pattern_segs p = Inr segs \<Longrightarrow> p \<noteq> [] \<Longrightarrow> segs \<noteq> []"
  by (erule search_cases) auto

lemma routes_inv_step:
  assumes "routes_inv E s" "routes_step E s s'"
  shows "routes_inv E s'"
  using assms(2,1)
proof cases
  case (register pattern keys segs m h n n' rs)
  note i = assms(1) [unfolded register(1) routes_inv_def prod.case]
  obtain n'' where "InsertRoute E m pattern h n = Inr n''" "inserted E (set_methods m h pattern keys) segs n n''"
    using InsertRoute_ok [of E n pattern keys segs m h] i register(3-5) by blast
  then have n': "tree_ok E n'"
    "table n' = (table n)(segs \<mapsto> set_methods m h pattern keys (no_endpoints (table n segs)))"
    using register(7) by (simp_all add: inserted_def)
  have a: "at_segs x (m, pattern, h) \<longleftrightarrow> x = segs" for x
    using register(4) by (auto simp: at_segs_def)
  have "no_endpoints (table n' x) k = map_option registration_endpoint (latest ((m, pattern, h) # rs) x k)"
    if "k \<in> snd ` set methodMap" for x k
    using i that register(3) unfolding n'(2)
    by (auto simp: latest_def a set_methods_at no_endpoints_def registration_endpoint_def)
  moreover have "table n' x = None \<longleftrightarrow> (\<forall>r\<in>set ((m, pattern, h) # rs). \<not> at_segs x r)" for x
    using i unfolding n'(2) by (auto simp: a)
  moreover have "\<forall>r\<in>set ((m, pattern, h) # rs). \<exists>keys segs. patParamKeys (fst (snd r)) = Inr keys \<and> at_segs segs r \<and> segs \<noteq> []"
    using i register(3,4,6) pattern_segs_nonempty by (auto simp: at_segs_def)
  ultimately show ?thesis using n'(1) unfolding register(2) routes_inv_def prod.case by blast
qed

interpretation route_machine: invariant_machine "\<lambda>s. s = (empty_node, [])" "routes_step E" "routes_inv E" for E
proof
  show "routes_inv E s" if "s = (empty_node, [])" for s :: "'h node \<times> 'h registration list"
    by (simp add: that routes_inv_def empty_node_ok latest_def no_endpoints_def)
  show "routes_inv E t" if "routes_inv E s" "routes_step E s t" for s t :: "'h node \<times> 'h registration list"
    using that by (rule routes_inv_step)
qed

text \<open>A path without wildcards that is registered as it is, is always served by its own route.\<close>

lemma static_first:
  assumes "tree_ok E n" "p \<noteq> []" "table n (map Lit p) = Some eps" "eps m = Some e"
  shows "\<exists>na'. findRoute m n p vs na = (Some (e, vs), na')"
  using assms
proof (induction "size n" arbitrary: n p na rule: less_induct)
  case less
  note ok = tree_ok_edges [OF less.prems(1)]
  obtain c where c: "c \<in> set (edges n)" "edge_table c (map Lit p) = Some eps"
    using tree_routes [OF less.prems(1), of "map Lit p" eps] less.prems(2,3) by auto
  obtain s where s: "map Lit p = edge_segs c @ s" "table c s = Some eps"
    using c(2) by (auto simp: edge_table_def strip_Some_iff split: option.splits)
  have e: "edge_ok E c" using edges_ok_edge [OF ok c(1)] .
  have "n_typ c = ntStatic"
  proof (rule ccontr)
    assume "n_typ c \<noteq> ntStatic"
    then have "hd (map Lit p) = wild_seg (n_typ c) (n_prefix c) (n_tail c)" "n_typ c \<noteq> ntStatic"
      using s(1) by (simp_all add: edge_segs_def)
    then show False using less.prems(2) by (cases "n_typ c") (simp_all add: hd_map)
  qed
  then have st: "n_typ c = ntStatic" "edge_segs c = map Lit (n_prefix c)" by (simp_all add: edge_segs_def)
  then obtain r where r: "p = n_prefix c @ r" "s = map Lit r"
  proof -
    have "map Lit p = map Lit (n_prefix c) @ s" using s(1) st(2) by simp
    then obtain q r where "p = q @ r" "map Lit q = map Lit (n_prefix c)" "s = map Lit r"
      by (auto simp: map_eq_append_conv)
    moreover then have "q = n_prefix c" by (simp add: map_injective inj_def)
    ultimately show thesis using that by blast
  qed
  obtain t where "c \<in> set (children t n)" using c(1) by (auto simp: set_edges)
  then have cs: "c \<in> set (n_statics n)" using ok st(1) by (auto simp: edges_ok_def)
  have ed: "n_statics n = children ntStatic n" by simp
  have pre: "n_prefix c \<noteq> []" "n_label c = hd (n_prefix c)" using e st(1) by (simp_all add: edge_ok_def)
  then have lab: "n_label c = hd p" using r(1) by simp
  obtain d where d: "findEdge (n_statics n) (hd p) = Some d" "n_label d = n_label c"
    using findEdge_complete [OF _ cs] ok lab by (auto simp: edges_ok_def)
  have "d = c"
  proof -
    have dm: "d \<in> set (n_statics n)" using findEdge_mem [OF d(1)] .
    then have "n_typ d = ntStatic" "edge_ok E d" using ok ed by (auto simp: edges_ok_def simp del: children_simps)
    then have "hd (edge_segs d) = hd (edge_segs c)"
      using d(2) pre st by (auto simp: edge_ok_def edge_segs_def hd_map)
    moreover have "d \<in> set (edges n)" using dm by (simp add: edges_def)
    ultimately show "d = c" using c(1) ok by (metis (mono_tags, lifting) comp_apply distinct_map edges_ok_def inj_onD)
  qed
  have "\<exists>na'. arrive m c r vs na = (Some (e, vs), na')"
  proof (cases "r = []")
    case True
    then show ?thesis using s(2) r(2) less.prems(4) by (simp add: arrive.simps)
  next
    case False
    from less.hyps [OF edge_size [OF c(1)] tree_ok_child [OF less.prems(1) c(1)] False _ less.prems(4)]
    show ?thesis using s(2) r(2) False by (simp add: arrive.simps)
  qed
  then obtain na' where a: "arrive m c r vs na = (Some (e, vs), na')" by blast
  have "n_statics n \<noteq> []" using cs by auto
  then have "try_group m ntStatic (n_statics n) p vs na = (Some (e, vs), na')"
    using d(1) \<open>d = c\<close> pre(1) r(1) a by simp
  then show ?case by (cases n) simp
qed

lemma latest_Some: "latest rs segs m = Some r \<Longrightarrow> r \<in> set rs \<and> at_segs segs r \<and> covers (fst r) m"
  by (auto simp: latest_def find_Some_iff)

lemma latest_None: "latest rs segs m = None \<longleftrightarrow> (\<forall>r\<in>set rs. \<not> (at_segs segs r \<and> covers (fst r) m))"
  by (auto simp: latest_def find_None_iff)

text \<open>What is found was registered and matches; what is registered and matches is found.\<close>

lemma found_registered:
  assumes "(routes_step E)\<^sup>*\<^sup>* (empty_node, []) (n, rs)" "m \<in> snd ` set methodMap" "path \<noteq> []"
  shows "case findRoute m n path [] False of
      (Some (e, ws), _) \<Rightarrow>
        \<exists>m' h segs. (m', E_pattern e, h) \<in> set rs \<and> covers m' m \<and> E_handler e = h \<and>
          patParamKeys (E_pattern e) = Inr (E_paramKeys e) \<and> length ws = length (E_paramKeys e) \<and>
          pattern_segs (E_pattern e) = Inr segs \<and> matches E True segs path ws \<and>
          (\<forall>r\<in>set rs. at_segs (map Lit path) r \<and> covers (fst r) m \<longrightarrow> segs = map Lit path \<and> ws = [])
    | (None, not_allowed) \<Rightarrow>
        \<forall>(m', p, h)\<in>set rs. \<forall>segs us. pattern_segs p = Inr segs \<and> matches E False segs path us \<longrightarrow>
          \<not> covers m' m \<and> not_allowed"
proof -
  have ok: "routes_inv E (n, rs)" by (rule route_machine.reachable_inv [OF refl assms(1)])
  then have t: "tree_ok E n" "\<And>segs. table n segs = None \<longleftrightarrow> (\<forall>r\<in>set rs. \<not> at_segs segs r)"
    "\<And>segs. no_endpoints (table n segs) m = map_option registration_endpoint (latest rs segs m)"
    "\<And>r. r \<in> set rs \<Longrightarrow> \<exists>keys segs. patParamKeys (fst (snd r)) = Inr keys \<and> at_segs segs r \<and> segs \<noteq> []"
    using assms(2) unfolding routes_inv_def prod.case by blast+
  obtain res na where f: "findRoute m n path [] False = (res, na)" by fastforce
  note found = findRoute_finds [OF t(1), of m path "[]" False, unfolded f]
  show ?thesis
  proof (cases res)
    case None
    have "\<not> covers m' m \<and> na" if "(m', p, h) \<in> set rs" "pattern_segs p = Inr segs" "matches E False segs path us"
      for m' p h segs us
    proof -
      have "segs \<noteq> []" using that(3) assms(3) matches_Nil [of E False path us] by metis
      moreover have "at_segs segs (m', p, h)" using that(2) by (simp only: at_segs_def prod.case)
      ultimately have a: "at_segs segs (m', p, h)" "segs \<noteq> []" by simp_all
      then have "\<not> (\<forall>r\<in>set rs. \<not> at_segs segs r)" using that(1) by blast
      then obtain eps where e: "table n segs = Some eps" unfolding t(2) [symmetric] by blast
      then have "eps m = None \<and> na" using found None that(3) a(2) by (simp add: finds_def)
      then show ?thesis
        using t(3) [of segs] e a(1) that(1) by (auto simp: no_endpoints_def latest_None)
    qed
    then show ?thesis using f None by auto
  next
    case (Some x)
    obtain e ws where x: "x = (e, ws)" by (cases x)
    obtain segs eps where s: "table n segs = Some eps" "eps m = Some e" "matches E True segs path ws"
      using found Some x by (auto simp: finds_def)
    then have "map_option registration_endpoint (latest rs segs m) = Some e"
      using t(3) [of segs] by (simp add: no_endpoints_def)
    then obtain r where r: "latest rs segs m = Some r" "e = registration_endpoint r"
      by (cases "latest rs segs m") auto
    obtain m' p h where mph: "r = (m', p, h)" by (cases r)
    obtain keys where k: "patParamKeys p = Inr keys" using t(4) [of r] latest_Some [OF r(1)] mph by auto
    have p: "(m', p, h) \<in> set rs" "covers m' m" "pattern_segs p = Inr segs"
      using latest_Some [OF r(1)] mph by (auto simp: at_segs_def)
    have e: "E_handler e = h" "E_pattern e = p" "E_paramKeys e = keys"
      using r(2) mph k by (simp_all add: registration_endpoint_def)
    have "length ws = length keys" using pattern_keys [OF k] p(3) matches_values [OF s(3)] by auto
    moreover have "segs = map Lit path \<and> ws = []"
      if "q \<in> set rs" "at_segs (map Lit path) q" "covers (fst q) m" for q
    proof -
      have "latest rs (map Lit path) m \<noteq> None" using that by (auto simp: latest_None)
      then have "no_endpoints (table n (map Lit path)) m \<noteq> None" using t(3) by simp
      then obtain eps' e' where e': "table n (map Lit path) = Some eps'" "eps' m = Some e'"
        by (cases "table n (map Lit path)") (auto simp: no_endpoints_def)
      then have "findRoute m n path [] False = (Some (e', []), na)"
        using static_first [OF t(1) assms(3) e', of "[]" False] f by auto
      then have "e = e'" "ws = []" using f Some x by simp_all
      moreover have "map_option registration_endpoint (latest rs (map Lit path) m) = Some e'"
        using t(3) [of "map Lit path"] e' by (simp add: no_endpoints_def)
      then obtain r' where "latest rs (map Lit path) m = Some r'" "e' = registration_endpoint r'"
        by (cases "latest rs (map Lit path) m") auto
      ultimately show ?thesis
        using e(2) p(3) latest_Some [of rs "map Lit path" m r']
        by (auto simp: registration_endpoint_def at_segs_def split: prod.splits)
    qed
    ultimately show ?thesis using f Some x p e k s(3) by auto
  qed
qed

text \<open>
  A pattern without parameters that begins on a tree: a route has a wildcard, or it begins with the
  pattern.
\<close>

lemma findPattern_route:
  assumes "tree_ok E n" "findPattern n p" "CHR ''{'' \<notin> set p" "p \<noteq> []"
  shows "\<exists>segs. table n segs \<noteq> None \<and> (Star \<in> set segs \<or> (\<exists>s. segs = map Lit p @ s))"
  using assms
proof (induction "size n" arbitrary: n p rule: less_induct)
  case less
  obtain c k where ck: "first_some (map (\<lambda>t. pattern_edge t (children t n) p)
      [ntStatic, ntRegexp, ntParam, ntCatchAll]) = Some (c, k)"
    "drop k p = [] \<or> findPattern c (drop k p)"
    using less.prems(2) by (subst (asm) findPattern.simps) (auto simp: Let_def split: option.splits if_splits)
  obtain t where t: "pattern_edge t (children t n) p = Some (c, k)"
  proof -
    have "Some (c, k) \<in> (\<lambda>t. pattern_edge t (children t n) p) ` {ntStatic, ntRegexp, ntParam, ntCatchAll}"
      using first_some_mem [OF ck(1)] by (simp del: children_simps)
    then obtain t where "Some (c, k) = pattern_edge t (children t n) p" by (rule imageE)
    then show thesis by (intro that [of t]) (rule sym)
  qed
  have c: "c \<in> set (children t n)" using pattern_edge_mem [OF t] .
  then have ce: "c \<in> set (edges n)" by (auto simp: set_edges)
  note ok = tree_ok_edges [OF less.prems(1)]
  have e: "n_typ c = t" "edge_ok E c" "table c \<noteq> Map.empty" using ok c ce by (auto simp: edges_ok_def)
  have up: "table n (edge_segs c @ s) = table c s" for s
    using table_edge [OF ok ce, of "edge_segs c @ s"] edge_ok_segs [OF e(2)] by (simp add: edge_table_def)
  obtain s0 where s0: "table c s0 \<noteq> None" using e(3) by (metis ext)
  show ?case
  proof (cases t)
    case ntCatchAll
    then have "edge_segs c = [Star]" using e(1) by (simp add: edge_segs_def)
    then show ?thesis using up [of s0] s0 by (intro exI [of _ "Star # s0"]) simp
  next
    case ntStatic
    then have p: "p = n_prefix c @ drop k p" "k = length (n_prefix c)"
      using t longestPrefix_le [of p "n_prefix c"] longestPrefix_take [of p "n_prefix c"]
      by (auto simp: pattern_edge_def Let_def split: option.splits if_splits)
        (metis append_take_drop_id le_antisym not_le take_all_iff)+
    have es: "edge_segs c = map Lit (n_prefix c)" using ntStatic e(1) by (simp add: edge_segs_def)
    show ?thesis
    proof (cases "drop k p = []")
      case True
      then have "map Lit p = edge_segs c" using p es by simp
      then show ?thesis using up [of s0] s0 by (intro exI [of _ "map Lit p @ s0"]) simp
    next
      case False
      have "CHR ''{'' \<notin> set (drop k p)" using less.prems(3) in_set_dropD by fastforce
      then obtain segs where s: "table c segs \<noteq> None" "Star \<in> set segs \<or> (\<exists>s. segs = map Lit (drop k p) @ s)"
        using less.hyps [OF edge_size [OF ce] tree_ok_child [OF less.prems(1) ce]] ck(2) False by blast
      have "edge_segs c @ map Lit (drop k p) = map Lit p" using p(1) es by (metis map_append)
      then show ?thesis using s up [of segs] by (intro exI [of _ "edge_segs c @ segs"]) (auto simp flip: append_assoc)
    qed
  next
    case ntRegexp
    then have "n_label c = hd p" using t by (auto simp: pattern_edge_def findEdge_def Let_def split: option.splits if_splits)
    then show ?thesis using ntRegexp e(1,2) less.prems(3) hd_in_set [OF less.prems(4)] by (auto simp: edge_ok_def)
  next
    case ntParam
    then have "n_label c = hd p" using t by (auto simp: pattern_edge_def findEdge_def Let_def split: option.splits if_splits)
    then show ?thesis using ntParam e(1,2) less.prems(3) hd_in_set [OF less.prems(4)] by (auto simp: edge_ok_def)
  qed
qed

text \<open>So a static pattern is not found if it begins no pattern registered, and none has a wildcard.\<close>

lemma findPattern_none:
  assumes "(routes_step E)\<^sup>*\<^sup>* (empty_node, []) (n, rs)" "CHR ''{'' \<notin> set p" "p \<noteq> []"
    "\<forall>(m, q, h)\<in>set rs. \<exists>segs. pattern_segs q = Inr segs \<and> Star \<notin> set segs \<and>
       take (length p) segs \<noteq> map Lit p"
  shows "\<not> findPattern n p"
proof
  assume f: "findPattern n p"
  have i: "routes_inv E (n, rs)" by (rule route_machine.reachable_inv [OF refl assms(1)])
  then have "tree_ok E n" by (simp add: routes_inv_def)
  from findPattern_route [OF this f assms(2,3)] obtain segs where
    s: "table n segs \<noteq> None" "Star \<in> set segs \<or> (\<exists>s. segs = map Lit p @ s)" by blast
  have "table n segs = None \<longleftrightarrow> (\<forall>r\<in>set rs. \<not> at_segs segs r)"
    using i unfolding routes_inv_def prod.case by blast
  then have "\<exists>r\<in>set rs. at_segs segs r" using s(1) by simp
  then obtain r where "r \<in> set rs" "at_segs segs r" by blast
  then show False using assms(4) s(2) by (fastforce simp: at_segs_def split: prod.splits)
qed

section \<open>Properties\<close>

text \<open>C17: In every tree that registering routes reaches, whatever the order of the registrations and
  of the nodes that sorting leaves in any order, every edge is in the list of its type and labelled
  by its first byte, no two edges of a node begin with the same segment, static edges are sorted by
  their labels, so that the binary search finds them, and every regular expression is the compiled
  form of its text.\<close>

theorem tree_well_formed:
  assumes "(routes_step E)\<^sup>*\<^sup>* (empty_node, []) (n, rs)"
  shows "tree_ok E n"
  using route_machine.reachable_inv [OF refl assms] by (simp add: routes_inv_def)

text \<open>C15: The radix tree refines a table. Registering a pattern whose parameter keys are distinct and
  whose regular expressions compile always succeeds, whatever was registered before; it changes the
  endpoints at the pattern's segments, for the methods registered, and nothing else. So the table
  has, for each sequence of segments and each method, the latest registration.\<close>

theorem registering_refines_table:
  assumes "(routes_step E)\<^sup>*\<^sup>* (empty_node, []) (n, rs)"
    "patParamKeys pattern = Inr keys" "pattern_segs pattern = Inr segs" "compiles E segs" "pattern \<noteq> []"
  shows "\<exists>n'. InsertRoute E m pattern h n = Inr n' \<and>
    table n' = (table n)(segs \<mapsto> set_methods m h pattern keys (no_endpoints (table n segs))) \<and>
    (\<forall>x. \<forall>k\<in>snd ` set methodMap. no_endpoints (table n' x) k =
       map_option registration_endpoint (latest ((m, pattern, h) # rs) x k))"
proof -
  have ok: "routes_inv E (n, rs)" by (rule route_machine.reachable_inv [OF refl assms(1)])
  then have "tree_ok E n" by (simp add: routes_inv_def)
  from InsertRoute_ok [OF this assms(2-4), of m h] obtain n' where
    n': "InsertRoute E m pattern h n = Inr n'" "inserted E (set_methods m h pattern keys) segs n n'" by blast
  have "routes_step E (n, rs) (n', (m, pattern, h) # rs)"
    using assms(2-5) n'(1) by (rule routes_step.register)
  then have "routes_inv E (n', (m, pattern, h) # rs)" by (rule routes_inv_step [OF ok])
  then show ?thesis using n' by (auto simp: routes_inv_def inserted_def)
qed

text \<open>C16: What a router finds for a path. It finds a route only if it was registered for the method,
  the path matches its pattern, and then as many values as the pattern has keys, which are the
  keys of the values; a registered pattern without parameters is found for the path it spells, with
  no values, before all others. If it finds nothing, then no pattern registered for the method
  matches the path strictly, and it answers that the method is not allowed if a pattern
  registered for other methods does. (A match that is not strict gives a parameter, or a regular
  expression, the empty value.)\<close>

theorem routes_found:
  assumes "(routes_step E)\<^sup>*\<^sup>* (empty_node, []) (n, rs)" "m \<in> snd ` set methodMap" "path \<noteq> []"
  shows "case findRoute m n path [] False of
      (Some (e, ws), _) \<Rightarrow>
        \<exists>m' h segs. (m', E_pattern e, h) \<in> set rs \<and> covers m' m \<and> E_handler e = h \<and>
          patParamKeys (E_pattern e) = Inr (E_paramKeys e) \<and> length ws = length (E_paramKeys e) \<and>
          pattern_segs (E_pattern e) = Inr segs \<and> matches E True segs path ws \<and>
          (\<forall>r\<in>set rs. at_segs (map Lit path) r \<and> covers (fst r) m \<longrightarrow> segs = map Lit path \<and> ws = [])
    | (None, not_allowed) \<Rightarrow>
        \<forall>(m', p, h)\<in>set rs. \<forall>segs us. pattern_segs p = Inr segs \<and> matches E False segs path us \<longrightarrow>
          \<not> covers m' m \<and> not_allowed"
  using assms by (rule found_registered)

text \<open>A tree with one route with a parameter, for GET.\<close>

definition sample_tree_env :: tree_env where
  "sample_tree_env = \<lparr>TE_compile = \<lambda>_. None, TE_order = \<lambda>_. []\<rparr>"

lemma sample_pattern:
  "patParamKeys ''/a/{id}'' = Inr [''id'']"
  "pattern_segs ''/a/{id}'' = Inr (map Lit ''/a/'' @ [Par (CHR ''/'')])"
  "compiles E (map Lit ''/a/'' @ [Par (CHR ''/'')])"
  by (code_simp, code_simp, simp add: compiles_def)

lemma sample_registered:
  obtains n :: "nat node" where "InsertRoute sample_tree_env 8 ''/a/{id}'' 1 empty_node = Inr n"
    "(routes_step sample_tree_env)\<^sup>*\<^sup>* (empty_node, []) (n, [(8, ''/a/{id}'', 1)])"
proof -
  obtain n :: "nat node" where n: "InsertRoute sample_tree_env 8 ''/a/{id}'' 1 empty_node = Inr n"
    using InsertRoute_ok [OF empty_node_ok(1) sample_pattern(1,2,3), of sample_tree_env 8 "1 :: nat"] by blast
  have "routes_step sample_tree_env (empty_node, []) (n, [(8, ''/a/{id}'', 1)])"
    by (rule routes_step.register [OF sample_pattern _ n]) simp
  then show thesis using n that by blast
qed

theorem tree_well_formed_witness:
  "\<exists>n :: nat node. InsertRoute sample_tree_env 8 ''/a/{id}'' 1 empty_node = Inr n \<and> tree_ok sample_tree_env n"
proof -
  obtain n :: "nat node" where n: "InsertRoute sample_tree_env 8 ''/a/{id}'' 1 empty_node = Inr n"
    "(routes_step sample_tree_env)\<^sup>*\<^sup>* (empty_node, []) (n, [(8, ''/a/{id}'', 1)])"
    by (rule sample_registered)
  from tree_well_formed [OF n(2)] n(1) show ?thesis by blast
qed

theorem registering_refines_table_witness:
  "\<exists>n :: nat node. InsertRoute sample_tree_env 8 ''/a/{id}'' 1 empty_node = Inr n \<and>
    no_endpoints (table n (map Lit ''/a/'' @ [Par (CHR ''/'')])) 8 =
      Some \<lparr>E_handler = 1, E_pattern = ''/a/{id}'', E_paramKeys = [''id'']\<rparr> \<and>
    table n [Star] = None"
proof -
  have "(routes_step sample_tree_env)\<^sup>*\<^sup>* (empty_node, []) (empty_node, [])" by simp
  from registering_refines_table [OF this sample_pattern, of 8 "1 :: nat"] obtain n :: "nat node" where
    n: "InsertRoute sample_tree_env 8 ''/a/{id}'' 1 empty_node = Inr n"
    "table n = (table empty_node)(map Lit ''/a/'' @ [Par (CHR ''/'')] \<mapsto> set_methods 8 1 ''/a/{id}'' [''id'']
       (no_endpoints (table empty_node (map Lit ''/a/'' @ [Par (CHR ''/'')]))))" by auto
  moreover have "set_methods 8 (1 :: nat) ''/a/{id}'' [''id''] Map.empty 8 =
      Some \<lparr>E_handler = 1, E_pattern = ''/a/{id}'', E_paramKeys = [''id'']\<rparr>"
    by (simp add: set_methods_at methodMap_def covers_def)
  ultimately show ?thesis by (intro exI [of _ n]) (simp add: empty_node_ok no_endpoints_def)
qed

theorem routes_found_witness:
  "\<exists>(n :: nat node) e. InsertRoute sample_tree_env 8 ''/a/{id}'' 1 empty_node = Inr n \<and>
    fst (findRoute 8 n ''/a/7'' [] False) = Some (e, [''7'']) \<and> E_handler e = 1"
proof -
  let ?segs = "map Lit ''/a/'' @ [Par (CHR ''/'')]"
  obtain n :: "nat node" where n: "InsertRoute sample_tree_env 8 ''/a/{id}'' 1 empty_node = Inr n"
    "(routes_step sample_tree_env)\<^sup>*\<^sup>* (empty_node, []) (n, [(8, ''/a/{id}'', 1)])"
    by (rule sample_registered)
  have "(8 :: methodTyp) \<in> snd ` set methodMap" by (simp add: methodMap_def)
  note found = routes_found [OF n(2) this, of "''/a/7''"]
  have "ends_at (CHR ''/'') ''7'' []" by (simp add: ends_at_def)
  from match_par [OF this _ match_done] have m: "matches sample_tree_env False [Par (CHR ''/'')] ''7'' [''7'']" by simp
  have "matches sample_tree_env False ?segs ''/a/7'' [''7'']"
    unfolding matches_Lits by (rule exI [of _ "''7''"]) (simp add: m)
  then have "fst (findRoute 8 n ''/a/7'' [] False) \<noteq> None"
    using found sample_pattern(2) by (auto simp: covers_def split: prod.splits option.splits)
  then obtain e ws na where f: "findRoute 8 n ''/a/7'' [] False = (Some (e, ws), na)" by (metis prod.collapse option.exhaust fst_conv)
  then obtain segs where s: "E_pattern e = ''/a/{id}''" "E_handler e = 1"
    "pattern_segs (E_pattern e) = Inr segs" "matches sample_tree_env True segs ''/a/7'' ws"
    using found by auto
  then have "matches sample_tree_env True ?segs ''/a/7'' ws" using sample_pattern(2) by simp
  then obtain r where r: "''/a/7'' = ''/a/'' @ r" "matches sample_tree_env True [Par (CHR ''/'')] r ws"
    unfolding matches_Lits by blast
  then have "matches sample_tree_env True [Par (CHR ''/'')] ''7'' ws" by simp
  then have "ws = [''7'']" by (elim matches_ParE) auto
  then show ?thesis using n(1) f s(2) by auto
qed

end
