(* ===== verification/Router.thy ===== *)
theory Router
  imports Agent RouteSearch
begin

text \<open>
  The router of the demo and proxy servers (vendored \<open>go-chi/chi\<close>), with the middlewares they use
  (\<open>chi/middleware\<close>, \<open>go.wandrs.dev/binding\<close> and \<open>inject\<close>): how routes are registered, how the
  stack of middlewares is wrapped around them, and how values are injected into handlers. Routes
  are kept in the radix tree of \<open>RadixTree\<close>.

  A handler serves an exchange in a state of the server; it ends normally or panics with a value.
\<close>

section \<open>Exchanges and handlers\<close>

text \<open>Go types, as far as values are injected by them.\<close>

datatype go_type = Ptr go_type | Interface string | Concrete string

record exchange =
  X_Method :: string
  X_RawPath :: string
  X_Path :: string
  X_Connection :: string              \<comment> \<open>the request's \<open>Connection\<close> header\<close>
  X_Wrapped :: bool                   \<comment> \<open>the writer is wrapped by the logger\<close>
  X_Injector :: "go_type list option" \<comment> \<open>the types with a value, last first; None without injector\<close>
  X_Routed :: bool                    \<comment> \<open>a routing context exists\<close>
  X_RoutePath :: string
  X_RouteMethod :: string
  X_URLParams :: "(string \<times> string) list"
  X_routeParams :: "(string \<times> string) list"
  X_methodNotAllowed :: bool
  X_Status :: "nat option"            \<comment> \<open>the status written, by the first call that does\<close>
  X_Body :: bytes

type_synonym 's handler = "exchange \<Rightarrow> 's \<Rightarrow> string option \<times> exchange \<times> 's"
type_synonym 's middleware = "'s handler \<Rightarrow> 's handler"

definition nil_dereference :: string where
  "nil_dereference = ''runtime error: invalid memory address or nil pointer dereference''"

definition panics :: "string \<Rightarrow> exchange \<Rightarrow> 's \<Rightarrow> string option \<times> exchange \<times> 's" where
  "panics p x s = (Some p, x, s)"

definition WriteHeader :: "nat \<Rightarrow> exchange \<Rightarrow> exchange" where
  "WriteHeader code x = (case X_Status x of None \<Rightarrow> x\<lparr>X_Status := Some code\<rparr> | Some _ \<Rightarrow> x)"

definition write_body :: "bytes \<Rightarrow> exchange \<Rightarrow> exchange" where
  "write_body d x = (let y = WriteHeader 200 x in y\<lparr>X_Body := X_Body y @ d\<rparr>)"

text \<open>What the client sees: a handler that returns without a status has answered with 200.\<close>

definition final_status :: "exchange \<Rightarrow> nat" where
  "final_status x = (case X_Status x of None \<Rightarrow> 200 | Some c \<Rightarrow> c)"

text \<open>A request as it comes from the network.\<close>

definition fresh_exchange :: "exchange \<Rightarrow> bool" where
  "fresh_exchange x \<longleftrightarrow> X_Injector x = None \<and> X_Status x = None \<and> X_Body x = [] \<and> \<not> X_Routed x"

section \<open>Injection (inject.go)\<close>

text \<open>
  \<open>InterfaceOf\<close> of the dynamic type of a value; a nil interface value has none, and asking for its
  kind is a call on a nil interface, which panics.
\<close>

fun interface_of :: "go_type \<Rightarrow> string + go_type" where
  "interface_of (Ptr t) = interface_of t"
| "interface_of (Interface n) = Inr (Interface n)"
| "interface_of (Concrete n) = Inl (''Called inject.InterfaceOf with a value that is not a pointer '' @
     ''to an interface. (*MyInterface)(nil)'')"

definition InterfaceOf :: "go_type option \<Rightarrow> string + go_type" where
  "InterfaceOf t = (case t of None \<Rightarrow> Inl nil_dereference | Some t \<Rightarrow> interface_of t)"

definition MapType :: "go_type \<Rightarrow> go_type list \<Rightarrow> go_type list" where
  "MapType t vs = t # vs"

definition MapTo :: "go_type option \<Rightarrow> go_type list \<Rightarrow> string + go_type list" where
  "MapTo ifacePtr vs = (case InterfaceOf ifacePtr of Inl p \<Rightarrow> Inl p | Inr t \<Rightarrow> Inr (t # vs))"

text \<open>A value is found by its exact type or, for an interface, by a type that implements it.\<close>

definition GetVal :: "(go_type \<Rightarrow> go_type \<Rightarrow> bool) \<Rightarrow> go_type list \<Rightarrow> go_type \<Rightarrow> bool" where
  "GetVal implements vs t \<longleftrightarrow>
     t \<in> set vs \<or> (\<exists>n. t = Interface n) \<and> list_ex (\<lambda>k. implements k t) vs"

section \<open>Middlewares\<close>

text \<open>
  \<open>RequestID\<close> and \<open>RealIP\<close> change the context and the remote address only. \<open>Logger\<close> wraps the
  writer and logs the response when it is done.
\<close>

definition RequestID :: "'s middleware" where "RequestID next = next"
definition RealIP :: "'s middleware" where "RealIP next = next"
definition Logger :: "'s middleware" where "Logger next x s = next (x\<lparr>X_Wrapped := True\<rparr>) s"

definition ErrAbortHandler :: string where
  "ErrAbortHandler = ''net/http: abort Handler''"

definition Recoverer :: "'s middleware" where
  "Recoverer next x s =
     (case next x s of
        (None, y, t) \<Rightarrow> (None, y, t)
      | (Some p, y, t) \<Rightarrow>
          if p = ErrAbortHandler then (Some p, y, t)
          else (None, (if X_Connection y \<noteq> ''Upgrade'' then WriteHeader 500 y else y), t))"

text \<open>The types that the injector starts with (\<open>binding.Injector\<close>).\<close>

definition ContextType :: go_type where "ContextType = Interface ''context.Context''"
definition RequestType :: go_type where "RequestType = Ptr (Concrete ''http.Request'')"
definition WriterType :: go_type where "WriterType = Interface ''http.ResponseWriter''"
definition WrapWriterType :: go_type where "WrapWriterType = Interface ''middleware.WrapResponseWriter''"
definition ResponseWriterType :: go_type where "ResponseWriterType = Interface ''httpw.ResponseWriter''"

definition Injector :: "'s middleware" where
  "Injector next x s =
     (let wrap = (if X_Wrapped x then [WrapWriterType] else [])
      in next (x\<lparr>X_Injector := Some (case X_Injector x of
            Some vs \<Rightarrow> ResponseWriterType # wrap @ vs
          | None \<Rightarrow> ResponseWriterType # wrap @ [WriterType, RequestType, ContextType])\<rparr>) s)"

definition no_injector :: string where
  "no_injector = ''chi: register Injector middleware''"

text \<open>
  \<open>binding.Inject\<close>; the function given maps more values, and panics or not. (None of the functions
  the servers give returns an error.)
\<close>

definition Inject :: "(go_type list \<Rightarrow> string + go_type list) \<Rightarrow> 's middleware" where
  "Inject fn next x s =
     (case X_Injector x of
        None \<Rightarrow> panics no_injector x s
      | Some vs \<Rightarrow>
          (case fn vs of
             Inl p \<Rightarrow> panics p x s
           | Inr vs' \<Rightarrow> next (x\<lparr>X_Injector := Some vs'\<rparr>) s))"

text \<open>
  Errors of handlers: with an API status of their own, or plain. \<open>APIError\<close> writes a status object,
  and for no error at all one that says success.
\<close>

datatype handler_error = StatusError api_status | PlainError go_error

definition success_status :: api_status where
  "success_status = \<lparr>AS_Kind = ''Status'', AS_APIVersion = ''v1'', AS_Status = ''Success'',
     AS_Message = [], AS_Reason = [], AS_Code = 200\<rparr>"

definition error_status :: "handler_error option \<Rightarrow> api_status" where
  "error_status err = (case err of
     None \<Rightarrow> success_status
   | Some (StatusError st) \<Rightarrow>
       (let st1 = (if AS_Status st = [] then st\<lparr>AS_Status := ''Failure''\<rparr> else st);
            st2 = (if AS_Code st1 = 0
                   then st1\<lparr>AS_Code := (if AS_Status st1 = ''Success'' then 200 else 500)\<rparr> else st1)
        in st2\<lparr>AS_Kind := ''Status'', AS_APIVersion := ''v1''\<rparr>)
   | Some (PlainError e) \<Rightarrow> ErrorToAPIStatus e)"

definition APIError :: "handler_error option \<Rightarrow> exchange \<Rightarrow> exchange" where
  "APIError err x =
     (let st = error_status err; code = nat (AS_Code st)
      in if code = 204 then WriteHeader code x
         else write_body (json_text (api_status_json st)) (WriteHeader code x))"

text \<open>\<open>binding.JSON\<close>; binding the query and the body to a struct is an argument: an error, or none.\<close>

definition JSON :: "(exchange \<Rightarrow> handler_error option) \<Rightarrow> go_type \<Rightarrow> 's middleware" where
  "JSON bind obj next x s =
     (case X_Injector x of
        None \<Rightarrow> panics no_injector x s
      | Some vs \<Rightarrow>
          (case bind x of
             Some err \<Rightarrow> (None, APIError (Some err) x, s)
           | None \<Rightarrow> next (x\<lparr>X_Injector := Some (MapType obj vs)\<rparr>) s))"

text \<open>
  \<open>binding.HandlerFunc\<close>: the arguments of a function are looked up by their types, the function
  runs, and what it returns is written: an error, also a nil one if it returns nothing else, or the
  JSON of a value.
\<close>

datatype handler_result =
    ErrResult "handler_error option"
  | ValResult json
  | FnPanics string

definition HandlerFunc ::
    "(go_type \<Rightarrow> go_type \<Rightarrow> bool) \<Rightarrow> go_type list \<Rightarrow>
     (exchange \<Rightarrow> 's \<Rightarrow> handler_result \<times> exchange \<times> 's) \<Rightarrow> 's handler" where
  "HandlerFunc implements args fn x s =
     (case X_Injector x of
        None \<Rightarrow> panics no_injector x s
      | Some vs \<Rightarrow>
          if list_all (GetVal implements (ContextType # vs)) args
          then (case fn (x\<lparr>X_Injector := Some (ContextType # vs)\<rparr>) s of
                  (ErrResult err, y, t) \<Rightarrow> (None, APIError err y, t)
                | (ValResult v, y, t) \<Rightarrow> (None, write_body (json_text v) (WriteHeader 200 y), t)
                | (FnPanics p, y, t) \<Rightarrow> panics p y t)
          else panics ''failed to invoke'' x s)"

text \<open>\<open>chain\<close>: the first middleware is the outermost.\<close>

fun chain :: "'s middleware list \<Rightarrow> 's handler \<Rightarrow> 's handler" where
  "chain [] endpoint = endpoint"
| "chain (m # ms) endpoint = m (chain ms endpoint)"

section \<open>The router (chi/v5/mux.go)\<close>

text \<open>
  A router has middlewares, the stack that was wrapped around its routes when the first was
  registered, and the tree of its routes.
\<close>

record 's mux =
  Mx_Middlewares :: "'s middleware list"
  Mx_Stack :: "'s middleware list option"
  Mx_Tree :: "'s handler node"

definition mPOST :: methodTyp where "mPOST = 128"

definition NewRouter :: "'s mux" where
  "NewRouter = \<lparr>Mx_Middlewares = [], Mx_Stack = None, Mx_Tree = empty_node\<rparr>"

definition Use :: "'s middleware list \<Rightarrow> 's mux \<Rightarrow> string + 's mux" where
  "Use ms mx =
     (if Mx_Stack mx \<noteq> None
      then Inl ''chi: all middlewares must be defined before routes on a mux''
      else Inr (mx\<lparr>Mx_Middlewares := Mx_Middlewares mx @ ms\<rparr>))"

definition updateRouteHandler :: "'s mux \<Rightarrow> 's mux" where
  "updateRouteHandler mx =
     (if Mx_Stack mx = None then mx\<lparr>Mx_Stack := Some (Mx_Middlewares mx)\<rparr> else mx)"

text \<open>
  Registering on a router, and on the inline router that \<open>With\<close> makes of one, which shares its
  tree and wraps its own middlewares around the handler.
\<close>

definition mux_handle ::
    "tree_env \<Rightarrow> methodTyp \<Rightarrow> string \<Rightarrow> 's handler \<Rightarrow> 's mux \<Rightarrow> string + 's mux" where
  "mux_handle E method pattern h mx =
     (if pattern = [] \<or> hd pattern \<noteq> CHR ''/''
      then Inl (''chi: routing pattern must begin with '' @ quoted ''/'' @ '' in '' @ quoted pattern)
      else let mx1 = updateRouteHandler mx
           in case InsertRoute E method pattern h (Mx_Tree mx1) of
                Inl p \<Rightarrow> Inl p
              | Inr n \<Rightarrow> Inr (mx1\<lparr>Mx_Tree := n\<rparr>))"

definition With_handle ::
    "tree_env \<Rightarrow> 's middleware list \<Rightarrow> methodTyp \<Rightarrow> string \<Rightarrow> 's handler \<Rightarrow> 's mux \<Rightarrow> string + 's mux" where
  "With_handle E ms method pattern h mx = mux_handle E method pattern (chain ms h) mx"

text \<open>\<open>strings.ToUpper\<close> on ASCII.\<close>

definition ascii_upper :: "char \<Rightarrow> char" where
  "ascii_upper c = (if (97 :: nat) \<le> of_char c \<and> of_char c \<le> (122 :: nat) then char_of (of_char c - (32 :: nat)) else c)"

text \<open>
  \<open>HandleFunc\<close> on such a router registers for every method, unless the pattern has a method before
  a blank, which none here has.
\<close>

definition With_HandleFunc ::
    "tree_env \<Rightarrow> 's middleware list \<Rightarrow> string \<Rightarrow> 's handler \<Rightarrow> 's mux \<Rightarrow> string + 's mux" where
  "With_HandleFunc E ms pattern h mx =
     (if contains_any pattern [CHR '' '', CHR 0x09]
      then (let method = takeWhile (\<lambda>c. c \<noteq> CHR '' '' \<and> c \<noteq> CHR 0x09) pattern;
                rest = dropWhile (\<lambda>c. c = CHR '' '' \<or> c = CHR 0x09) (drop (length method) pattern)
            in case map_of methodMap (map ascii_upper method) of
                 None \<Rightarrow> Inl (''chi: '' @ quoted method @ '' http method is not supported.'')
               | Some m \<Rightarrow> With_handle E ms m rest h mx)
      else With_handle E ms mALL pattern h mx)"

section \<open>Serving\<close>

definition NotFound :: "'s handler" where
  "NotFound x s = (None, write_body (''404 page not found'' @ [CHR 0x0A]) (WriteHeader 404 x), s)"

definition route_path :: "exchange \<Rightarrow> string" where
  "route_path x =
     (if X_RoutePath x \<noteq> [] then X_RoutePath x
      else let p = (if X_RawPath x \<noteq> [] then X_RawPath x else X_Path x)
           in if p = [] then ''/'' else p)"

definition methodNotAllowed :: "'s handler" where
  "methodNotAllowed x s = (None, WriteHeader 405 x, s)"

text \<open>A search that finds nothing still resets the parameters of the route.\<close>

definition routeHTTP :: "'s mux \<Rightarrow> 's handler" where
  "routeHTTP mx x s =
     (let x1 = (if X_RouteMethod x = [] then x\<lparr>X_RouteMethod := X_Method x\<rparr> else x)
      in case map_of methodMap (X_RouteMethod x1) of
           None \<Rightarrow> methodNotAllowed x1 s
         | Some m \<Rightarrow>
             (case findRoute m (Mx_Tree mx) (route_path x) [] (X_methodNotAllowed x1) of
                (Some (e, values), na) \<Rightarrow>
                  (let params = zip (E_paramKeys e) values
                   in E_handler e (x1\<lparr>X_routeParams := params, X_URLParams := X_URLParams x1 @ params,
                        X_methodNotAllowed := na\<rparr>) s)
              | (None, na) \<Rightarrow>
                  (let x2 = x1\<lparr>X_routeParams := [], X_methodNotAllowed := na\<rparr>
                   in if na then methodNotAllowed x2 s else NotFound x2 s)))"

definition ServeHTTP :: "'s mux \<Rightarrow> 's handler" where
  "ServeHTTP mx x s =
     (case Mx_Stack mx of
        None \<Rightarrow> NotFound x s
      | Some ms \<Rightarrow>
          chain ms (routeHTTP mx)
            (if X_Routed x then x
             else x\<lparr>X_Routed := True, X_RoutePath := [], X_RouteMethod := [], X_URLParams := [],
                X_routeParams := [], X_methodNotAllowed := False\<rparr>) s)"

definition URLParam :: "exchange \<Rightarrow> string \<Rightarrow> string" where
  "URLParam x key = (case map_of (rev (X_URLParams x)) key of None \<Rightarrow> [] | Some v \<Rightarrow> v)"

definition nextRoutePath :: "exchange \<Rightarrow> string" where
  "nextRoutePath x =
     (if X_routeParams x \<noteq> [] \<and> fst (last (X_routeParams x)) = ''*''
      then CHR ''/'' # snd (last (X_routeParams x)) else ''/'')"

definition mountHandler :: "'s mux \<Rightarrow> 's handler" where
  "mountHandler sub x s =
     (let x1 = x\<lparr>X_RoutePath := nextRoutePath x\<rparr>;
          ps = X_URLParams x1;
          x2 = (if ps \<noteq> [] \<and> fst (last ps) = ''*''
                then x1\<lparr>X_URLParams := butlast ps @ [(''*'', [])]\<rparr> else x1)
      in ServeHTTP sub x2 s)"

definition Mount :: "tree_env \<Rightarrow> string \<Rightarrow> 's mux \<Rightarrow> 's mux \<Rightarrow> string + 's mux" where
  "Mount E pattern sub mx =
     (if findPattern (Mx_Tree mx) (pattern @ ''*'') \<or> findPattern (Mx_Tree mx) (pattern @ ''/*'')
      then Inl (''chi: attempting to Mount() a handler on an existing path, '' @ quoted pattern)
      else let m = mALL OR mSTUB; h = mountHandler sub
           in if pattern = [] \<or> last pattern \<noteq> CHR ''/''
              then (case mux_handle E m pattern h mx of
                      Inl p \<Rightarrow> Inl p
                    | Inr mx1 \<Rightarrow>
                        (case mux_handle E m (pattern @ ''/'') h mx1 of
                           Inl p \<Rightarrow> Inl p
                         | Inr mx2 \<Rightarrow> mux_handle E m (pattern @ ''/*'') h mx2))
              else mux_handle E m (pattern @ ''*'') h mx)"

text \<open>\<open>Route\<close>: the function given may register on the new router and, as a closure, on the old one.\<close>

definition Route ::
    "tree_env \<Rightarrow> string \<Rightarrow> ('s mux \<times> 's mux \<Rightarrow> string + 's mux \<times> 's mux) \<Rightarrow> 's mux \<Rightarrow> string + 's mux" where
  "Route E pattern fn mx =
     (case fn (mx, NewRouter) of
        Inl p \<Rightarrow> Inl p
      | Inr (mx1, sub) \<Rightarrow> Mount E pattern sub mx1)"

section \<open>Lemmas\<close>

lemma updateRouteHandler_simps [simp]:
  "Mx_Tree (updateRouteHandler mx) = Mx_Tree mx"
  "Mx_Middlewares (updateRouteHandler mx) = Mx_Middlewares mx"
  "Mx_Stack (updateRouteHandler mx) = Some (case Mx_Stack mx of None \<Rightarrow> Mx_Middlewares mx | Some ms \<Rightarrow> ms)"
  by (auto simp: updateRouteHandler_def split: option.splits)

lemma APIError_status:
  "X_Status x = None \<Longrightarrow> X_Status (APIError err x) = Some (nat (AS_Code (error_status err)))"
  by (simp add: APIError_def write_body_def WriteHeader_def Let_def)

lemma WriteHeader_status [simp]:
  "X_Status x = None \<Longrightarrow> X_Status (WriteHeader c x) = Some c"
  by (simp add: WriteHeader_def)

text \<open>A router whose tree holds what was registered, the latest first.\<close>

definition mux_has :: "tree_env \<Rightarrow> 's mux \<Rightarrow> 's handler registration list \<Rightarrow> bool" where
  "mux_has E mx rs \<longleftrightarrow> (routes_step E)\<^sup>*\<^sup>* (empty_node, []) (Mx_Tree mx, rs)"

lemma NewRouter_has: "mux_has E (NewRouter\<lparr>Mx_Middlewares := ms\<rparr>) []" "mux_has E NewRouter []"
  by (simp_all add: mux_has_def NewRouter_def)

text \<open>Registering a pattern without regular expressions succeeds.\<close>

lemma mux_handle_ok:
  assumes "mux_has E mx rs" "pattern \<noteq> []" "hd pattern = CHR ''/''"
    "patParamKeys pattern = Inr keys" "pattern_segs pattern = Inr segs" "compiles E segs"
  obtains mx' where "mux_handle E m pattern h mx = Inr mx'" "mux_has E mx' ((m, pattern, h) # rs)"
    "Mx_Stack mx' = Mx_Stack (updateRouteHandler mx)" "Mx_Middlewares mx' = Mx_Middlewares mx"
proof -
  have i: "routes_inv E (Mx_Tree mx, rs)"
    using route_machine.reachable_inv [OF refl] assms(1) by (simp add: mux_has_def)
  then have "tree_ok E (Mx_Tree mx)" by (simp add: routes_inv_def)
  from InsertRoute_ok [OF this assms(4-6), of m h] obtain n where
    n: "InsertRoute E m pattern h (Mx_Tree mx) = Inr n" by blast
  let ?mx = "(updateRouteHandler mx)\<lparr>Mx_Tree := n\<rparr>"
  have "routes_step E (Mx_Tree mx, rs) (n, (m, pattern, h) # rs)"
    by (rule routes_step.register [OF assms(4-6,2) n])
  then have "mux_has E ?mx ((m, pattern, h) # rs)"
    using assms(1) by (auto simp: mux_has_def intro: rtranclp.rtrancl_into_rtrancl)
  moreover have "mux_handle E m pattern h mx = Inr ?mx"
    using assms(2,3) n by (simp add: mux_handle_def Let_def)
  ultimately show thesis by (intro that [of ?mx]) simp_all
qed

text \<open>A pattern without wildcards.\<close>

lemma static_pattern:
  assumes "list_all (\<lambda>c. \<not> wildcard c) p"
  shows "patParamKeys p = Inr []" "pattern_segs p = Inr (map Lit p)" "compiles E (map Lit p)"
  using assms pattern_segs_append [OF assms, of "[]"]
  by (auto simp: patParamKeys_def paramKeys_from.simps patNextSegment_static compiles_def)

text \<open>A pattern without other wildcards than a star at its end.\<close>

lemma star_pattern:
  assumes "list_all (\<lambda>c. \<not> wildcard c) p"
  shows "patParamKeys (p @ ''*'') = Inr [''*'']" "pattern_segs (p @ ''*'') = Inr (map Lit p @ [Star])"
    "compiles E (map Lit p @ [Star])"
proof -
  have s: "patNextSegment ''*'' = Inr (ntCatchAll, ''*'', [], CHR 0x00, 0, 1)" by code_simp
  then have "pattern_segs ''*'' = Inr [Star]" by (simp add: pattern_segs.simps [of "''*''"])
  then show "pattern_segs (p @ ''*'') = Inr (map Lit p @ [Star])"
    using pattern_segs_append [OF assms] by simp
  have "patNextSegment (p @ ''*'') = Inr (ntCatchAll, ''*'', [], CHR 0x00, length p, Suc (length p))"
    using assms
  proof (induction p)
    case (Cons c p)
    then show ?case using patNextSegment_Cons [of c "p @ ''*''"] by (simp add: later_def)
  qed (simp add: s)
  moreover have "patNextSegment [] = Inr (ntStatic, [], [], CHR 0x00, 0, 0)" by (simp add: patNextSegment_static)
  ultimately show "patParamKeys (p @ ''*'') = Inr [''*'']"
    by (simp add: patParamKeys_def paramKeys_from.simps [of _ _ "p @ _"] paramKeys_from.simps [of _ _ "[]"])
  show "compiles E (map Lit p @ [Star])" by (auto simp: compiles_def)
qed

text \<open>What a router does with a request whose method it knows: a route that was registered, or none.\<close>

lemma routeHTTP_cases:
  assumes "mux_has E mx rs" "\<not> X_methodNotAllowed x" "X_RouteMethod x = []" "route_path x \<noteq> []"
  obtains (unknown) "map_of methodMap (X_Method x) = None"
      "routeHTTP mx x s = methodNotAllowed (x\<lparr>X_RouteMethod := X_Method x\<rparr>) s"
  | (found) m m' p h keys segs ws na where "map_of methodMap (X_Method x) = Some m"
      "(m', p, h) \<in> set rs" "covers m' m" "patParamKeys p = Inr keys" "pattern_segs p = Inr segs"
      "matches E True segs (route_path x) ws" "length ws = length keys"
      "routeHTTP mx x s = h (x\<lparr>X_RouteMethod := X_Method x, X_routeParams := zip keys ws,
         X_URLParams := X_URLParams x @ zip keys ws, X_methodNotAllowed := na\<rparr>) s"
  | (not_found) na where
      "routeHTTP mx x s = (if na then methodNotAllowed else NotFound)
         (x\<lparr>X_RouteMethod := X_Method x, X_routeParams := [], X_methodNotAllowed := na\<rparr>) s"
proof (cases "map_of methodMap (X_Method x)")
  case None
  then show thesis by (intro unknown) (simp_all add: routeHTTP_def assms(3))
next
  case (Some m)
  then have m: "m \<in> snd ` set methodMap" by (metis imageI map_of_SomeD snd_conv)
  note fr = found_registered [OF assms(1) [unfolded mux_has_def] m assms(4)]
  obtain res na where f: "findRoute m (Mx_Tree mx) (route_path x) [] False = (res, na)" by fastforce
  show thesis
  proof (cases res)
    case None
    with f Some assms(2,3) show thesis by (intro not_found [of na]) (simp add: routeHTTP_def Let_def)
  next
    case hit: (Some r)
    obtain e ws where r: "r = (e, ws)" by (cases r)
    obtain m' h segs where "(m', E_pattern e, h) \<in> set rs" "covers m' m" "E_handler e = h"
      "patParamKeys (E_pattern e) = Inr (E_paramKeys e)" "length ws = length (E_paramKeys e)"
      "pattern_segs (E_pattern e) = Inr segs" "matches E True segs (route_path x) ws"
      using fr f hit r by auto
    then show thesis
      using f Some hit r assms(2,3)
      by (intro found [of m m' "E_pattern e" h "E_paramKeys e" segs ws na]) (simp_all add: routeHTTP_def Let_def)
  qed
qed

end
