(* ===== verification/NatsClient.thy ===== *)
theory NatsClient
  imports RestConfig
begin

text \<open>
  How the demo commands come by a NATS connection (\<open>getNatsClient\<close>, which \<open>cmd/demo-server\<close> and
  \<open>cmd/proxy-server\<close> define alike), and \<open>cmd/demo-client\<close>, which does the same and then lists the
  nodes of its own cluster through the tunnel.
\<close>

section \<open>Connecting\<close>

text \<open>
  The configuration of the process's own cluster, which ends the process if there is none; clients
  and mappers made of it (controller-runtime); the id of the cluster; and connecting with the
  credentials that a license gives (\<open>go.bytebuilders.dev/audit\<close>).
\<close>

record ('m, 'cl) startup_env =
  SU_world :: world
  SU_config :: rest_config
  SU_direct :: "rt Config \<Rightarrow> rt result"
  SU_mapper :: "rest_config \<Rightarrow> rest_client \<Rightarrow> 'm result"
  SU_client :: "rest_config \<Rightarrow> 'm \<Rightarrow> 'cl result"
  SU_cluster_uid :: "'cl \<Rightarrow> string result"
  SU_connect :: "rest_config \<Rightarrow> string \<Rightarrow> string \<Rightarrow> nat option result"

definition own_cluster :: "('m, 'cl) startup_env \<Rightarrow> string result" where
  "own_cluster e =
     (case HTTPClientFor (W_env (SU_world e)) (W_plugins (SU_world e)) (SU_direct e) (SU_config e) of
        Inl err \<Rightarrow> Inl err
      | Inr hc \<Rightarrow>
          (case SU_mapper e (SU_config e) hc of
             Inl err \<Rightarrow> Inl err
           | Inr mapper \<Rightarrow>
               (case SU_client e (SU_config e) mapper of
                  Inl err \<Rightarrow> Inl err
                | Inr c \<Rightarrow> SU_cluster_uid e c)))"

definition getNatsClient :: "('m, 'cl) startup_env \<Rightarrow> string \<Rightarrow> nat option result" where
  "getNatsClient e licenseFile =
     (case own_cluster e of
        Inl err \<Rightarrow> Inl err
      | Inr cid \<Rightarrow> SU_connect e (SU_config e) cid licenseFile)"

section \<open>The demo client\<close>

text \<open>
  It panics (\<open>Inl\<close>) on every error, and prints the names of the nodes. \<open>list_nodes\<close> asks with the
  clientset.
\<close>

definition demo_client ::
    "('m, 'cl) startup_env \<Rightarrow> string \<Rightarrow> (rest_config \<Rightarrow> rest_client \<Rightarrow> 'c result) \<Rightarrow>
     ('c \<Rightarrow> string list result) \<Rightarrow> string \<Rightarrow> tlsTransportCache \<Rightarrow>
     (go_error + string list) \<times> tlsTransportCache" where
  "demo_client e user_agent clientset list_nodes licenseFile s =
     (case own_cluster e of
        Inl err \<Rightarrow> (Inl err, s)
      | Inr cid \<Rightarrow>
          (case SU_connect e (SU_config e) cid licenseFile of
             Inl err \<Rightarrow> (Inl err, s)
           | Inr nc \<Rightarrow>
               (case GetForRestConfig (SU_world e) (SU_config e) nc (CrossAccountNames cid) s of
                  ((_, Some err), s') \<Rightarrow> (Inl err, s')
                | ((None, None), s') \<Rightarrow> (Inl (ErrNew ''nil dereference''), s')
                | ((Some c2, None), s') \<Rightarrow>
                    (case NewForConfig (SU_world e) (SU_direct e) user_agent clientset c2 of
                       Inl err \<Rightarrow> (Inl err, s')
                     | Inr kc \<Rightarrow>
                         (case list_nodes kc of
                            Inl err \<Rightarrow> (Inl err, s')
                          | Inr nodes \<Rightarrow> (Inr (map (\<lambda>n. n @ [CHR 0x0A]) nodes), s'))))))"

section \<open>Properties\<close>

text \<open>A start in a cluster of a given configuration in which everything works.\<close>

definition sample_startup :: "rest_config \<Rightarrow> (unit, unit) startup_env" where
  "sample_startup c = \<lparr>SU_world = sample_world, SU_config = c, SU_direct = \<lambda>_. Inr DefaultRT,
     SU_mapper = \<lambda>_ _. Inr (), SU_client = \<lambda>_ _. Inr (), SU_cluster_uid = \<lambda>_. Inr ''cid'',
     SU_connect = \<lambda>_ _ _. Inr (Some 3)\<rparr>"

lemma sample_own_cluster: "own_cluster (sample_startup host_config) = Inr ''cid''"
  by (simp add: own_cluster_def sample_startup_def HTTPClientFor_def TransportFor_def
      TransportConfig_plain [OF host_plugins] host_base client_go_New_def HTTPWrappersForConfig_def
      DebugWrappers_def HasBasicAuth_def HasTokenAuth_def sample_world_def sample_wrap_def Let_def
      empty_Config_def)

text \<open>C34: What the demo client prints came through the tunnel of its own cluster, and it prints
  something only where the cluster's configuration has no certificate authority, no client
  certificate and no insecure flag: from a usual kubeconfig or inside a cluster the command always
  panics, since the certificate options that it reads stay beside the NATS transport. (For
  configurations without plugins, and with a NATS connection.)\<close>

theorem demo_client_needs_plain_config:
  assumes "demo_client e ua clientset list_nodes lic empty_cache = (Inr out, s')"
    and "RC_ExecProvider (SU_config e) = None" "RC_AuthProvider (SU_config e) = None"
    and "\<forall>cid. SU_connect e (SU_config e) cid lic \<noteq> Inr None"
  shows "\<not> wants_tls (SU_config e) \<and>
    (\<exists>cid cfg hc kc nodes a t. own_cluster e = Inr cid \<and> clientset cfg hc = Inr kc \<and>
       list_nodes kc = Inr nodes \<and> out = map (\<lambda>n. n @ [CHR 0x0A]) nodes \<and>
       rt_base (RCl_Transport hc) = NatsRT a \<and> heap s' a = Some t \<and> GetLinkID (Names t) = cid)"
proof -
  obtain cid where cid: "own_cluster e = Inr cid"
    using assms(1) by (auto simp: demo_client_def split: sum.splits)
  then obtain k where k: "SU_connect e (SU_config e) cid lic = Inr (Some k)"
    using assms(1,4) by (cases "SU_connect e (SU_config e) cid lic")
      (auto simp: demo_client_def, metis option.exhaust)
  with assms(1) cid obtain c2 kc nodes where
    g: "GetNoCopyConfig (SU_world e) (SU_config e) (Some k) (CrossAccountNames cid) empty_cache =
      ((Some c2, None), s')"
    and kc: "NewForConfig (SU_world e) (SU_direct e) ua clientset c2 = Inr kc" "list_nodes kc = Inr nodes"
      "out = map (\<lambda>n. n @ [CHR 0x0A]) nodes"
    by (auto simp: demo_client_def GetForRestConfig_def CopyConfig_same
        split: sum.splits prod.splits option.splits)
  obtain ua' hc where hc: "HTTPClientFor (W_env (SU_world e)) (W_plugins (SU_world e)) (SU_direct e)
      (c2\<lparr>RC_UserAgent := ua'\<rparr>) = Inr hc" "clientset (c2\<lparr>RC_UserAgent := ua'\<rparr>) hc = Inr kc"
    using NewForConfig_ok [OF kc(1)] .
  obtain a t where "rt_base (RCl_Transport hc) = NatsRT a" "heap s' a = Some t"
    "GetLinkID (Names t) = cid" "\<not> wants_tls (SU_config e)"
    using GetNoCopyConfig_tunnels [OF rtranclp.rtrancl_refl g hc(1) assms(2,3)] by auto
  then show ?thesis using cid hc(2) kc(2,3) by blast
qed

theorem demo_client_needs_plain_config_witness:
  "\<exists>out s'. demo_client (sample_startup host_config) [] (\<lambda>_ hc. Inr hc) (\<lambda>_. Inr [''n1'']) [] empty_cache =
     (Inr out, s') \<and> \<not> wants_tls host_config \<and> out = [''n1'' @ [CHR 0x0A]]"
proof -
  have u: "RC_UserAgent host_config = []"
    "host_config\<lparr>RC_Transport := t, RC_UserAgent := []\<rparr> = host_config\<lparr>RC_Transport := t\<rparr>" for t
    by (simp_all add: host_config_def)
  have w: "W_env sample_world = sample_wrap" by (simp add: sample_world_def)
  have d: "\<exists>s'. demo_client (sample_startup host_config) [] (\<lambda>_ hc. Inr hc) (\<lambda>_. Inr [''n1'']) [] empty_cache =
     (Inr [''n1'' @ [CHR 0x0A]], s')"
    unfolding demo_client_def sample_own_cluster
    by (simp add: sample_startup_def GetForRestConfig_def CopyConfig_same host_proxied
        NewForConfig_def Let_def u host_client w)
  then obtain s' where s': "demo_client (sample_startup host_config) [] (\<lambda>_ hc. Inr hc)
      (\<lambda>_. Inr [''n1'']) [] empty_cache = (Inr [''n1'' @ [CHR 0x0A]], s')" by blast
  from demo_client_needs_plain_config [OF s'] host_plugins s' show ?thesis
    by (auto simp: sample_startup_def)
qed

end
