(* ===== verification/DemoMain.thy ===== *)
theory DemoMain
  imports DemoServer Router NatsClient
begin

text \<open>
  \<open>main\<close> of \<open>cmd/demo-server\<close>: the connection, the router with its middlewares, and the two
  routes, served by the handlers of \<open>DemoServer\<close>.
\<close>

section \<open>The handlers as the binding calls them\<close>

text \<open>
  What a running server is made of besides its connection: which types implement which interfaces,
  the router's environment, the binding of requests to structs, the environments of each request, the
  printers of scripts.
\<close>

record ('k, 'c) demo_config =
  DC_implements :: "go_type \<Rightarrow> go_type \<Rightarrow> bool"
  DC_tree :: tree_env
  DC_bind_link :: "exchange \<Rightarrow> handler_error + LinkRequest"
  DC_bind_callback :: "exchange \<Rightarrow> handler_error + CallbackRequest"
  DC_link_env :: "exchange \<Rightarrow> link_env"
  DC_callback_env :: "exchange \<Rightarrow> ('k, 'c) callback_env"
  DC_now :: "exchange \<Rightarrow> int"
  DC_yaml :: printer
  DC_helm3 :: printer

definition BlobFSType :: go_type where "BlobFSType = Ptr (Concrete ''blobfs.BlobFS'')"
definition BlobStoreType :: go_type where "BlobStoreType = Ptr (Concrete ''lib.BlobStore'')"
definition UserType :: go_type where "UserType = Concrete ''shared.User''"
definition ConnType :: go_type where "ConnType = Ptr (Concrete ''nats.Conn'')"
definition LinkRequestType :: go_type where "LinkRequestType = Concrete ''shared.LinkRequest''"
definition CallbackRequestType :: go_type where
  "CallbackRequestType = Concrete ''shared.CallbackRequest''"
definition FSInterface :: go_type where "FSInterface = Interface ''blobfs.Interface''"
definition RegistryInterface :: go_type where "RegistryInterface = Interface ''repo.IRegistry''"

definition testUser :: User where
  "testUser = \<lparr>User_Name = ''Tamal Saha'', User_Email = ''tamal@appscode.com''\<rparr>"

text \<open>The error of a binding, and the struct that was bound.\<close>

definition bind_error :: "'e + 'a \<Rightarrow> 'e option" where
  "bind_error r = (case r of Inl e \<Rightarrow> Some e | Inr _ \<Rightarrow> None)"

definition Link_json :: "Link \<Rightarrow> json" where
  "Link_json l = JObj [(''linkID'', JStr (Link_LinkID l)),
     (''scripts'', JObj (map (\<lambda>k. (k, JStr (the (Scripts l k)))) (sorted_list_of_set (dom (Scripts l)))))]"

definition link_handler ::
    "('k, 'c) demo_config \<Rightarrow> BlobStore \<Rightarrow> exchange \<Rightarrow> demo_state \<Rightarrow> handler_result \<times> exchange \<times> demo_state" where
  "link_handler D bs x s =
     (case DC_bind_link D x of
        Inl err \<Rightarrow> (ErrResult (Some err), x, s)
      | Inr req \<Rightarrow>
          (case genLink (DC_link_env D x) (DC_yaml D) (DC_helm3 D) (DC_now D x) bs testUser req s of
             (None, s') \<Rightarrow> (FnPanics ''index out of range'', x, s')
           | (Some (Inl err), s') \<Rightarrow> (ErrResult (Some (PlainError err)), x, s')
           | (Some (Inr l), s') \<Rightarrow> (ValResult (Link_json l), x, s')))"

definition callback_handler ::
    "('k, 'c) demo_config \<Rightarrow> nat option \<Rightarrow> exchange \<Rightarrow> demo_state \<Rightarrow> handler_result \<times> exchange \<times> demo_state" where
  "callback_handler D nc x s =
     (case DC_bind_callback D x of
        Inl err \<Rightarrow> (ErrResult (Some err), x, s)
      | Inr req \<Rightarrow>
          (case handleCallback (DC_callback_env D x) (DC_now D x) nc req s of
             (None, s') \<Rightarrow> (FnPanics nil_dereference, x, s')
           | (Some err, s') \<Rightarrow> (ErrResult (map_option PlainError err), x, s')))"

section \<open>The router\<close>

text \<open>
  The values for the handlers. The registry is mapped to \<open>(repo.IRegistry)(nil)\<close>, a nil interface
  value and not a pointer to the interface: it has no dynamic type (\<open>None\<close>).
\<close>

definition demo_values :: "go_type list \<Rightarrow> string + go_type list" where
  "demo_values vs =
     (case MapTo None (MapType BlobStoreType (MapType BlobFSType vs)) of
        Inl p \<Rightarrow> Inl p
      | Inr vs' \<Rightarrow> Inr (MapType ConnType (MapType UserType vs')))"

text \<open>The closure given to \<open>Route\<close> registers on \<open>m\<close>, not on the router \<open>r\<close> that it is given.\<close>

definition demo_routes ::
    "('k, 'c) demo_config \<Rightarrow> BlobStore \<Rightarrow> nat option \<Rightarrow> demo_state mux \<times> demo_state mux \<Rightarrow>
     string + demo_state mux \<times> demo_state mux" where
  "demo_routes D bs nc mr =
     (case mr of (m, r) \<Rightarrow>
        (case Use [Inject demo_values] m of
           Inl p \<Rightarrow> Inl p
         | Inr m1 \<Rightarrow>
             (case With_handle (DC_tree D) [JSON (\<lambda>x. bind_error (DC_bind_link D x)) LinkRequestType] mPOST
                     ConnectorLinkAPIPath
                     (HandlerFunc (DC_implements D)
                        [FSInterface, BlobStoreType, RegistryInterface, UserType, LinkRequestType]
                        (link_handler D bs)) m1 of
                Inl p \<Rightarrow> Inl p
              | Inr m2 \<Rightarrow>
                  (case With_handle (DC_tree D) [JSON (\<lambda>x. bind_error (DC_bind_callback D x)) CallbackRequestType]
                          mPOST ConnectorCallbackAPIPath
                          (HandlerFunc (DC_implements D) [FSInterface, ConnType, CallbackRequestType]
                             (callback_handler D nc)) m2 of
                     Inl p \<Rightarrow> Inl p
                   | Inr m3 \<Rightarrow> Inr (m3, r)))))"

definition demo_router ::
    "('k, 'c) demo_config \<Rightarrow> BlobStore \<Rightarrow> nat option \<Rightarrow> string + demo_state mux" where
  "demo_router D bs nc =
     (case Use [RequestID, RealIP, Logger, Recoverer, Injector] NewRouter of
        Inl p \<Rightarrow> Inl p
      | Inr m \<Rightarrow> Route (DC_tree D) ConnectorAPIPathPrefix (demo_routes D bs nc) m)"

definition demo_main ::
    "('m, 'cl) startup_env \<Rightarrow> string \<Rightarrow> ('k, 'c) demo_config \<Rightarrow> string + demo_state mux" where
  "demo_main e licenseFile D =
     (case NewBlobStore of
        Inl err \<Rightarrow> Inl (err_text err)
      | Inr bs \<Rightarrow>
          (case getNatsClient e licenseFile of
             Inl err \<Rightarrow> Inl (err_text err)
           | Inr nc \<Rightarrow> demo_router D bs nc))"

section \<open>Lemmas\<close>

lemma demo_static:
  "list_all (\<lambda>c. \<not> wildcard c) ConnectorLinkAPIPath" "list_all (\<lambda>c. \<not> wildcard c) ConnectorCallbackAPIPath"
  "list_all (\<lambda>c. \<not> wildcard c) ConnectorAPIPathPrefix" "list_all (\<lambda>c. \<not> wildcard c) (ConnectorAPIPathPrefix @ ''/'')"
  by (simp_all add: ConnectorLinkAPIPath_def ConnectorCallbackAPIPath_def ConnectorAPIPathPrefix_def wildcard_def)

text \<open>Registering a pattern without wildcards.\<close>

lemma handle_static:
  assumes "mux_has E mx rs" "list_all (\<lambda>c. \<not> wildcard c) p" "p \<noteq> []" "hd p = CHR ''/''"
  obtains mx' where "mux_handle E m p h mx = Inr mx'" "mux_has E mx' ((m, p, h) # rs)"
    "Mx_Stack mx' = Mx_Stack (updateRouteHandler mx)" "Mx_Middlewares mx' = Mx_Middlewares mx"
  using mux_handle_ok [OF assms(1,3,4) static_pattern [OF assms(2)], of m h] by blast

text \<open>Nothing registered begins with the path to mount at, so the empty router is mounted.\<close>

lemma demo_mount:
  assumes "mux_has E m [(m1, ConnectorCallbackAPIPath, h1), (m2, ConnectorLinkAPIPath, h2)]"
  shows "\<exists>m' rs. Mount E ConnectorAPIPathPrefix sub m = Inr m' \<and> mux_has E m' rs \<and>
    Mx_Stack m' = Mx_Stack (updateRouteHandler m) \<and>
    map (fst \<circ> snd) rs = [ConnectorAPIPathPrefix @ ''/*'', ConnectorAPIPathPrefix @ ''/'',
      ConnectorAPIPathPrefix, ConnectorCallbackAPIPath, ConnectorLinkAPIPath]"
proof -
  have segs: "pattern_segs ConnectorLinkAPIPath = Inr (map Lit ConnectorLinkAPIPath)"
    "pattern_segs ConnectorCallbackAPIPath = Inr (map Lit ConnectorCallbackAPIPath)"
    using static_pattern(2) demo_static by simp_all
  have "\<not> findPattern (Mx_Tree m) (ConnectorAPIPathPrefix @ ''*'')"
    "\<not> findPattern (Mx_Tree m) (ConnectorAPIPathPrefix @ ''/*'')"
    by (rule findPattern_none [OF assms [unfolded mux_has_def]],
        simp_all add: ConnectorLinkAPIPath_def ConnectorCallbackAPIPath_def ConnectorAPIPathPrefix_def
          segs [unfolded ConnectorLinkAPIPath_def ConnectorCallbackAPIPath_def])+
  moreover have p: "ConnectorAPIPathPrefix \<noteq> []" "hd ConnectorAPIPathPrefix = CHR ''/''"
    "last ConnectorAPIPathPrefix \<noteq> CHR ''/''" "ConnectorAPIPathPrefix @ ''/'' \<noteq> []"
    "hd (ConnectorAPIPathPrefix @ ''/'') = CHR ''/''"
    by (simp_all add: ConnectorAPIPathPrefix_def)
  let ?m = "mALL OR mSTUB" and ?h = "mountHandler sub"
  obtain a where a: "mux_handle E ?m ConnectorAPIPathPrefix ?h m = Inr a"
    "mux_has E a [(?m, ConnectorAPIPathPrefix, ?h), (m1, ConnectorCallbackAPIPath, h1), (m2, ConnectorLinkAPIPath, h2)]"
    "Mx_Stack a = Mx_Stack (updateRouteHandler m)" by (rule handle_static [OF assms demo_static(3) p(1,2)])
  obtain b where b: "mux_handle E ?m (ConnectorAPIPathPrefix @ ''/'') ?h a = Inr b"
    "mux_has E b [(?m, ConnectorAPIPathPrefix @ ''/'', ?h), (?m, ConnectorAPIPathPrefix, ?h),
       (m1, ConnectorCallbackAPIPath, h1), (m2, ConnectorLinkAPIPath, h2)]"
    "Mx_Stack b = Mx_Stack (updateRouteHandler a)" by (rule handle_static [OF a(2) demo_static(4) p(4,5)])
  have q: "(ConnectorAPIPathPrefix @ ''/'') @ ''*'' \<noteq> []" "hd ((ConnectorAPIPathPrefix @ ''/'') @ ''*'') = CHR ''/''"
    by (simp_all add: ConnectorAPIPathPrefix_def)
  obtain c where c: "mux_handle E ?m ((ConnectorAPIPathPrefix @ ''/'') @ ''*'') ?h b = Inr c"
    "mux_has E c [(?m, (ConnectorAPIPathPrefix @ ''/'') @ ''*'', ?h), (?m, ConnectorAPIPathPrefix @ ''/'', ?h),
       (?m, ConnectorAPIPathPrefix, ?h), (m1, ConnectorCallbackAPIPath, h1), (m2, ConnectorLinkAPIPath, h2)]"
    "Mx_Stack c = Mx_Stack (updateRouteHandler b)"
    by (rule mux_handle_ok [OF b(2) q star_pattern [OF demo_static(4)]])
  ultimately have "Mount E ConnectorAPIPathPrefix sub m = Inr c" using p a(1) b(1) by (simp add: Mount_def Let_def)
  moreover have "Mx_Stack c = Mx_Stack (updateRouteHandler m)"
    using a(3) b(3) c(3) by simp
  ultimately show ?thesis
    by (intro exI conjI) (assumption, rule c(2), assumption, simp)
qed

text \<open>The router is built, with the injection of the values in the stack of every request.\<close>

lemma demo_router_built:
  "\<exists>m rs. demo_router D bs nc = Inr m \<and> mux_has (DC_tree D) m rs \<and>
    Mx_Stack m = Some [RequestID, RealIP, Logger, Recoverer, Injector, Inject demo_values] \<and>
    map (fst \<circ> snd) rs = [ConnectorAPIPathPrefix @ ''/*'', ConnectorAPIPathPrefix @ ''/'',
      ConnectorAPIPathPrefix, ConnectorCallbackAPIPath, ConnectorLinkAPIPath]"
proof -
  let ?ms = "[RequestID, RealIP, Logger, Recoverer, Injector]"
  let ?E = "DC_tree D"
  let ?h1 = "chain [JSON (\<lambda>x. bind_error (DC_bind_link D x)) LinkRequestType] (HandlerFunc (DC_implements D)
    [FSInterface, BlobStoreType, RegistryInterface, UserType, LinkRequestType] (link_handler D bs))"
  let ?h2 = "chain [JSON (\<lambda>x. bind_error (DC_bind_callback D x)) CallbackRequestType]
    (HandlerFunc (DC_implements D) [FSInterface, ConnType, CallbackRequestType] (callback_handler D nc))"
  have h: "hd ConnectorLinkAPIPath = CHR ''/''" "ConnectorLinkAPIPath \<noteq> []"
    "hd ConnectorCallbackAPIPath = CHR ''/''" "ConnectorCallbackAPIPath \<noteq> []"
    by (simp_all add: ConnectorLinkAPIPath_def ConnectorCallbackAPIPath_def)
  let ?m0 = "NewRouter\<lparr>Mx_Middlewares := ?ms @ [Inject demo_values]\<rparr>"
  obtain a where a: "mux_handle ?E mPOST ConnectorLinkAPIPath ?h1 ?m0 = Inr a"
    "mux_has ?E a [(mPOST, ConnectorLinkAPIPath, ?h1)]" "Mx_Stack a = Mx_Stack (updateRouteHandler ?m0)"
    by (rule handle_static [OF NewRouter_has(1) demo_static(1) h(2,1)])
  obtain b where b: "mux_handle ?E mPOST ConnectorCallbackAPIPath ?h2 a = Inr b"
    "mux_has ?E b [(mPOST, ConnectorCallbackAPIPath, ?h2), (mPOST, ConnectorLinkAPIPath, ?h1)]"
    "Mx_Stack b = Mx_Stack (updateRouteHandler a)"
    by (rule handle_static [OF a(2) demo_static(2) h(4,3)])
  have st: "Mx_Stack b = Some (?ms @ [Inject demo_values])"
    using a(3) b(3) by (simp add: NewRouter_def)
  have r: "demo_routes D bs nc (NewRouter\<lparr>Mx_Middlewares := ?ms\<rparr>, NewRouter) = Inr (b, NewRouter)"
    using a(1) b(1) by (simp add: demo_routes_def Use_def NewRouter_def With_handle_def)
  have u: "Use ?ms NewRouter = Inr (NewRouter\<lparr>Mx_Middlewares := ?ms\<rparr>)"
    by (simp add: Use_def NewRouter_def)
  obtain m rs where m: "Mount ?E ConnectorAPIPathPrefix NewRouter b = Inr m" "mux_has ?E m rs"
    "Mx_Stack m = Mx_Stack (updateRouteHandler b)"
    "map (fst \<circ> snd) rs = [ConnectorAPIPathPrefix @ ''/*'', ConnectorAPIPathPrefix @ ''/'',
      ConnectorAPIPathPrefix, ConnectorCallbackAPIPath, ConnectorLinkAPIPath]"
    using demo_mount [OF b(2), of NewRouter] by (elim exE conjE) (rule that)
  have "demo_router D bs nc = Inr m"
    by (simp only: demo_router_def Route_def u r m(1) sum.case prod.case)
  moreover have "Mx_Stack m = Some [RequestID, RealIP, Logger, Recoverer, Injector, Inject demo_values]"
    by (simp add: m(3) st)
  ultimately show ?thesis using m(2,4) by (intro exI conjI)
qed

lemma demo_stack_panics:
  assumes "X_Status x = None" "X_Injector x = None"
  shows "\<exists>y. chain [RequestID, RealIP, Logger, Recoverer, Injector, Inject demo_values] h x s = (None, y, s) \<and>
    X_Status y = (if X_Connection x = ''Upgrade'' then None else Some 500) \<and> X_Body y = X_Body x"
  using assms
  by (simp add: RequestID_def RealIP_def Logger_def Recoverer_def Injector_def Inject_def Let_def
      demo_values_def MapTo_def InterfaceOf_def panics_def nil_dereference_def ErrAbortHandler_def
      WriteHeader_def)

lemma demo_answers:
  assumes "getNatsClient e lic = Inr nc"
  obtains m rs where "demo_main e lic D = Inr m" "mux_has (DC_tree D) m rs"
    "map (fst \<circ> snd) rs = [ConnectorAPIPathPrefix @ ''/*'', ConnectorAPIPathPrefix @ ''/'',
      ConnectorAPIPathPrefix, ConnectorCallbackAPIPath, ConnectorLinkAPIPath]"
    "\<forall>x s. fresh_exchange x \<longrightarrow> (\<exists>y. ServeHTTP m x s = (None, y, s) \<and> X_Body y = [] \<and>
      final_status y = (if X_Connection x = ''Upgrade'' then 200 else 500))"
proof -
  obtain m rs where m: "demo_main e lic D = Inr m" "mux_has (DC_tree D) m rs"
    "Mx_Stack m = Some [RequestID, RealIP, Logger, Recoverer, Injector, Inject demo_values]"
    "map (fst \<circ> snd) rs = [ConnectorAPIPathPrefix @ ''/*'', ConnectorAPIPathPrefix @ ''/'',
      ConnectorAPIPathPrefix, ConnectorCallbackAPIPath, ConnectorLinkAPIPath]"
    using demo_router_built assms by (fastforce simp: demo_main_def NewBlobStore_def)
  have "\<exists>y. ServeHTTP m x s = (None, y, s) \<and> X_Body y = [] \<and>
      final_status y = (if X_Connection x = ''Upgrade'' then 200 else 500)"
    if "fresh_exchange x" for x s
  proof -
    let ?x = "x\<lparr>X_Routed := True, X_RoutePath := [], X_RouteMethod := [], X_URLParams := [],
      X_routeParams := [], X_methodNotAllowed := False\<rparr>"
    have "X_Status ?x = None" "X_Injector ?x = None" using that by (simp_all add: fresh_exchange_def)
    from demo_stack_panics [OF this, of "routeHTTP m" s] show ?thesis
      using that by (auto simp: ServeHTTP_def m(3) fresh_exchange_def final_status_def)
  qed
  then show ?thesis by (intro that [OF m(1,2,4)]) blast
qed

section \<open>Properties\<close>

definition sample_demo_config :: "(unit, rest_client) demo_config" where
  "sample_demo_config = \<lparr>DC_implements = \<lambda>_ _. False,
     DC_tree = sample_tree_env,
     DC_bind_link = \<lambda>_. Inr \<lparr>KubeConfig = ''k''\<rparr>,
     DC_bind_callback = \<lambda>_. Inr \<lparr>LinkID = [], ClusterID = []\<rparr>, DC_link_env = \<lambda>_. sample_link_env,
     DC_callback_env = \<lambda>_. sample_callbacks, DC_now = \<lambda>_. 0, DC_yaml = \<lambda>_ _ _. Inr [],
     DC_helm3 = \<lambda>_ _ _. Inr []\<rparr>"

text \<open>C21: The demo server starts whenever it comes by a NATS connection, and then answers nothing: its
  routes are \<open>/link\<close> and \<open>/link/callback\<close> at the root, not below the API prefix, where an empty
  router is mounted; and every request, to whatever path, panics before it is routed, since the
  registry is injected for a nil interface. The client gets an empty response with status 500, or
  200 if it asked for an upgrade, and the server's state does not change.\<close>

theorem demo_server_fails:
  assumes "getNatsClient e lic = Inr nc"
  shows "\<exists>m rs. demo_main e lic D = Inr m \<and> mux_has (DC_tree D) m rs \<and>
    map (fst \<circ> snd) rs = [''/api/v1/connector/*'', ''/api/v1/connector/'', ''/api/v1/connector'',
      ''/link/callback'', ''/link''] \<and>
    (\<forall>x s. fresh_exchange x \<longrightarrow> (\<exists>y. ServeHTTP m x s = (None, y, s) \<and> X_Body y = [] \<and>
       final_status y = (if X_Connection x = ''Upgrade'' then 200 else 500)))"
proof -
  obtain m rs where "demo_main e lic D = Inr m" "mux_has (DC_tree D) m rs"
    "map (fst \<circ> snd) rs = [ConnectorAPIPathPrefix @ ''/*'', ConnectorAPIPathPrefix @ ''/'',
      ConnectorAPIPathPrefix, ConnectorCallbackAPIPath, ConnectorLinkAPIPath]"
    "\<forall>x s. fresh_exchange x \<longrightarrow> (\<exists>y. ServeHTTP m x s = (None, y, s) \<and> X_Body y = [] \<and>
      final_status y = (if X_Connection x = ''Upgrade'' then 200 else 500))"
    by (rule demo_answers [OF assms, where D = D])
  then show ?thesis
    by (auto simp: ConnectorLinkAPIPath_def ConnectorCallbackAPIPath_def ConnectorAPIPathPrefix_def)
qed

theorem demo_server_fails_witness:
  "\<exists>m y. demo_main (sample_startup host_config) [] sample_demo_config = Inr m \<and>
    ServeHTTP m
      \<lparr>X_Method = ''POST'', X_RawPath = [], X_Path = ''/link'', X_Connection = [], X_Wrapped = False,
       X_Injector = None, X_Routed = False, X_RoutePath = [], X_RouteMethod = [], X_URLParams = [],
       X_routeParams = [], X_methodNotAllowed = False, X_Status = None, X_Body = []\<rparr> (empty_demo 7) = (None, y, empty_demo 7) \<and>
    final_status y = 500"
proof -
  let ?x = "\<lparr>X_Method = ''POST'', X_RawPath = [], X_Path = ''/link'', X_Connection = [], X_Wrapped = False,
       X_Injector = None, X_Routed = False, X_RoutePath = [], X_RouteMethod = [], X_URLParams = [],
       X_routeParams = [], X_methodNotAllowed = False, X_Status = None, X_Body = []\<rparr>"
  have n: "getNatsClient (sample_startup host_config) [] = Inr (Some 3)"
    by (simp add: getNatsClient_def sample_own_cluster) (simp add: sample_startup_def)
  from demo_server_fails [OF n, of sample_demo_config] obtain m where m: "demo_main (sample_startup host_config) [] sample_demo_config = Inr m"
    "\<forall>x s. fresh_exchange x \<longrightarrow> (\<exists>y. ServeHTTP m x s = (None, y, s) \<and> X_Body y = [] \<and>
       final_status y = (if X_Connection x = ''Upgrade'' then 200 else 500))"
    by blast
  have "fresh_exchange ?x" by (simp add: fresh_exchange_def)
  with m(2) obtain y where "ServeHTTP m ?x (empty_demo 7) = (None, y, empty_demo 7)"
    "final_status y = (if X_Connection ?x = ''Upgrade'' then 200 else 500)" by blast
  then show ?thesis using m(1) by auto
qed

end
