(* ===== verification/LinkLife.thy ===== *)
theory LinkLife
  imports Agent DemoMain
begin

text \<open>
  Agent and license server together: what the answer to the agent's callback (\<open>Agent\<close>) does to its
  run, for any server, and for the demo server as its \<open>main\<close> makes it (\<open>DemoMain\<close>).
\<close>

section \<open>What the two rely on\<close>

text \<open>
  The manager runs what it was given, until it is asked to stop: the error of the callback is its
  own (documented behaviour of controller-runtime's \<open>Manager.Start\<close>).
\<close>

definition manager_runs ::
    "(string \<Rightarrow> url result) \<Rightarrow> bool \<Rightarrow> (url \<Rightarrow> string \<Rightarrow> bytes \<Rightarrow> post_response result) \<Rightarrow> run_env \<Rightarrow> bool" where
  "manager_runs parse sv post env \<longleftrightarrow>
     (\<forall>cb err ls. callback_Start parse sv post cb = Returned err ls \<longrightarrow> start_manager env cb = err)"

text \<open>
  \<open>http.Post\<close> to a server with this handler, in a state, gives an error of the network, or what the
  handler answers to a POST request to the address that asks for no upgrade.
\<close>

definition posts_to ::
    "'s mux \<Rightarrow> 's \<Rightarrow> (url \<Rightarrow> string \<Rightarrow> bytes \<Rightarrow> post_response result) \<Rightarrow> bool" where
  "posts_to m s post \<longleftrightarrow>
     (\<forall>v ct data resp. post v ct data = Inr resp \<longrightarrow>
       (\<exists>x y t. fresh_exchange x \<and> X_Method x = ''POST'' \<and> X_Path x = Path v \<and> X_Connection x \<noteq> ''Upgrade'' \<and>
          ServeHTTP m x s = (None, y, t) \<and> PR_StatusCode resp = final_status y))"

section \<open>Lemmas\<close>

lemma run_command_serves:
  assumes "AddCallback < RE_phase (run_command env f)"
  obtains cid where "cluster_uid env = Inr cid"
    "RE_phase (run_command env f) = Drained \<longleftrightarrow> start_manager env
      \<lparr>CB_baseURL = baseURL f, CB_req = \<lparr>LinkID = linkID f, ClusterID = cid\<rparr>, CB_log = No_Sink\<rparr> = None"
  using assms
  by (auto simp: run_command_def fail_at_def Let_def phase_less
      split: if_splits option.splits sum.splits prod.splits)

lemma run_command_code:
  "RE_code (run_command env f) = (if RE_phase (run_command env f) = Drained then 0 else 1)"
  by (auto simp: run_command_def fail_at_def Let_def
      split: if_splits option.splits sum.splits prod.splits)

lemma callback_succeeds:
  assumes "ConnectorCallbackEndpoint parse sv (CB_baseURL cb) = Inr v"
  shows "\<exists>err ls. callback_Start parse sv post cb = Returned err ls \<and>
    (err = None \<longleftrightarrow> (\<exists>resp b. post v ''application/json'' (CallbackRequest_marshal (CB_req cb)) = Inr resp \<and>
      PR_StatusCode resp = 200 \<and> PR_Body resp = Inr b))"
  by (auto simp: callback_Start_def assms StatusOK_def split: sum.splits)

lemma agent_stays:
  assumes "manager_runs parse sv post env" "ConnectorCallbackEndpoint parse sv (baseURL f) = Inr v"
    and "cluster_uid env = Inr cid" "AddCallback < RE_phase (run_command env f)"
  shows "RE_phase (run_command env f) = Drained \<longleftrightarrow>
    (\<exists>resp b. post v ''application/json'' (CallbackRequest_marshal \<lparr>LinkID = linkID f, ClusterID = cid\<rparr>) =
      Inr resp \<and> PR_StatusCode resp = 200 \<and> PR_Body resp = Inr b)"
proof -
  let ?cb = "\<lparr>CB_baseURL = baseURL f, CB_req = \<lparr>LinkID = linkID f, ClusterID = cid\<rparr>, CB_log = No_Sink\<rparr>"
  obtain err ls where cb: "callback_Start parse sv post ?cb = Returned err ls"
    "err = None \<longleftrightarrow> (\<exists>resp b. post v ''application/json'' (CallbackRequest_marshal (CB_req ?cb)) = Inr resp \<and>
      PR_StatusCode resp = 200 \<and> PR_Body resp = Inr b)"
    using callback_succeeds [of parse sv ?cb v post] assms(2) by auto
  have "start_manager env ?cb = err" using assms(1) cb(1) by (simp add: manager_runs_def)
  then show ?thesis using run_command_serves [OF assms(4)] assms(3) cb(2) by auto
qed

section \<open>Properties\<close>


text \<open>A manager that only runs the callback, and a server that answers everything with one status.\<close>

definition sample_manager ::
    "(string \<Rightarrow> url result) \<Rightarrow> (url \<Rightarrow> string \<Rightarrow> bytes \<Rightarrow> post_response result) \<Rightarrow> run_env" where
  "sample_manager parse post = sample_run\<lparr>start_manager := \<lambda>cb. (case callback_Start parse False post cb of
     Panic err \<Rightarrow> Some err | Returned err _ \<Rightarrow> err)\<rparr>"


definition sample_flags :: run_flags where
  "sample_flags = default_flags\<lparr>linkID := ''l'', natsAddr := ''nats://n'', natsCredFile := ''c''\<rparr>"

lemma sample_manager_runs: "manager_runs parse False post (sample_manager parse post)"
  by (simp add: manager_runs_def sample_manager_def)


lemma sample_endpoint: "\<exists>v. ConnectorCallbackEndpoint parse False (baseURL sample_flags) = Inr v"
  by (simp add: ConnectorCallbackEndpoint_def APIServerAddress_def sample_flags_def default_flags_def)



text \<open>C20: No agent runs against the demo server. As soon as the server has come by a NATS connection,
  its \<open>main\<close> serves a handler that answers every POST with a failure, in each of its states; so an
  agent with the server's address as its base URL ends with code 1, whatever its flags are, whether
  the link was generated or not, and also where it got as far as starting its manager.\<close>

theorem demo_server_ends_agent:
  assumes "getNatsClient e lic = Inr nc"
  shows "\<exists>m. demo_main e lic D = Inr m \<and>
    (\<forall>s post parse sv env f v. posts_to m s post \<longrightarrow> manager_runs parse sv post env \<longrightarrow>
       ConnectorCallbackEndpoint parse sv (baseURL f) = Inr v \<longrightarrow> RE_code (run_command env f) = 1)"
proof -
  obtain m rs where m: "demo_main e lic D = Inr m"
    "\<forall>x s. fresh_exchange x \<longrightarrow> (\<exists>y. ServeHTTP m x s = (None, y, s) \<and> X_Body y = [] \<and>
      final_status y = (if X_Connection x = ''Upgrade'' then 200 else 500))"
    by (rule demo_answers [OF assms, where D = D])
  have "RE_code (run_command env f) = 1"
    if p: "posts_to m s post" and r: "manager_runs parse sv post env"
      and v: "ConnectorCallbackEndpoint parse sv (baseURL f) = Inr v" for s post parse sv env f v
  proof (cases "AddCallback < RE_phase (run_command env f)")
    case True
    then obtain cid where cid: "cluster_uid env = Inr cid" by (rule run_command_serves)
    have "PR_StatusCode resp \<noteq> 200" if a: "post v ct data = Inr resp" for ct data resp
    proof -
      obtain x y t where x: "fresh_exchange x" "X_Connection x \<noteq> ''Upgrade''" "ServeHTTP m x s = (None, y, t)"
        "PR_StatusCode resp = final_status y"
        using p a unfolding posts_to_def by blast
      then have "final_status y = 500" using m(2) by (metis Pair_inject)
      then show ?thesis using x(4) by simp
    qed
    then show ?thesis using agent_stays [OF r v cid True] by (auto simp: run_command_code)
  next
    case False
    then have "RE_phase (run_command env f) \<noteq> Drained" by (auto simp: phase_less)
    then show ?thesis by (simp add: run_command_code)
  qed
  with m(1) show ?thesis by (intro exI [of _ m]) simp
qed

text \<open>The POST of a client that sends the address's path.\<close>

definition serve_post ::
    "'s mux \<Rightarrow> 's \<Rightarrow> url \<Rightarrow> string \<Rightarrow> bytes \<Rightarrow> post_response result" where
  "serve_post m s v ct data =
     (case ServeHTTP m \<lparr>X_Method = ''POST'', X_RawPath = [], X_Path = Path v, X_Connection = [],
         X_Wrapped = False, X_Injector = None, X_Routed = False, X_RoutePath = [], X_RouteMethod = [],
         X_URLParams = [], X_routeParams = [], X_methodNotAllowed = False, X_Status = None, X_Body = []\<rparr> s of
        (None, y, t) \<Rightarrow> Inr \<lparr>PR_StatusCode = final_status y, PR_Status = int_text (int (final_status y)),
          PR_Body = Inr (X_Body y)\<rparr>
      | (Some p, y, t) \<Rightarrow> Inl io_EOF)"

lemma serve_post_posts: "posts_to m s (serve_post m s)"
  unfolding posts_to_def serve_post_def
  by (auto simp: fresh_exchange_def split: prod.splits option.splits intro!: exI)

theorem demo_server_ends_agent_witness:
  "\<exists>m. demo_main (sample_startup host_config) [] sample_demo_config = Inr m \<and>
    RE_code (run_command (sample_manager (\<lambda>_. Inl io_EOF) (serve_post m (empty_demo 7))) sample_flags) = 1"
proof -
  have n: "getNatsClient (sample_startup host_config) [] = Inr (Some 3)"
    by (simp add: getNatsClient_def sample_own_cluster) (simp add: sample_startup_def)
  obtain v where v: "ConnectorCallbackEndpoint (\<lambda>_. Inl io_EOF) False (baseURL sample_flags) = Inr v"
    using sample_endpoint by blast
  from demo_server_ends_agent [OF n, of sample_demo_config] obtain m where
    m: "demo_main (sample_startup host_config) [] sample_demo_config = Inr m"
    and exits: "\<And>s post parse sv env f v. posts_to m s post \<Longrightarrow> manager_runs parse sv post env \<Longrightarrow>
       ConnectorCallbackEndpoint parse sv (baseURL f) = Inr v \<Longrightarrow> RE_code (run_command env f) = 1"
    by (elim exE conjE) simp
  from exits [OF serve_post_posts sample_manager_runs v] m show ?thesis by (intro exI [of _ m]) simp
qed

end
