(* ===== verification/ProxyServer.thy ===== *)
theory ProxyServer
  imports NatsTransport Router NatsClient
begin

text \<open>
  \<open>cmd/proxy-server\<close>: a server that is to forward requests for the services of a cluster through
  the cluster's tunnel. The name of a service in the path is split as in the API server's proxy
  (apimachinery, \<open>port_split.go\<close>).
\<close>

section \<open>Names of services\<close>

definition validSchemes :: "string list" where
  "validSchemes = [''http'', ''https'', []]"

definition SplitSchemeNamePort :: "string \<Rightarrow> string \<times> string \<times> string \<times> bool" where
  "SplitSchemeNamePort s =
     (let (scheme, name, port, ok) =
        (case split_on (CHR '':'') s of
           [n] \<Rightarrow> ([], n, [], True)
         | [n, p] \<Rightarrow> ([], n, p, True)
         | [sc, n, p] \<Rightarrow> (sc, n, p, True)
         | _ \<Rightarrow> ([], [], [], False))
      in if ok \<and> length name > 0 \<and> scheme \<in> set validSchemes then (scheme, name, port, True)
         else ([], [], [], False))"

definition JoinSchemeNamePort :: "string \<Rightarrow> string \<Rightarrow> string \<Rightarrow> string" where
  "JoinSchemeNamePort scheme name port =
     (if length scheme > 0 then scheme @ '':'' @ name @ '':'' @ port
      else if length port > 0 then name @ '':'' @ port else name)"

text \<open>\<open>net.JoinHostPort\<close>.\<close>

definition JoinHostPort :: "string \<Rightarrow> string \<Rightarrow> string" where
  "JoinHostPort host port =
     (if CHR '':'' \<in> set host then ''['' @ host @ '']:'' @ port else host @ '':'' @ port)"

text \<open>Splitting undoes joining, on names and ports without colons and the schemes allowed.\<close>

definition service_ok :: "string \<times> string \<times> string \<Rightarrow> bool" where
  "service_ok x = (case x of (scheme, name, port) \<Rightarrow>
     scheme \<in> set validSchemes \<and> name \<noteq> [] \<and> CHR '':'' \<notin> set name \<and> CHR '':'' \<notin> set port)"

interpretation service_codec: codec
  "\<lambda>(scheme, name, port). JoinSchemeNamePort scheme name port"
  "\<lambda>s. case SplitSchemeNamePort s of (sc, n, p, ok) \<Rightarrow> if ok then Some (sc, n, p) else None"
  service_ok
proof unfold_locales
  fix x :: "string \<times> string \<times> string"
  assume "service_ok x"
  moreover obtain sc n p where x: "x = (sc, n, p)" by (cases x)
  ultimately have ok: "sc \<in> set validSchemes" "n \<noteq> []" "CHR '':'' \<notin> set n" "CHR '':'' \<notin> set p"
    by (simp_all add: service_ok_def)
  then have "CHR '':'' \<notin> set sc" by (auto simp: validSchemes_def)
  with ok show "(case SplitSchemeNamePort (case x of (sc, n, p) \<Rightarrow> JoinSchemeNamePort sc n p) of
      (sc, n, p, ok) \<Rightarrow> if ok then Some (sc, n, p) else None) = Some x"
    using split_on_append [of "CHR '':''" n p] split_on_append [of "CHR '':''" sc "n @ CHR '':'' # p"]
    by (auto simp: x SplitSchemeNamePort_def JoinSchemeNamePort_def split_on_no_sep validSchemes_def)
qed

section \<open>The handler\<close>

record proxy_state =
  PS_cache :: tlsTransportCache
  PS_conn :: nats_conn
  PS_ctr :: "32 word"
  PS_buf :: gobuf

text \<open>
  What the handler uses besides the transport: the bytes that the request is written as for a URL
  and its deadline, the clock, the text of a quoted string and of a client's error, where a response
  with a status redirects to (by its headers), and what the edge answers to a request that was sent (a status, and the body that was copied before the
  error it ended with, if any).
\<close>

record proxy_env =
  PE_world :: world
  PE_xid :: xid_env
  PE_now :: int
  PE_request :: "exchange \<Rightarrow> url \<Rightarrow> http_request"
  PE_quote :: "string \<Rightarrow> string"
  PE_url_error :: "exchange \<Rightarrow> url \<Rightarrow> go_error \<Rightarrow> go_error"
  PE_redirect :: "exchange \<Rightarrow> url \<Rightarrow> nat \<Rightarrow> url option result"
  PE_response :: "subscription \<Rightarrow> duration \<Rightarrow> nats_conn \<Rightarrow> (nat \<times> bytes \<times> go_error option) result"

text \<open>
  The HTTP client's \<open>Do\<close>: the transport it was made with is a NATS transport under wrappers. (Any
  other, which there never is, would not be the tunnel's concern.) Of its own checks none fails, as
  the handler sets the request's URL and clears its \<open>RequestURI\<close>. A response that redirects is
  followed by a request to its address, up to ten requests in all.
\<close>

definition send_once ::
    "proxy_env \<Rightarrow> hub_client \<Rightarrow> exchange \<Rightarrow> url \<Rightarrow> proxy_state \<Rightarrow>
     (nat \<times> bytes \<times> go_error option) result \<times> proxy_state" where
  "send_once E c x u s =
     (case rt_base (HCl_Transport c) of
        NatsRT a \<Rightarrow>
          (case heap (PS_cache s) a of
             None \<Rightarrow> (Inl (ErrNew ''no such transport''), s)
           | Some t \<Rightarrow>
               (case RoundTrip (PE_xid E) (PE_now E) t (PE_request E x u) (PS_buf s) (PS_conn s) (PS_ctr s) of
                  (Inl err, b, nc, ctr) \<Rightarrow>
                    (Inl (PE_url_error E x u err), s\<lparr>PS_buf := b, PS_conn := nc, PS_ctr := ctr\<rparr>)
                | (Inr (sub, timeout), b, nc, ctr) \<Rightarrow>
                    ((case PE_response E sub timeout nc of
                        Inl err \<Rightarrow> Inl (PE_url_error E x u err)
                      | Inr r \<Rightarrow> Inr r),
                     s\<lparr>PS_buf := b, PS_conn := nc, PS_ctr := ctr\<rparr>)))
      | _ \<Rightarrow> (Inl (ErrNew ''not a tunnel''), s))"

fun client_rounds ::
    "nat \<Rightarrow> proxy_env \<Rightarrow> hub_client \<Rightarrow> exchange \<Rightarrow> url \<Rightarrow> proxy_state \<Rightarrow>
     (nat \<times> bytes \<times> go_error option) result \<times> proxy_state" where
  "client_rounds 0 E c x u s = (Inl (PE_url_error E x u (ErrNew ''stopped after 10 redirects'')), s)"
| "client_rounds (Suc n) E c x u s =
     (case send_once E c x u s of
        (Inl err, s') \<Rightarrow> (Inl err, s')
      | (Inr r, s') \<Rightarrow>
          (case PE_redirect E x u (fst r) of
             Inl err \<Rightarrow> (Inl (PE_url_error E x u err), s')
           | Inr None \<Rightarrow> (Inr r, s')
           | Inr (Some u') \<Rightarrow> client_rounds n E c x u' s'))"

definition client_Do ::
    "proxy_env \<Rightarrow> hub_client \<Rightarrow> exchange \<Rightarrow> url \<Rightarrow> proxy_state \<Rightarrow>
     (nat \<times> bytes \<times> go_error option) result \<times> proxy_state" where
  "client_Do E c x u s = client_rounds 10 E c x u s"

definition NewBadRequest :: "string \<Rightarrow> handler_error" where
  "NewBadRequest reason = StatusError \<lparr>AS_Kind = [], AS_APIVersion = [], AS_Status = ''Failure'',
     AS_Message = reason, AS_Reason = ''BadRequest'', AS_Code = 400\<rparr>"

definition forward_path :: "string \<Rightarrow> string" where
  "forward_path p =
     (let parts = split_on (CHR ''/'') p
      in if length parts > 2 then path_join (drop 2 parts) else ''/'')"

definition proxy_handle ::
    "proxy_env \<Rightarrow> nat option \<Rightarrow> exchange \<Rightarrow> proxy_state \<Rightarrow> handler_result \<times> exchange \<times> proxy_state" where
  "proxy_handle E nc x s =
     (let linkID = URLParam x ''linkID''; name = URLParam x ''name'';
          (svcScheme, svcName, portStr, valid) = SplitSchemeNamePort name
      in if \<not> valid
         then (ErrResult (Some (NewBadRequest (''invalid service request '' @ PE_quote E name))), x, s)
         else (case NewClient (PE_world E) nc (CrossAccountNames linkID) (PS_cache s) of
             (Inl err, cache) \<Rightarrow> (ErrResult (Some (PlainError err)), x, s\<lparr>PS_cache := cache\<rparr>)
           | (Inr c, cache) \<Rightarrow>
               let u2 = \<lparr>Scheme = svcScheme, Host = JoinHostPort svcName portStr,
                     Path = forward_path (X_Path x)\<rparr>
               in (case client_Do E c x u2 (s\<lparr>PS_cache := cache\<rparr>) of
                     (Inl err, s') \<Rightarrow> (ErrResult (Some (PlainError err)), x, s')
                   | (Inr (status, body, err), s') \<Rightarrow>
                       (ErrResult (map_option PlainError err),
                        (let y = WriteHeader status x in y\<lparr>X_Body := X_Body y @ body\<rparr>), s'))))"

section \<open>The server\<close>

record proxy_config =
  PC_implements :: "go_type \<Rightarrow> go_type \<Rightarrow> bool"
  PC_tree :: tree_env
  PC_bind :: "exchange \<Rightarrow> handler_error option"
  PC_env :: proxy_env

definition NatsConnType :: go_type where "NatsConnType = Ptr (Concrete ''nats.Conn'')"
definition LinkRequestObj :: go_type where "LinkRequestObj = Concrete ''shared.LinkRequest''"

definition proxy_pattern :: string where "proxy_pattern = ''/{cluster_id}/{name}/''"

definition proxy_values :: "go_type list \<Rightarrow> string + go_type list" where
  "proxy_values vs = Inr (MapType NatsConnType vs)"

definition proxy_routes ::
    "proxy_config \<Rightarrow> nat option \<Rightarrow> proxy_state mux \<times> proxy_state mux \<Rightarrow>
     string + proxy_state mux \<times> proxy_state mux" where
  "proxy_routes C nc mr =
     (case mr of (m, r) \<Rightarrow>
        (case Use [Inject proxy_values] m of
           Inl p \<Rightarrow> Inl p
         | Inr m1 \<Rightarrow>
             (case With_HandleFunc (PC_tree C) [JSON (PC_bind C) LinkRequestObj] proxy_pattern
                     (HandlerFunc (PC_implements C) [WriterType, RequestType, NatsConnType]
                        (proxy_handle (PC_env C) nc)) m1 of
                Inl p \<Rightarrow> Inl p
              | Inr m2 \<Rightarrow> Inr (m2, r))))"

text \<open>The command has a \<open>getNatsClient\<close> of its own, the same function again.\<close>

definition proxy_getNatsClient :: "('m, 'cl) startup_env \<Rightarrow> string \<Rightarrow> nat option result" where
  "proxy_getNatsClient e licenseFile =
     (case own_cluster e of
        Inl err \<Rightarrow> Inl err
      | Inr cid \<Rightarrow> SU_connect e (SU_config e) cid licenseFile)"

lemma proxy_getNatsClient_same: "proxy_getNatsClient = getNatsClient"
  by (intro ext) (simp add: proxy_getNatsClient_def getNatsClient_def)

definition proxy_main ::
    "('m, 'cl) startup_env \<Rightarrow> string \<Rightarrow> proxy_config \<Rightarrow> string + proxy_state mux" where
  "proxy_main e licenseFile C =
     (case proxy_getNatsClient e licenseFile of
        Inl err \<Rightarrow> Inl (err_text err)
      | Inr nc \<Rightarrow>
          (case Use [RequestID, RealIP, Logger, Recoverer, Injector] NewRouter of
             Inl p \<Rightarrow> Inl p
           | Inr m \<Rightarrow> Route (PC_tree C) ''/'' (proxy_routes C nc) m))"

section \<open>Lemmas\<close>

text \<open>Nothing goes out for an empty link id.\<close>

lemma RoundTrip_bad:
  assumes "badSubject (GetLinkID (Names t))"
  shows "\<exists>err b nc' ctr'. RoundTrip xe now t r b0 nc ctr = (Inl err, b, nc', ctr') \<and>
    outbox nc' = outbox nc \<and> subs nc' = subs nc"
  by (auto simp: RoundTrip_def Proxy_send_bad [OF assms] split: sum.splits prod.splits)

lemma client_Do_bad:
  assumes "rt_base (HCl_Transport c) = NatsRT a" "heap (PS_cache s) a = Some t"
    "badSubject (GetLinkID (Names t))"
  shows "\<exists>err s'. client_Do E c x u s = (Inl err, s') \<and> outbox (PS_conn s') = outbox (PS_conn s) \<and>
    subs (PS_conn s') = subs (PS_conn s)"
  using RoundTrip_bad [OF assms(3), of "PE_xid E" "PE_now E" "PE_request E x u" "PS_buf s" "PS_conn s"
      "PS_ctr s"] assms(1,2)
  by (auto simp: client_Do_def send_once_def numeral_eq_Suc)

text \<open>What \<open>NewClient\<close> makes: a client over a transport of the names' link.\<close>

lemma NewClient_link:
  assumes "cache_inv s" "NewClient w nc n s = (Inr c, s')"
  obtains a t where "rt_base (HCl_Transport c) = NatsRT a" "heap s' a = Some t"
    "GetLinkID (Names t) = GetLinkID n"
proof -
  obtain r cfg' where "New (W_env w) (W_fs w) (W_crypto w) empty_Config nc n Timeout s = (Inr r, cfg', s')"
    and c: "c = \<lparr>HCl_Transport = r\<rparr>"
    using assms(2) by (auto simp: NewClient_def hub_New_def split: sum.splits prod.splits)
  then obtain a where g: "cache_get (W_fs w) (W_crypto w) empty_Config nc n Timeout s = (Inr a, cfg', s')"
    "rt_base r = NatsRT a" "Proxy (empty_Config :: rt Config) = None"
    using New_ok by metis
  obtain t and c1 :: "rt Config" where "heap s' a = Some t" "serves (config_key c1 n) t"
    by (rule cache_get_serves [OF assms(1) g(1,3)]) (rule that)
  with g(2) c that show ?thesis by (simp add: serves_def config_key_link)
qed

lemma empty_link_bad: "badSubject []"
  by (simp add: badSubject_def)

text \<open>The handler fails on every request that comes without a parameter \<open>linkID\<close>.\<close>

lemma proxy_handle_fails:
  assumes "cache_inv (PS_cache s)" "''linkID'' \<notin> fst ` set (X_URLParams x)"
  shows "\<exists>err s'. proxy_handle E nc x s = (ErrResult (Some err), x, s') \<and>
    AS_Code (error_status (Some err)) \<in> {400, 500} \<and>
    outbox (PS_conn s') = outbox (PS_conn s) \<and> subs (PS_conn s') = subs (PS_conn s)"
proof -
  have "map_of (rev (X_URLParams x)) ''linkID'' = None"
    using assms(2) by (simp add: map_of_eq_None_iff)
  then have l: "URLParam x ''linkID'' = []" by (simp add: URLParam_def)
  obtain sc n p v where sp: "SplitSchemeNamePort (URLParam x ''name'') = (sc, n, p, v)"
    by (metis prod.exhaust)
  obtain r cache where nc: "NewClient (PE_world E) nc (CrossAccountNames []) (PS_cache s) = (r, cache)"
    by (metis prod.exhaust)
  show ?thesis
  proof (cases v)
    case False
    then show ?thesis
      by (simp add: proxy_handle_def sp NewBadRequest_def error_status_def Let_def)
  next
    case True
    show ?thesis
    proof (cases r)
      case (Inl err)
      with True nc show ?thesis
        by (simp add: proxy_handle_def sp l error_status_def ErrorToAPIStatus_def)
    next
      case (Inr c)
      obtain a t where h: "rt_base (HCl_Transport c) = NatsRT a" "heap cache a = Some t"
        "GetLinkID (Names t) = GetLinkID (CrossAccountNames [])"
        using NewClient_link [OF assms(1) nc [unfolded Inr]] .
      have at: "heap (PS_cache (s\<lparr>PS_cache := cache\<rparr>)) a = Some t" "badSubject (GetLinkID (Names t))"
        using h empty_link_bad by simp_all
      let ?u = "\<lparr>Scheme = sc, Host = JoinHostPort n p, Path = forward_path (X_Path x)\<rparr>"
      obtain err s' where "client_Do E c x ?u (s\<lparr>PS_cache := cache\<rparr>) = (Inl err, s')"
        "outbox (PS_conn s') = outbox (PS_conn s)" "subs (PS_conn s') = subs (PS_conn s)"
        using client_Do_bad [OF h(1) at, of E x ?u] by auto
      with True nc Inr show ?thesis
        by (simp add: proxy_handle_def sp l error_status_def ErrorToAPIStatus_def Let_def)
    qed
  qed
qed

text \<open>A request that was turned away: nothing went out, and the status is one of an error.\<close>

definition turned_away :: "proxy_state \<Rightarrow> string option \<times> exchange \<times> proxy_state \<Rightarrow> bool" where
  "turned_away s r \<longleftrightarrow> (\<exists>y s'. r = (None, y, s') \<and> X_Status y \<in> Some ` {400, 404, 405, 422, 500} \<and>
     outbox (PS_conn s') = outbox (PS_conn s) \<and> subs (PS_conn s') = subs (PS_conn s))"

text \<open>What \<open>NewBindingError\<close> and \<open>NewBadRequest\<close> give.\<close>

definition bind_codes :: "(exchange \<Rightarrow> handler_error option) \<Rightarrow> bool" where
  "bind_codes bind \<longleftrightarrow> (\<forall>x err. bind x = Some err \<longrightarrow> AS_Code (error_status (Some err)) \<in> {400, 422, 500})"

lemma NotFound_away: "X_Status x = None \<Longrightarrow> turned_away s (NotFound x s)"
  by (simp add: NotFound_def turned_away_def write_body_def WriteHeader_def Let_def)

definition proxy_injected :: "go_type list" where
  "proxy_injected = [NatsConnType, ResponseWriterType, WrapWriterType, WriterType, RequestType, ContextType]"

lemma proxy_endpoint_away:
  assumes "cache_inv (PS_cache s)" "bind_codes bind" "X_Status x = None"
    "X_Injector x = Some proxy_injected" "''linkID'' \<notin> fst ` set (X_URLParams x)"
  shows "turned_away s (chain [JSON bind LinkRequestObj]
    (HandlerFunc imp [WriterType, RequestType, NatsConnType] (proxy_handle E nc)) x s)"
proof (cases "bind x")
  case (Some err)
  then have "AS_Code (error_status (Some err)) \<in> {400, 422, 500}"
    using assms(2) unfolding bind_codes_def by blast
  with Some assms(3,4) show ?thesis
    by (auto simp: JSON_def turned_away_def APIError_status)
next
  case None
  let ?vs = "ContextType # LinkRequestObj # proxy_injected"
  let ?x = "x\<lparr>X_Injector := Some ?vs\<rparr>"
  have "''linkID'' \<notin> fst ` set (X_URLParams ?x)" using assms(5) by simp
  from proxy_handle_fails [OF assms(1) this] obtain err s' where h:
    "proxy_handle E nc ?x s = (ErrResult (Some err), ?x, s')"
    "AS_Code (error_status (Some err)) \<in> {400, 500}"
    "outbox (PS_conn s') = outbox (PS_conn s)" "subs (PS_conn s') = subs (PS_conn s)" by blast
  have "list_all (GetVal imp ?vs) [WriterType, RequestType, NatsConnType]"
    by (simp add: GetVal_def proxy_injected_def)
  then have "chain [JSON bind LinkRequestObj]
      (HandlerFunc imp [WriterType, RequestType, NatsConnType] (proxy_handle E nc)) x s =
      (None, APIError (Some err) ?x, s')"
    using None assms(4) h(1) by (simp add: JSON_def HandlerFunc_def MapType_def)
  moreover have "X_Status ?x = None" using assms(3) by simp
  ultimately show ?thesis using h(2,3,4) APIError_status [of ?x] by (auto simp: turned_away_def)
qed

definition proxy_segs :: "seg list" where
  "proxy_segs = [Lit (CHR ''/''), Par (CHR ''/''), Lit (CHR ''/''), Par (CHR ''/''), Lit (CHR ''/'')]"

lemma proxy_pattern_segs:
  "patParamKeys proxy_pattern = Inr [''cluster_id'', ''name'']" "pattern_segs proxy_pattern = Inr proxy_segs"
  "compiles E proxy_segs"
  by (code_simp, code_simp, simp add: compiles_def proxy_segs_def)

lemma root_pattern_segs:
  "patParamKeys ''/*'' = Inr [''*'']" "pattern_segs ''/*'' = Inr (map Lit ''/'' @ [Star])"
  "compiles E (map Lit ''/'' @ [Star])"
  using star_pattern [of "''/''"] by (simp_all add: wildcard_def compiles_def)

text \<open>The paths that match the pattern have exactly two parts and end in a slash.\<close>

definition service_path :: "string \<Rightarrow> bool" where
  "service_path p \<longleftrightarrow> (\<exists>c n. p = ''/'' @ c @ ''/'' @ n @ ''/'' \<and> CHR ''/'' \<notin> set c \<and> CHR ''/'' \<notin> set n)"

lemma par_then: "matches E L (Par t # segs) p ws \<Longrightarrow>
    \<exists>v q us. p = v @ q \<and> ws = v # us \<and> CHR ''/'' \<notin> set v \<and> matches E L segs q us"
  by (elim matches_ParE) auto

lemma proxy_segs_match: "matches E L proxy_segs p ws \<Longrightarrow> service_path p"
  unfolding proxy_segs_def service_path_def by (auto simp: matches_Lit dest!: par_then) blast

text \<open>The two routes: the handler, and the empty router that is mounted at the root.\<close>

definition proxy_route :: "proxy_config \<Rightarrow> nat option \<Rightarrow> proxy_state handler" where
  "proxy_route C nc = chain [JSON (PC_bind C) LinkRequestObj]
     (HandlerFunc (PC_implements C) [WriterType, RequestType, NatsConnType] (proxy_handle (PC_env C) nc))"

definition proxy_table :: "proxy_config \<Rightarrow> nat option \<Rightarrow> proxy_state handler registration list" where
  "proxy_table C nc =
     [(mALL OR mSTUB, ''/*'', mountHandler NewRouter), (mALL, proxy_pattern, proxy_route C nc)]"

definition proxy_stack :: "proxy_state middleware list" where
  "proxy_stack = [RequestID, RealIP, Logger, Recoverer, Injector, Inject proxy_values]"

lemma proxy_main_built:
  assumes "getNatsClient e lic = Inr nc"
  obtains m where "proxy_main e lic C = Inr m" "mux_has (PC_tree C) m (proxy_table C nc)"
    "Mx_Stack m = Some proxy_stack"
proof -
  let ?ms = "[RequestID, RealIP, Logger, Recoverer, Injector]" and ?E = "PC_tree C"
  have u: "Use ?ms NewRouter = Inr (NewRouter\<lparr>Mx_Middlewares := ?ms\<rparr>)"
    by (simp add: Use_def NewRouter_def)
  let ?m0 = "NewRouter\<lparr>Mx_Middlewares := proxy_stack\<rparr>"
  have p: "proxy_pattern \<noteq> []" "hd proxy_pattern = CHR ''/''" "\<not> contains_any proxy_pattern [CHR '' '', CHR 0x09]"
    by (simp_all add: proxy_pattern_def contains_any_def)
  obtain a where a: "mux_handle ?E mALL proxy_pattern (proxy_route C nc) ?m0 = Inr a"
    "mux_has ?E a [(mALL, proxy_pattern, proxy_route C nc)]" "Mx_Stack a = Mx_Stack (updateRouteHandler ?m0)"
    by (rule mux_handle_ok [OF NewRouter_has(1) p(1,2) proxy_pattern_segs])
  have r: "proxy_routes C nc (NewRouter\<lparr>Mx_Middlewares := ?ms\<rparr>, NewRouter) = Inr (a, NewRouter)"
    using a(1) p(3)
    by (simp add: proxy_routes_def Use_def NewRouter_def With_HandleFunc_def With_handle_def proxy_route_def
        proxy_stack_def)
  have "\<not> findPattern (Mx_Tree a) ''/*''" "\<not> findPattern (Mx_Tree a) ''//*''"
    by (rule findPattern_none [OF a(2) [unfolded mux_has_def]],
        simp_all add: proxy_pattern_segs(2), simp_all add: proxy_segs_def)+
  moreover obtain m where m: "mux_handle ?E (mALL OR mSTUB) ''/*'' (mountHandler NewRouter) a = Inr m"
    "mux_has ?E m (proxy_table C nc)" "Mx_Stack m = Mx_Stack (updateRouteHandler a)"
    unfolding proxy_table_def
    by (rule mux_handle_ok [OF a(2) _ _ root_pattern_segs,
          where m = "mALL OR mSTUB" and h = "mountHandler NewRouter"]) simp_all
  ultimately have "Mount ?E ''/'' NewRouter a = Inr m" by (simp add: Mount_def Let_def)
  then have "proxy_main e lic C = Inr m"
    by (simp only: proxy_main_def proxy_getNatsClient_same assms Route_def u r sum.case prod.case)
  moreover have "Mx_Stack m = Some proxy_stack" using a(3) m(3) by (simp add: NewRouter_def)
  ultimately show thesis using m(2) that by blast
qed

text \<open>A request that is routed is turned away; it gets to the handler only on the path of a service.\<close>

lemma proxy_route_away:
  assumes "cache_inv (PS_cache s)" "bind_codes (PC_bind C)" "X_Status x = None"
    "X_Injector x = Some proxy_injected" "X_URLParams x = []" "mux_has E m (proxy_table C nc)"
    "\<not> X_methodNotAllowed x" "X_RouteMethod x = []" "route_path x \<noteq> []"
  shows "turned_away s (routeHTTP m x s) \<and>
    (\<not> service_path (route_path x) \<longrightarrow> (\<exists>y. routeHTTP m x s = (None, y, s) \<and> X_Status y \<in> Some ` {404, 405}))"
proof -
  have none: "turned_away s (h y s) \<and> (\<exists>z. h y s = (None, z, s) \<and> X_Status z \<in> Some ` {404, 405})"
    if "X_Status y = None" "h = methodNotAllowed \<or> h = NotFound \<or> h = mountHandler NewRouter" for y h
    using that
    by (auto simp: methodNotAllowed_def NotFound_def mountHandler_def ServeHTTP_def NewRouter_def
        turned_away_def write_body_def WriteHeader_def Let_def)
  from assms(6-9) show ?thesis
  proof (cases rule: routeHTTP_cases [where s = s])
    case unknown
    then show ?thesis
      using none [of "x\<lparr>X_RouteMethod := X_Method x\<rparr>" methodNotAllowed] assms(3) by simp
  next
    case (not_found na)
    then show ?thesis
      using none [of "x\<lparr>X_RouteMethod := X_Method x, X_routeParams := [], X_methodNotAllowed := na\<rparr>"
        "if na then methodNotAllowed else NotFound"] assms(3) by simp
  next
    case (found k m' p h keys segs ws na)
    let ?x = "x\<lparr>X_RouteMethod := X_Method x, X_routeParams := zip keys ws,
         X_URLParams := X_URLParams x @ zip keys ws, X_methodNotAllowed := na\<rparr>"
    have x: "X_Status ?x = None" "X_Injector ?x = Some proxy_injected" using assms(3,4) by simp_all
    show ?thesis
    proof (cases "h = proxy_route C nc \<and> p = proxy_pattern")
      case True
      then have k: "keys = [''cluster_id'', ''name'']" and sp: "service_path (route_path x)"
        using found(4-6) proxy_pattern_segs(1,2) proxy_segs_match by auto
      have "''linkID'' \<notin> fst ` set (zip [''cluster_id'', ''name''] ws)" by (auto dest: set_zip_leftD)
      then have "''linkID'' \<notin> fst ` set (X_URLParams ?x)" using k assms(5) by simp
      from proxy_endpoint_away [OF assms(1,2) x this] show ?thesis
        using found(8) True sp by (simp add: proxy_route_def)
    next
      case False
      then have "h = mountHandler NewRouter" using found(2) by (auto simp: proxy_table_def)
      then show ?thesis using none [OF x(1), of h] found(8) by simp
    qed
  qed
qed

lemma proxy_stack_away:
  assumes "X_Injector x = None"
    "turned_away s (h (x\<lparr>X_Wrapped := True, X_Injector := Some proxy_injected\<rparr>) s)"
  shows "turned_away s (chain proxy_stack h x s)"
proof -
  have "chain proxy_stack h x s = Recoverer (\<lambda>_. h (x\<lparr>X_Wrapped := True, X_Injector := Some proxy_injected\<rparr>)) x s"
    using assms(1)
    by (simp add: proxy_stack_def RequestID_def RealIP_def Logger_def Recoverer_def Injector_def
        Inject_def proxy_values_def MapType_def proxy_injected_def)
  with assms(2) show ?thesis by (auto simp: turned_away_def Recoverer_def)
qed

lemma proxy_stack_same:
  assumes "X_Injector x = None"
    "h (x\<lparr>X_Wrapped := True, X_Injector := Some proxy_injected\<rparr>) s = (None, y, s')"
  shows "chain proxy_stack h x s = (None, y, s')"
  using assms
  by (simp add: proxy_stack_def RequestID_def RealIP_def Logger_def Recoverer_def Injector_def
      Inject_def proxy_values_def MapType_def proxy_injected_def)

section \<open>Properties\<close>

text \<open>C22: The proxy server starts whenever it comes by a NATS connection, and never forwards anything.
  Its pattern has the parameters \<open>cluster_id\<close> and \<open>name\<close>, but the handler asks for \<open>linkID\<close> and gets
  the empty string, for which no subject is valid: every request ends with an error status, nothing
  is published and no subscription stays. Nor would requests for paths of a service get to the
  handler: the pattern has no wildcard, so all but the paths of exactly two parts and a slash are
  answered with 404 or 405. (Of the binding it is assumed that its errors have the codes it gives
  them.)\<close>

theorem proxy_server_fails:
  assumes "getNatsClient e lic = Inr nc" "bind_codes (PC_bind C)"
  shows "\<exists>m rs. proxy_main e lic C = Inr m \<and> mux_has (PC_tree C) m rs \<and>
    map (fst \<circ> snd) rs = [''/*'', ''/{cluster_id}/{name}/''] \<and>
    (\<forall>x s. fresh_exchange x \<and> cache_step\<^sup>*\<^sup>* empty_cache (PS_cache s) \<longrightarrow>
      (\<exists>y s'. ServeHTTP m x s = (None, y, s') \<and> final_status y \<in> {400, 404, 405, 422, 500} \<and>
         outbox (PS_conn s') = outbox (PS_conn s) \<and> subs (PS_conn s') = subs (PS_conn s) \<and>
         (\<not> service_path (route_path (x\<lparr>X_RoutePath := []\<rparr>)) \<longrightarrow> final_status y \<in> {404, 405})))"
proof -
  obtain m where m: "proxy_main e lic C = Inr m" "mux_has (PC_tree C) m (proxy_table C nc)"
    "Mx_Stack m = Some proxy_stack" by (rule proxy_main_built [OF assms(1)])
  have "\<exists>y s'. ServeHTTP m x s = (None, y, s') \<and> final_status y \<in> {400, 404, 405, 422, 500} \<and>
      outbox (PS_conn s') = outbox (PS_conn s) \<and> subs (PS_conn s') = subs (PS_conn s) \<and>
      (\<not> service_path (route_path (x\<lparr>X_RoutePath := []\<rparr>)) \<longrightarrow> final_status y \<in> {404, 405})"
    if x: "fresh_exchange x" and s: "cache_step\<^sup>*\<^sup>* empty_cache (PS_cache s)" for x s
  proof -
    let ?x = "x\<lparr>X_Routed := True, X_RoutePath := [], X_RouteMethod := [], X_URLParams := [],
      X_routeParams := [], X_methodNotAllowed := False\<rparr>"
    let ?x1 = "?x\<lparr>X_Wrapped := True, X_Injector := Some proxy_injected\<rparr>"
    have inj: "X_Injector ?x = None" using x by (simp add: fresh_exchange_def)
    have serve: "ServeHTTP m x s = chain proxy_stack (routeHTTP m) ?x s"
      using x m(3) by (simp add: ServeHTTP_def fresh_exchange_def)
    have rp: "route_path ?x1 = route_path (x\<lparr>X_RoutePath := []\<rparr>)" "route_path ?x1 \<noteq> []"
      by (simp_all add: route_path_def Let_def)
    have "cache_inv (PS_cache s)" by (rule cache_machine.reachable_inv [OF refl s])
    then have "turned_away s (routeHTTP m ?x1 s) \<and>
      (\<not> service_path (route_path ?x1) \<longrightarrow> (\<exists>y. routeHTTP m ?x1 s = (None, y, s) \<and> X_Status y \<in> Some ` {404, 405}))"
      by (rule proxy_route_away [OF _ assms(2) _ _ _ m(2)])
        (use x rp(2) in \<open>simp_all add: fresh_exchange_def\<close>)
    note away = conjunct1 [OF this] and other = conjunct2 [OF this]
    show ?thesis
    proof (cases "service_path (route_path (x\<lparr>X_RoutePath := []\<rparr>))")
      case True
      have "turned_away s (chain proxy_stack (routeHTTP m) ?x s)" by (rule proxy_stack_away [OF inj]) (rule away)
      then show ?thesis using True unfolding serve by (auto simp: turned_away_def final_status_def)
    next
      case False
      then obtain y where y: "routeHTTP m ?x1 s = (None, y, s)" "X_Status y \<in> Some ` {404, 405}"
        using other rp(1) by auto
      from proxy_stack_same [where h = "routeHTTP m", OF inj y(1)] show ?thesis
        using y(2) unfolding serve by (auto simp: final_status_def)
    qed
  qed
  then show ?thesis
    using m(1,2) by (intro exI [of _ m] exI [of _ "proxy_table C nc"]) (simp add: proxy_table_def proxy_pattern_def)
qed

definition sample_proxy_config :: proxy_config where
  "sample_proxy_config = \<lparr>PC_implements = \<lambda>_ _. False,
     PC_tree = sample_tree_env,
     PC_bind = \<lambda>_. None,
     PC_env = \<lparr>PE_world = sample_world, PE_xid = \<lparr>machineID = (1, 2, 3), pid = 4\<rparr>, PE_now = 0,
       PE_request = \<lambda>_ _. \<lparr>HR_wire = [], HR_write_error = None, HR_deadline = None\<rparr>,
       PE_quote = \<lambda>s. s, PE_url_error = \<lambda>_ _ err. err,
       PE_redirect = \<lambda>_ _ _. Inr None, PE_response = \<lambda>_ _ _. Inr (200, [], None)\<rparr>\<rparr>"

theorem proxy_server_fails_witness:
  "\<exists>m y s'. proxy_main (sample_startup host_config) [] sample_proxy_config = Inr m \<and>
    ServeHTTP m
      \<lparr>X_Method = ''GET'', X_RawPath = [], X_Path = ''/c/svc.ns:80/'', X_Connection = [], X_Wrapped = False,
       X_Injector = None, X_Routed = False, X_RoutePath = [], X_RouteMethod = [], X_URLParams = [],
       X_routeParams = [], X_methodNotAllowed = False, X_Status = None, X_Body = []\<rparr>
      \<lparr>PS_cache = empty_cache, PS_conn = live_conn 1000, PS_ctr = 7, PS_buf = \<lparr>storage = [], used = 0\<rparr>\<rparr> =
      (None, y, s') \<and> outbox (PS_conn s') = []"
proof -
  let ?x = "\<lparr>X_Method = ''GET'', X_RawPath = [], X_Path = ''/c/svc.ns:80/'', X_Connection = [], X_Wrapped = False,
       X_Injector = None, X_Routed = False, X_RoutePath = [], X_RouteMethod = [], X_URLParams = [],
       X_routeParams = [], X_methodNotAllowed = False, X_Status = None, X_Body = []\<rparr>"
  let ?s = "\<lparr>PS_cache = empty_cache, PS_conn = live_conn 1000, PS_ctr = 7, PS_buf = \<lparr>storage = [], used = 0\<rparr>\<rparr>"
  have n: "getNatsClient (sample_startup host_config) [] = Inr (Some 3)"
    by (simp add: getNatsClient_def sample_own_cluster) (simp add: sample_startup_def)
  have f: "bind_codes (PC_bind sample_proxy_config)"
    by (auto simp: bind_codes_def sample_proxy_config_def)
  have o: "outbox (live_conn 1000) = []" by (simp add: live_conn_def)
  have x: "fresh_exchange ?x" by (simp add: fresh_exchange_def)
  have c: "cache_step\<^sup>*\<^sup>* empty_cache (PS_cache ?s)" by simp
  from proxy_server_fails [OF n f] obtain m where m:
    "proxy_main (sample_startup host_config) [] sample_proxy_config = Inr m"
    "\<forall>x s. fresh_exchange x \<and> cache_step\<^sup>*\<^sup>* empty_cache (PS_cache s) \<longrightarrow>
      (\<exists>y s'. ServeHTTP m x s = (None, y, s') \<and>
         final_status y \<in> {400, 404, 405, 422, 500} \<and>
         outbox (PS_conn s') = outbox (PS_conn s) \<and> subs (PS_conn s') = subs (PS_conn s))"
    by meson
  from m(2) [rule_format, OF conjI [OF x c]] m(1) o show ?thesis by auto
qed

end
