(* ===== verification/GenDocs.thy ===== *)
theory GenDocs
  imports GoStd "HOL-Library.List_Lexorder" "HOL-Library.Char_ord"
begin

text \<open>
  The command tree (\<open>pkg/cmds/root.go\<close>) and the pages of the reference that \<open>hack/gendocs\<close> makes of
  it: which files, and the front matter of each. What cobra prints of a command is an argument.
\<close>

section \<open>Commands\<close>

datatype command = Command (cmd_name: string) (subcommands: "command list")

definition NewRootCmd :: command where
  "NewRootCmd = Command ''cluster-connector'' [Command ''version'' [], Command ''run'' []]"

text \<open>\<open>CommandPath\<close>: the names from the root, with blanks between.\<close>

definition CommandPath :: "string list \<Rightarrow> string" where
  "CommandPath names = join_with '' '' names"

section \<open>Names of files\<close>

text \<open>\<open>path.Ext\<close>, \<open>strings.TrimSuffix\<close> and \<open>filepath.Base\<close> on Unix.\<close>

definition path_Ext :: "string \<Rightarrow> string" where
  "path_Ext p =
     (let tail = takeWhile (\<lambda>c. c \<noteq> CHR ''.'' \<and> c \<noteq> CHR ''/'') (rev p); rest = drop (length tail) (rev p)
      in if rest \<noteq> [] \<and> hd rest = CHR ''.'' then rev (tail @ ''.'') else [])"

definition trim_suffix :: "string \<Rightarrow> string \<Rightarrow> string" where
  "trim_suffix s suf =
     (if length suf \<le> length s \<and> drop (length s - length suf) s = suf
      then take (length s - length suf) s else s)"

definition filepath_Base :: "string \<Rightarrow> string" where
  "filepath_Base p =
     (if p = [] then ''.''
      else let q = rev (dropWhile (\<lambda>c. c = CHR ''/'') (rev p));
               b = rev (takeWhile (\<lambda>c. c \<noteq> CHR ''/'') (rev q))
           in if b = [] then ''/'' else b)"

definition replace_char :: "char \<Rightarrow> char \<Rightarrow> string \<Rightarrow> string" where
  "replace_char c d s = map (\<lambda>x. if x = c then d else x) s"

section \<open>Front matter\<close>

definition nl :: string where "nl = [CHR 0x0A]"

definition lines_of :: "string list \<Rightarrow> string" where
  "lines_of ls = concat (map (\<lambda>l. l @ nl) ls)"

definition index_matter :: string where
  "index_matter = lines_of [
     ''---'',
     ''title: Reference | Vault Operator'',
     ''description: Vault Operator CLI Reference'',
     ''menu:'',
     ''  docs_{{ .version }}:'',
     ''    identifier: reference-operator'',
     ''    name: Vault Operator'',
     ''    weight: 10'',
     ''    parent: reference'',
     ''menu_name: docs_{{ .version }}'',
     ''---'']"

record page_data =
  PD_ID :: string
  PD_Name :: string
  PD_Version :: string
  PD_RootCmd :: bool

definition cmd_matter :: "page_data \<Rightarrow> string" where
  "cmd_matter d =
     lines_of [''---'', ''title: '' @ PD_Name d, ''menu:'', ''  docs_{{ .version }}:'',
       ''    identifier: '' @ PD_ID d, ''    name: '' @ PD_Name d] @
     ''    parent: reference-operator'' @
     (if PD_RootCmd d then nl @ ''    weight: 0'' @ nl else []) @ nl @
     ''menu_name: docs_{{ .version }}'' @ nl @
     ''section_menu_id: reference'' @
     (if PD_RootCmd d
      then nl @ ''url: /docs/{{ .version }}/reference/operator/'' @ nl @ ''aliases:'' @ nl @
           ''- /docs/{{ .version }}/reference/operator/'' @ PD_ID d @ ''/''
      else []) @ nl @ ''---'' @ nl"

definition docs_version :: string where "docs_version = ''0.2.0''"

text \<open>\<open>title\<close> is the English title case of \<open>golang.org/x/text/cases\<close>.\<close>

definition page_data_of :: "(string \<Rightarrow> string) \<Rightarrow> string \<Rightarrow> page_data" where
  "page_data_of title filename =
     (let name = filepath_Base filename; base = trim_suffix name (path_Ext name)
      in \<lparr>PD_ID = replace_char (CHR ''_'') (CHR ''-'') base,
          PD_Name = title (replace_char (CHR ''_'') (CHR '' '') base),
          PD_Version = docs_version, PD_RootCmd = CHR ''_'' \<notin> set base\<rparr>)"

definition filePrepender :: "(string \<Rightarrow> string) \<Rightarrow> string \<Rightarrow> string" where
  "filePrepender title filename = cmd_matter (page_data_of title filename)"

definition linkHandler :: "string \<Rightarrow> string" where
  "linkHandler name = ''/docs/reference/operator/'' @ name"

section \<open>The pages (cobra/doc/md_docs.go)\<close>

text \<open>The commands in the order their pages are made: each after the ones below it, by name.\<close>

fun page_order :: "string list \<Rightarrow> command \<Rightarrow> string list list" where
  "page_order up (Command n cs) =
     concat (map snd (sort_key fst (map (\<lambda>c. (cmd_name c, page_order (up @ [n]) c)) cs))) @
     [up @ [n]]"

definition page_file :: "string \<Rightarrow> string list \<Rightarrow> string" where
  "page_file dir names = path_join [dir, replace_char (CHR '' '') (CHR ''_'') (CommandPath names) @ ''.md'']"

text \<open>
  The files, up to the first one that cannot be written. \<open>markdown\<close> is the text of a command with
  its links.
\<close>

fun write_pages ::
    "(string \<Rightarrow> bytes \<Rightarrow> go_error option) \<Rightarrow> (string \<times> bytes) list \<Rightarrow>
     (string \<times> bytes) list \<times> go_error option" where
  "write_pages write [] = ([], None)"
| "write_pages write ((f, b) # ps) =
     (case write f b of
        Some err \<Rightarrow> ([], Some err)
      | None \<Rightarrow> (let (fs, e) = write_pages write ps in ((f, b) # fs, e)))"

record docs_env =
  DE_GOPATH :: string
  DE_remove :: "string \<Rightarrow> go_error option"
  DE_mkdir :: "string \<Rightarrow> go_error option"
  DE_write :: "string \<Rightarrow> bytes \<Rightarrow> go_error option"
  DE_title :: "string \<Rightarrow> string"
  DE_markdown :: "string list \<Rightarrow> (string \<Rightarrow> string) \<Rightarrow> bytes"

text \<open>\<open>main\<close>: the files written, and the error that ended it.\<close>

definition gendocs_main :: "docs_env \<Rightarrow> (string \<times> bytes) list \<times> go_error option" where
  "gendocs_main e =
     (let dir = DE_GOPATH e @ ''/src/kubeops.dev/cluster-connector/docs/reference/operator''
      in case DE_remove e dir of
           Some err \<Rightarrow> ([], Some err)
         | None \<Rightarrow>
             (case DE_mkdir e dir of
                Some err \<Rightarrow> ([], Some err)
              | None \<Rightarrow>
                  (case write_pages (DE_write e)
                          (map (\<lambda>names. (page_file dir names,
                                 filePrepender (DE_title e) (page_file dir names) @
                                 DE_markdown e names linkHandler))
                             (page_order [] NewRootCmd)) of
                     (fs, Some err) \<Rightarrow> (fs, Some err)
                   | (fs, None) \<Rightarrow>
                       (let index = path_join [dir, ''_index.md'']
                        in case DE_write e index index_matter of
                             Some err \<Rightarrow> (fs, Some err)
                           | None \<Rightarrow> (fs @ [(index, index_matter)], None)))))"

section \<open>Lemmas\<close>

lemma page_order_root: "page_order [] NewRootCmd =
    [[''cluster-connector'', ''run''], [''cluster-connector'', ''version''], [''cluster-connector'']]"
  by code_simp

lemma page_names: "map (page_file ''/d'') (page_order [] NewRootCmd) =
    [''/d/cluster-connector_run.md'', ''/d/cluster-connector_version.md'', ''/d/cluster-connector.md'']"
  by code_simp

text \<open>Only the root command's page is at the root of the reference.\<close>

lemma page_ids: "map (\<lambda>ns. (PD_ID (page_data_of id (page_file ''/d'' ns)), PD_RootCmd (page_data_of id (page_file ''/d'' ns))))
    (page_order [] NewRootCmd) =
    [(''cluster-connector-run'', False), (''cluster-connector-version'', False), (''cluster-connector'', True)]"
  by code_simp

end
