(* ===== verification/Cobra.thy ===== *)
theory Cobra
  imports GoStd GenDocs
begin

text \<open>
  How the command line is taken apart: flags (vendored \<open>spf13/pflag\<close>), and the search for the command
  and its execution (vendored \<open>spf13/cobra\<close>). Errors are values that keep what their texts say; the
  printing of errors, usages and help is left out.
\<close>

section \<open>Numbers and truth values (strconv)\<close>

definition lower :: "char \<Rightarrow> char" where
  "lower c = (if 65 \<le> (of_char c :: nat) \<and> (of_char c :: nat) \<le> 90 then char_of ((of_char c :: nat) + 32) else c)"

definition ParseBool :: "string \<Rightarrow> bool option" where
  "ParseBool s =
     (if s \<in> {''1'', ''t'', ''T'', ''true'', ''TRUE'', ''True''} then Some True
      else if s \<in> {''0'', ''f'', ''F'', ''false'', ''FALSE'', ''False''} then Some False
      else None)"

definition digit_val :: "char \<Rightarrow> nat option" where
  "digit_val c =
     (let n = of_char c; l = of_char (lower c)
      in if 48 \<le> n \<and> n \<le> 57 then Some (n - 48)
         else if 97 \<le> l \<and> l \<le> 122 then Some (l - 97 + 10) else None)"

text \<open>The base and the digits of a number without its sign, in base 0.\<close>

definition base_prefix :: "string \<Rightarrow> nat \<times> string" where
  "base_prefix s =
     (if s \<noteq> [] \<and> hd s = CHR ''0'' then
        (if 3 \<le> length s \<and> lower (s ! 1) = CHR ''b'' then (2, drop 2 s)
         else if 3 \<le> length s \<and> lower (s ! 1) = CHR ''o'' then (8, drop 2 s)
         else if 3 \<le> length s \<and> lower (s ! 1) = CHR ''x'' then (16, drop 2 s)
         else (8, tl s))
      else (10, s))"

definition ErrSyntax :: go_error where "ErrSyntax = ErrVar ''invalid syntax''"
definition ErrRange :: go_error where "ErrRange = ErrVar ''value out of range''"

fun read_digits :: "nat \<Rightarrow> nat \<Rightarrow> string \<Rightarrow> nat result" where
  "read_digits base n [] = Inr n"
| "read_digits base n (c # cs) =
     (if c = CHR ''_'' then read_digits base n cs
      else case digit_val c of
             None \<Rightarrow> Inl ErrSyntax
           | Some d \<Rightarrow>
               if d \<ge> base then Inl ErrSyntax
               else if n * base + d \<ge> 2 ^ 64 then Inl ErrRange
               else read_digits base (n * base + d) cs)"

text \<open>Underscores must stand between digits, or after the base's prefix.\<close>

fun underscores_ok :: "bool \<Rightarrow> char \<Rightarrow> string \<Rightarrow> bool" where
  "underscores_ok hex saw [] \<longleftrightarrow> saw \<noteq> CHR ''_''"
| "underscores_ok hex saw (c # cs) \<longleftrightarrow>
     (case digit_val c of
        Some d \<Rightarrow>
          if d < 10 \<or> hex \<and> d < 16 then underscores_ok hex (CHR ''0'') cs
          else saw \<noteq> CHR ''_'' \<and> underscores_ok hex (CHR ''!'') cs
      | None \<Rightarrow>
          if c = CHR ''_'' then saw = CHR ''0'' \<and> underscores_ok hex (CHR ''_'') cs
          else saw \<noteq> CHR ''_'' \<and> underscores_ok hex (CHR ''!'') cs)"

definition underscoreOK :: "string \<Rightarrow> bool" where
  "underscoreOK s =
     (if 2 \<le> length s \<and> hd s = CHR ''0'' \<and> lower (s ! 1) \<in> {CHR ''b'', CHR ''o'', CHR ''x''}
      then underscores_ok (lower (s ! 1) = CHR ''x'') (CHR ''0'') (drop 2 s)
      else underscores_ok False (CHR ''^'') s)"

text \<open>\<open>ParseInt(s, 0, 64)\<close>.\<close>

definition ParseInt :: "string \<Rightarrow> int result" where
  "ParseInt s =
     (let neg = (s \<noteq> [] \<and> hd s = CHR ''-'');
          u = (if s \<noteq> [] \<and> hd s \<in> {CHR ''-'', CHR ''+''} then tl s else s);
          (base, ds) = base_prefix u
      in if u = [] then Inl ErrSyntax
         else case read_digits base 0 ds of
           Inl e \<Rightarrow> Inl e
         | Inr n \<Rightarrow>
             if CHR ''_'' \<in> set ds \<and> \<not> underscoreOK u then Inl ErrSyntax
             else if neg then (if n > 2 ^ 63 then Inl ErrRange else Inr (- int n))
             else if n \<ge> 2 ^ 63 then Inl ErrRange else Inr (int n))"

section \<open>Flags (pflag/flag.go)\<close>

text \<open>A flag: its shorthand, the value it has when none is given, and the error of a value.\<close>

record flag =
  F_name :: string
  F_short :: "char option"
  F_noopt :: string
  F_set :: "string \<Rightarrow> go_error option"

datatype flag_error =
    HelpRequested | BadSyntax string | UnknownFlag string | UnknownShorthand char string
  | ValueRequired string | InvalidValue string string go_error

definition Lookup :: "flag list \<Rightarrow> string \<Rightarrow> flag option" where
  "Lookup fs name = find (\<lambda>f. F_name f = name) fs"

definition ShorthandLookup :: "flag list \<Rightarrow> char \<Rightarrow> flag option" where
  "ShorthandLookup fs c = find (\<lambda>f. F_short f = Some c) fs"

text \<open>Setting a flag. What is kept of it is the flag's name and the value.\<close>

definition set_flag :: "flag \<Rightarrow> string \<Rightarrow> flag_error + string \<times> string" where
  "set_flag f v =
     (case F_set f v of Some e \<Rightarrow> Inl (InvalidValue (F_name f) v e) | None \<Rightarrow> Inr (F_name f, v))"

definition split_eq :: "string \<Rightarrow> string \<times> string option" where
  "split_eq s =
     (let n = takeWhile (\<lambda>c. c \<noteq> CHR ''='') s
      in (n, if CHR ''='' \<in> set s then Some (drop (Suc (length n)) s) else None))"

definition parseLongArg ::
    "flag list \<Rightarrow> string \<Rightarrow> string list \<Rightarrow> flag_error + (string \<times> string) \<times> string list" where
  "parseLongArg fs s args =
     (let name = drop 2 s
      in if name = [] \<or> hd name = CHR ''-'' \<or> hd name = CHR ''='' then Inl (BadSyntax s)
         else let (n, v) = split_eq name
         in case Lookup fs n of
              None \<Rightarrow> Inl (if n = ''help'' then HelpRequested else UnknownFlag n)
            | Some f \<Rightarrow>
                (case (case v of
                         Some x \<Rightarrow> Inr (x, args)
                       | None \<Rightarrow>
                           if F_noopt f \<noteq> [] then Inr (F_noopt f, args)
                           else (case args of a # as \<Rightarrow> Inr (a, as) | [] \<Rightarrow> Inl (ValueRequired n))) of
                   Inl e \<Rightarrow> Inl e
                 | Inr (x, as) \<Rightarrow> (case set_flag f x of Inl e \<Rightarrow> Inl e | Inr p \<Rightarrow> Inr (p, as))))"

definition parseSingleShortArg ::
    "flag list \<Rightarrow> string \<Rightarrow> string list \<Rightarrow> flag_error + (string \<times> string) list \<times> string \<times> string list" where
  "parseSingleShortArg fs shorts args =
     (if take 5 shorts = ''test.'' then Inr ([], [], args)
      else case ShorthandLookup fs (hd shorts) of
        None \<Rightarrow> Inl (if hd shorts = CHR ''h'' then HelpRequested else UnknownShorthand (hd shorts) shorts)
      | Some f \<Rightarrow>
          (case (if length shorts > 2 \<and> shorts ! 1 = CHR ''='' then Inr (drop 2 shorts, [], args)
                 else if F_noopt f \<noteq> [] then Inr (F_noopt f, tl shorts, args)
                 else if length shorts > 1 then Inr (tl shorts, [], args)
                 else (case args of a # as \<Rightarrow> Inr (a, tl shorts, as) | [] \<Rightarrow> Inl (ValueRequired (F_name f)))) of
             Inl e \<Rightarrow> Inl e
           | Inr (v, out, as) \<Rightarrow>
               (case set_flag f v of Inl e \<Rightarrow> Inl e | Inr p \<Rightarrow> Inr ([p], out, as))))"

lemma parseSingleShortArg_less:
  assumes "parseSingleShortArg fs shorts args = Inr (ps, out, as)" "shorts \<noteq> []"
  shows "length out < length shorts \<and> length as \<le> length args"
  using assms
  by (auto simp: parseSingleShortArg_def split: if_splits option.splits sum.splits list.splits)

text \<open>A series of shorthands. Each begins with the same arguments left; the last says which are.\<close>

function parseShortArg ::
    "flag list \<Rightarrow> string \<Rightarrow> string list \<Rightarrow> string list \<Rightarrow> flag_error + (string \<times> string) list \<times> string list" where
  "parseShortArg fs shorts args left =
     (if shorts = [] then Inr ([], left)
      else case parseSingleShortArg fs shorts args of
        Inl e \<Rightarrow> Inl e
      | Inr (ps, out, as) \<Rightarrow>
          (case parseShortArg fs out args as of Inl e \<Rightarrow> Inl e | Inr (qs, as') \<Rightarrow> Inr (ps @ qs, as')))"
  by pat_completeness auto
termination
  by (relation "measure (\<lambda>(fs, shorts, args, left). length shorts)")
    (auto dest: parseSingleShortArg_less)

declare parseShortArg.simps [simp del]

lemma parseShortArg_left:
  "parseShortArg fs shorts args left = Inr (ps, as) \<Longrightarrow> length left \<le> length args \<Longrightarrow> length as \<le> length args"
proof (induction fs shorts args left arbitrary: ps rule: parseShortArg.induct)
  case (1 fs shorts args left)
  show ?case
  proof (cases "shorts = []")
    case False
    from 1(2) False obtain ps1 out as1 qs where s: "parseSingleShortArg fs shorts args = Inr (ps1, out, as1)"
      "parseShortArg fs out args as1 = Inr (qs, as)"
      by (subst (asm) parseShortArg.simps) (auto split: sum.splits)
    have "length as1 \<le> length args" using parseSingleShortArg_less [OF s(1) False] by simp
    then show ?thesis using 1(1) [OF False s(1) refl refl s(2)] by simp
  qed (use 1 in \<open>simp add: parseShortArg.simps\<close>)
qed

lemma parseLongArg_left:
  "parseLongArg fs s args = Inr (p, as) \<Longrightarrow> length as \<le> length args"
  by (auto simp: parseLongArg_def Let_def split: if_splits option.splits sum.splits list.splits prod.splits)

text \<open>What was set, in order, and the arguments that are no flags.\<close>

function parseArgs ::
    "flag list \<Rightarrow> string list \<Rightarrow> flag_error + (string \<times> string) list \<times> string list" where
  "parseArgs fs [] = Inr ([], [])"
| "parseArgs fs (s # args) =
     (if s = [] \<or> hd s \<noteq> CHR ''-'' \<or> length s = 1 then
        (case parseArgs fs args of Inl e \<Rightarrow> Inl e | Inr (ps, pos) \<Rightarrow> Inr (ps, s # pos))
      else if s ! 1 = CHR ''-'' then
        (if length s = 2 then Inr ([], args)
         else case parseLongArg fs s args of
           Inl e \<Rightarrow> Inl e
         | Inr (p, as) \<Rightarrow>
             (case parseArgs fs as of Inl e \<Rightarrow> Inl e | Inr (ps, pos) \<Rightarrow> Inr (p # ps, pos)))
      else case parseShortArg fs (tl s) args args of
        Inl e \<Rightarrow> Inl e
      | Inr (ps, as) \<Rightarrow>
          (case parseArgs fs as of Inl e \<Rightarrow> Inl e | Inr (qs, pos) \<Rightarrow> Inr (ps @ qs, pos)))"
  by pat_completeness auto
termination
  by (relation "measure (\<lambda>(fs, args). length args)")
    (auto dest!: parseLongArg_left parseShortArg_left)

section \<open>Finding the command (cobra/command.go)\<close>

text \<open>
  The flags of a command depend on its path, the names from the root. While the command is searched
  for, flags and their values are skipped as far as they are known there.
\<close>

definition hasNoOptDefVal :: "string \<Rightarrow> flag list \<Rightarrow> bool" where
  "hasNoOptDefVal name fs = (case Lookup fs name of None \<Rightarrow> False | Some f \<Rightarrow> F_noopt f \<noteq> [])"

definition shortHasNoOptDefVal :: "string \<Rightarrow> flag list \<Rightarrow> bool" where
  "shortHasNoOptDefVal name fs =
     (name \<noteq> [] \<and> (case ShorthandLookup fs (hd name) of None \<Rightarrow> False | Some f \<Rightarrow> F_noopt f \<noteq> []))"

text \<open>A flag whose value is the next argument.\<close>

definition takes_next :: "flag list \<Rightarrow> string \<Rightarrow> bool" where
  "takes_next fs s \<longleftrightarrow> CHR ''='' \<notin> set s \<and>
     (take 2 s = ''--'' \<and> \<not> hasNoOptDefVal (drop 2 s) fs \<or>
      take 1 s = ''-'' \<and> length s = 2 \<and> \<not> shortHasNoOptDefVal (drop 1 s) fs)"

fun stripFlags :: "flag list \<Rightarrow> string list \<Rightarrow> string list" where
  "stripFlags fs [] = []"
| "stripFlags fs (s # args) =
     (if s = ''--'' then []
      else if takes_next fs s then (case args of _ # b # as \<Rightarrow> stripFlags fs (b # as) | _ \<Rightarrow> [])
      else if s \<noteq> [] \<and> hd s \<noteq> CHR ''-'' then s # stripFlags fs args
      else stripFlags fs args)"

fun argsMinusFirstX :: "flag list \<Rightarrow> string list \<Rightarrow> string \<Rightarrow> string list" where
  "argsMinusFirstX fs [] x = []"
| "argsMinusFirstX fs (s # args) x =
     (if s = ''--'' then s # args
      else if takes_next fs s
      then (case args of [] \<Rightarrow> [s] | a # as \<Rightarrow> s # a # argsMinusFirstX fs as x)
      else if (s = [] \<or> hd s \<noteq> CHR ''-'') \<and> s = x then args
      else s # argsMinusFirstX fs args x)"

text \<open>Only the command that answers the shell's completion scripts has another name.\<close>

definition aliases :: "string \<Rightarrow> string list" where
  "aliases name = (if name = ''__complete'' then [''__completeNoDesc''] else [])"

definition findNext :: "string \<Rightarrow> command \<Rightarrow> command option" where
  "findNext next c = find (\<lambda>d. cmd_name d = next \<or> next \<in> set (aliases (cmd_name d))) (subcommands c)"

lemma findNext_size: "findNext next c = Some d \<Longrightarrow> size d < size c"
  by (cases c) (auto simp: findNext_def find_Some_iff intro!: le_imp_less_Suc size_list_estimation' nth_mem)

function innerfind ::
    "(string list \<Rightarrow> flag list) \<Rightarrow> string list \<Rightarrow> command \<Rightarrow> string list \<Rightarrow>
     string list \<times> command \<times> string list" where
  "innerfind flags path c args =
     (case stripFlags (flags path) args of
        [] \<Rightarrow> (path, c, args)
      | next # _ \<Rightarrow>
          (case findNext next c of
             None \<Rightarrow> (path, c, args)
           | Some d \<Rightarrow>
               innerfind flags (path @ [cmd_name d]) d (argsMinusFirstX (flags path) args next)))"
  by pat_completeness auto
termination
  by (relation "measure (\<lambda>(flags, path, c, args). size c)") (auto dest: findNext_size)

declare innerfind.simps [simp del]

datatype cobra_error = UnknownCommand string | FlagError flag_error | UnexpectedArg string | TooFewArgs

text \<open>\<open>legacyArgs\<close>: only a root with commands below it refuses arguments.\<close>

definition legacyArgs :: "string list \<Rightarrow> command \<Rightarrow> string list \<Rightarrow> cobra_error option" where
  "legacyArgs path c args =
     (if subcommands c = [] then None
      else if length path \<le> 1 \<and> args \<noteq> [] then Some (UnknownCommand (hd args)) else None)"

definition Find ::
    "(string list \<Rightarrow> flag list) \<Rightarrow> command \<Rightarrow> string list \<Rightarrow>
     cobra_error + string list \<times> command \<times> string list" where
  "Find flags root args =
     (let (path, c, a) = innerfind flags [cmd_name root] root args
      in case legacyArgs path c (stripFlags (flags path) a) of
           Some e \<Rightarrow> Inl e | None \<Rightarrow> Inr (path, c, a))"

section \<open>Executing it\<close>

text \<open>
  The commands that cobra adds to a root that has some: help, completion, and \<open>__complete\<close> where it
  is called.
\<close>

definition with_commands :: "command list \<Rightarrow> command \<Rightarrow> command" where
  "with_commands cs c = Command (cmd_name c) (subcommands c @ cs)"

definition completion_command :: command where
  "completion_command = Command ''completion''
     [Command ''bash'' [], Command ''zsh'' [], Command ''fish'' [], Command ''powershell'' []]"

definition all_commands :: "(string list \<Rightarrow> flag list) \<Rightarrow> command \<Rightarrow> string list \<Rightarrow> command" where
  "all_commands flags root args =
     (let c1 = (if subcommands root = [] then root else with_commands [Command ''help'' []] root);
          c2 = with_commands [Command ''__complete'' []] c1;
          c3 = (case Find flags c2 args of
                  Inl _ \<Rightarrow> c1
                | Inr (_, c, _) \<Rightarrow> if cmd_name c \<noteq> ''__complete'' then c1 else c2)
      in with_commands [completion_command] c3)"

definition help_flag :: flag where
  "help_flag = \<lparr>F_name = ''help'', F_short = Some (CHR ''h''), F_noopt = ''true'',
     F_set = \<lambda>v. if ParseBool v = None then Some ErrSyntax else None\<rparr>"

definition InitDefaultHelpFlag :: "flag list \<Rightarrow> flag list" where
  "InitDefaultHelpFlag fs = (if Lookup fs ''help'' = None then fs @ [help_flag] else fs)"

text \<open>The value of a flag after what was set: the last one.\<close>

definition flag_value :: "(string \<times> string) list \<Rightarrow> string \<Rightarrow> string option" where
  "flag_value sets name = map_of (rev sets) name"

datatype cobra_end =
    Failed cobra_error                                              \<comment> \<open>printed, with the usage\<close>
  | HelpShown "string list"
  | Ran "string list" "(string \<times> string) list" "string list"       \<comment> \<open>command, what was set, arguments\<close>

text \<open>
  \<open>execute\<close> up to the command's own function: a command without one shows its help. Of the commands
  here only those below \<open>completion\<close> (\<open>NoArgs\<close>) and \<open>__complete\<close>, which parses no flags, check their arguments.
\<close>

definition execute ::
    "(string list \<Rightarrow> bool) \<Rightarrow> (string list \<Rightarrow> flag list) \<Rightarrow> string list \<Rightarrow> string list \<Rightarrow> cobra_end" where
  "execute runnable flags path a =
     (if last path = ''__complete'' then (if a = [] then Failed TooFewArgs else Ran path [] a)
      else case parseArgs (InitDefaultHelpFlag (flags path)) a of
        Inl HelpRequested \<Rightarrow> HelpShown path
      | Inl e \<Rightarrow> Failed (FlagError e)
      | Inr (sets, pos) \<Rightarrow>
          if Option.bind (flag_value sets ''help'') ParseBool = Some True then HelpShown path
          else if \<not> runnable path then HelpShown path
          else if length path > 2 \<and> path ! 1 = ''completion'' \<and> pos \<noteq> []
          then Failed (UnexpectedArg (hd pos))
          else Ran path sets pos)"

definition ExecuteC ::
    "(string list \<Rightarrow> bool) \<Rightarrow> (string list \<Rightarrow> flag list) \<Rightarrow> command \<Rightarrow> string list \<Rightarrow> cobra_end" where
  "ExecuteC runnable flags root args =
     (case Find flags (all_commands flags root args) args of
        Inl e \<Rightarrow> Failed e
      | Inr (path, _, a) \<Rightarrow> execute runnable flags path a)"

end
