(* ===== verification/Binary.thy ===== *)
theory Binary
  imports Agent Cobra
begin

text \<open>
  The binary (\<open>cmd/cluster-connector\<close>): the version that the linker sets, the command line with the
  flags of the run command (\<open>pkg/cmds/run.go\<close>) and of the version command (vendored
  \<open>gomodules.xyz/x/version\<close>), and the exit code. The flags that other libraries add, and semantic
  versions, are arguments.
\<close>

section \<open>The version (cmd/cluster-connector/version.go)\<close>

record build_info =
  Version :: string
  VersionStrategy :: string
  GitTag :: string
  GitBranch :: string
  CommitHash :: string
  CommitTimestamp :: string
  GoVersion :: string
  Compiler :: string
  Platform :: string

text \<open>\<open>init\<close> copies the variables of \<open>main\<close> (\<open>m\<close>) into those of the version library (\<open>v\<close>).\<close>

definition init_version :: "build_info \<Rightarrow> build_info \<Rightarrow> build_info" where
  "init_version m v =
     v\<lparr>Version := Version m, VersionStrategy := VersionStrategy m, GitTag := GitTag m,
       GitBranch := GitBranch m, CommitHash := CommitHash m, CommitTimestamp := CommitTimestamp m,
       GoVersion := GoVersion m, Compiler := Compiler m, Platform := Platform m\<rparr>"

definition version_Print :: "build_info \<Rightarrow> string" where
  "version_Print v =
     lines_of ([''Version = '' @ Version v, ''VersionStrategy = '' @ VersionStrategy v,
       ''GitTag = '' @ GitTag v, ''GitBranch = '' @ GitBranch v, ''CommitHash = '' @ CommitHash v,
       ''CommitTimestamp = '' @ CommitTimestamp v] @
       (if GoVersion v \<noteq> [] then [''GoVersion = '' @ GoVersion v] else []) @
       (if Compiler v \<noteq> [] then [''Compiler = '' @ Compiler v] else []) @
       (if Platform v \<noteq> [] then [''Platform = '' @ Platform v] else []))"

section \<open>Flags\<close>

definition StringVar :: "string \<Rightarrow> flag" where
  "StringVar name = \<lparr>F_name = name, F_short = None, F_noopt = [], F_set = \<lambda>_. None\<rparr>"

definition BoolVar :: "string \<Rightarrow> flag" where
  "BoolVar name = \<lparr>F_name = name, F_short = None, F_noopt = ''true'',
     F_set = \<lambda>v. if ParseBool v = None then Some ErrSyntax else None\<rparr>"

definition IntVar :: "string \<Rightarrow> flag" where
  "IntVar name = \<lparr>F_name = name, F_short = None, F_noopt = [],
     F_set = \<lambda>v. case ParseInt v of Inl e \<Rightarrow> Some e | Inr _ \<Rightarrow> None\<rparr>"

text \<open>The flags that \<open>NewCmdRun\<close> defines, and what setting them does to its variables.\<close>

definition NewCmdRun_flags :: "flag list" where
  "NewCmdRun_flags =
     [StringVar ''baseURL'', StringVar ''link-id'', StringVar ''metrics-addr'', StringVar ''nats-addr'',
      IntVar ''nats-handler-count'', StringVar ''nats-credential-file'',
      StringVar ''health-probe-bind-address'']"

definition set_run_flag :: "string \<times> string \<Rightarrow> run_flags \<Rightarrow> run_flags" where
  "set_run_flag = (\<lambda>(n, v) f.
     if n = ''baseURL'' then f\<lparr>baseURL := v\<rparr>
     else if n = ''link-id'' then f\<lparr>linkID := v\<rparr>
     else if n = ''metrics-addr'' then f\<lparr>metricsAddr := v\<rparr>
     else if n = ''nats-addr'' then f\<lparr>natsAddr := v\<rparr>
     else if n = ''nats-handler-count''
     then f\<lparr>numThreads := (case ParseInt v of Inl _ \<Rightarrow> numThreads f | Inr k \<Rightarrow> k)\<rparr>
     else if n = ''nats-credential-file'' then f\<lparr>natsCredFile := v\<rparr>
     else if n = ''health-probe-bind-address'' then f\<lparr>probeAddr := v\<rparr>
     else f)"

definition version_flags :: "flag list" where
  "version_flags = [BoolVar ''short'', StringVar ''check'']"

section \<open>The program (cmd/cluster-connector/main.go)\<close>

text \<open>
  The other flags of a command are those of libraries: two more of the run command, and the global
  ones. They have other names.
\<close>

record 'v binary_env =
  BE_more_flags :: "string list \<Rightarrow> flag list"
  BE_NewConstraint :: "string \<Rightarrow> ('v \<Rightarrow> bool) result"
  BE_NewVersion :: "string \<Rightarrow> 'v result"
  BE_run :: run_env

definition run_path :: "string list" where "run_path = [''cluster-connector'', ''run'']"
definition version_path :: "string list" where "version_path = [''cluster-connector'', ''version'']"

definition command_flags :: "'v binary_env \<Rightarrow> string list \<Rightarrow> flag list" where
  "command_flags e path =
     (if path = run_path then NewCmdRun_flags else if path = version_path then version_flags else []) @
     BE_more_flags e path"

text \<open>The commands with a function to run.\<close>

definition Runnable :: "string list \<Rightarrow> bool" where
  "Runnable path \<longleftrightarrow> path \<noteq> [''cluster-connector''] \<and> path \<noteq> [''cluster-connector'', ''completion'']"

datatype version_error = BadCheck go_error | BadVersion go_error | Unmet

text \<open>The version command: what it prints, and its error.\<close>

definition version_command ::
    "'v binary_env \<Rightarrow> build_info \<Rightarrow> (string \<times> string) list \<Rightarrow> string \<times> version_error option" where
  "version_command e v sets =
     (let short = (Option.bind (flag_value sets ''short'') ParseBool = Some True);
          check = (case flag_value sets ''check'' of None \<Rightarrow> [] | Some c \<Rightarrow> c);
          out = (if short then Version v else version_Print v)
      in (out,
          if check = [] then None
          else case BE_NewConstraint e check of
            Inl err \<Rightarrow> Some (BadCheck err)
          | Inr c \<Rightarrow>
              (case BE_NewVersion e (Version v) of
                 Inl err \<Rightarrow> Some (BadVersion err)
               | Inr ver \<Rightarrow> if \<not> c ver then Some Unmet else None)))"

text \<open>
  How the program ends: with an error of the command line, with a command's help, after the version
  command, after a run with its first log line, or after one of cobra's own commands.
\<close>

datatype main_end =
    Usage cobra_error
  | Helped "string list"
  | Versioned string "version_error option"
  | Connected string run_end
  | Cobra "string list" "string list"

definition starting_line :: "build_info \<Rightarrow> string" where
  "starting_line v = ''Starting binary version '' @ Version v @ ''+'' @ CommitHash v @ '' ...''"

definition binary_main ::
    "'v binary_env \<Rightarrow> build_info \<Rightarrow> build_info \<Rightarrow> string list \<Rightarrow> main_end" where
  "binary_main e m v0 args =
     (let v = init_version m v0
      in case ExecuteC Runnable (command_flags e) NewRootCmd args of
           Failed err \<Rightarrow> Usage err
         | HelpShown path \<Rightarrow> Helped path
         | Ran path sets pos \<Rightarrow>
             if path = run_path
             then Connected (starting_line v) (run_command (BE_run e) (fold set_run_flag sets default_flags))
             else if path = version_path
             then (case version_command e v sets of (out, err) \<Rightarrow> Versioned out err)
             else Cobra path pos)"

fun exit_code :: "main_end \<Rightarrow> nat" where
  "exit_code (Usage _) = 1"
| "exit_code (Helped _) = 0"
| "exit_code (Versioned _ err) = (if err = None then 0 else 1)"
| "exit_code (Connected _ r) = RE_code r"
| "exit_code (Cobra _ _) = 0"

section \<open>Lemmas\<close>

text \<open>An argument that sets a flag.\<close>

definition set_arg :: "string \<times> string \<Rightarrow> string" where
  "set_arg = (\<lambda>(n, v). ''--'' @ n @ ''='' @ v)"

lemma not_takes_next: "s = [] \<or> hd s \<noteq> CHR ''-'' \<Longrightarrow> \<not> takes_next fs s"
  by (cases s) (auto simp: takes_next_def)

lemma stripFlags_set_args: "stripFlags fs (map set_arg as) = []"
  by (induction as) (auto simp: set_arg_def takes_next_def)

lemma split_eq_set: "CHR ''='' \<notin> set n \<Longrightarrow> split_eq (n @ CHR ''='' # v) = (n, Some v)"
proof -
  assume "CHR ''='' \<notin> set n"
  then have "takeWhile (\<lambda>c. c \<noteq> CHR ''='') (n @ CHR ''='' # v) = n" by (subst takeWhile_append2) auto
  then show ?thesis by (simp add: split_eq_def)
qed

lemma parseLongArg_set:
  assumes "n \<noteq> []" "hd n \<noteq> CHR ''-''" "CHR ''='' \<notin> set n" "Lookup fs n = Some f" "F_name f = n"
    "F_set f v = None"
  shows "parseLongArg fs (set_arg (n, v)) args = Inr ((n, v), args)"
proof -
  have "hd n \<noteq> CHR ''=''" using assms(1,3) by (cases n) auto
  then show ?thesis
    using assms split_eq_set [OF assms(3), of v]
    by (simp add: parseLongArg_def set_arg_def set_flag_def)
qed

lemma parseArgs_set:
  assumes "\<forall>(n, v)\<in>set as. n \<noteq> [] \<and> hd n \<noteq> CHR ''-'' \<and> CHR ''='' \<notin> set n \<and>
    (\<exists>f. Lookup fs n = Some f \<and> F_name f = n \<and> F_set f v = None)"
  shows "parseArgs fs (map set_arg as) = Inr (as, [])"
  using assms
proof (induction as)
  case (Cons a as)
  obtain n v where a: "a = (n, v)" by force
  obtain f where f: "n \<noteq> []" "hd n \<noteq> CHR ''-''" "CHR ''='' \<notin> set n" "Lookup fs n = Some f" "F_name f = n"
    "F_set f v = None" using Cons.prems a by auto
  have "parseLongArg fs (set_arg (n, v)) (map set_arg as) = Inr ((n, v), map set_arg as)"
    by (rule parseLongArg_set [OF f])
  moreover have "set_arg (n, v) \<noteq> []" "hd (set_arg (n, v)) = CHR ''-''" "length (set_arg (n, v)) > 2"
    "set_arg (n, v) ! 1 = CHR ''-''" using f(1) by (simp_all add: set_arg_def)
  ultimately show ?case using Cons a by simp
qed simp

text \<open>The search for the command of a line that begins with a word.\<close>

lemma innerfind_leaf:
  "stripFlags (flags path) args = [] \<Longrightarrow> innerfind flags path c args = (path, c, args)"
  by (simp add: innerfind.simps)

lemma innerfind_run:
  assumes "findNext ''run'' c = Some (Command ''run'' [])" "stripFlags (flags (path @ [''run''])) args = []"
  shows "innerfind flags path c (''run'' # args) = (path @ [''run''], Command ''run'' [], args)"
proof -
  have "\<not> takes_next (flags path) ''run''" by (rule not_takes_next) simp
  then show ?thesis using assms
    by (subst innerfind.simps) (simp add: innerfind_leaf)
qed

lemma innerfind_unknown:
  assumes "w \<noteq> []" "hd w \<noteq> CHR ''-''" "findNext w c = None"
  shows "innerfind flags path c (w # args) = (path, c, w # args)"
proof -
  have "\<not> takes_next (flags path) w" "w \<noteq> ''--''" using assms(1,2) not_takes_next by auto
  then show ?thesis using assms by (subst innerfind.simps) simp
qed

lemma Find_run:
  assumes "findNext ''run'' c = Some (Command ''run'' [])" "stripFlags (flags [cmd_name c, ''run'']) args = []"
  shows "Find flags c (''run'' # args) = Inr ([cmd_name c, ''run''], Command ''run'' [], args)"
  using innerfind_run [OF assms(1), of flags "[cmd_name c]" args] assms(2)
  by (simp add: Find_def legacyArgs_def)

lemma Find_unknown:
  assumes "w \<noteq> []" "hd w \<noteq> CHR ''-''" "findNext w c = None" "subcommands c \<noteq> []"
  shows "Find flags c (w # args) = Inl (UnknownCommand w)"
proof -
  have "\<not> takes_next (flags [cmd_name c]) w" "w \<noteq> ''--''" using assms(1,2) not_takes_next by auto
  then show ?thesis
    using innerfind_unknown [OF assms(1-3), of flags "[cmd_name c]" args] assms
    by (simp add: Find_def legacyArgs_def)
qed

lemma all_commands_shape:
  obtains x where "x = [] \<or> x = [Command ''__complete'' []]"
    "all_commands flags NewRootCmd args = Command ''cluster-connector''
       ([Command ''version'' [], Command ''run'' [], Command ''help'' []] @ x @ [completion_command])"
proof -
  let ?cs = "[Command ''version'' [], Command ''run'' [], Command ''help'' []]"
  let ?c1 = "Command ''cluster-connector'' ?cs"
  let ?c2 = "Command ''cluster-connector'' [Command ''version'' [], Command ''run'' [], Command ''help'' [], Command ''__complete'' []]"
  let ?c3 = "case Find flags ?c2 args of Inl _ \<Rightarrow> ?c1
    | Inr (_, c, _) \<Rightarrow> if cmd_name c \<noteq> ''__complete'' then ?c1 else ?c2"
  have "all_commands flags NewRootCmd args = with_commands [completion_command] ?c3"
    by (cases "Find flags ?c2 args") (auto simp: all_commands_def NewRootCmd_def with_commands_def Let_def)
  moreover have "?c3 = ?c1 \<or> ?c3 = ?c2" by (cases "Find flags ?c2 args") (auto split: prod.split)
  ultimately show thesis
    using that [of "[]"] that [of "[Command ''__complete'' []]"] by (auto simp: with_commands_def)
qed

lemma find_run_commands:
  "findNext ''run'' (all_commands flags NewRootCmd args) = Some (Command ''run'' [])"
  by (rule all_commands_shape [of flags args]) (simp add: findNext_def aliases_def)

lemma find_unknown_commands:
  assumes "w \<notin> {''version'', ''run'', ''help'', ''completion'', ''__complete'', ''__completeNoDesc''}"
  shows "findNext w (all_commands flags NewRootCmd args) = None"
proof (rule all_commands_shape [of flags args])
  fix x
  assume x: "x = [] \<or> x = [Command ''__complete'' []]"
    and c: "all_commands flags NewRootCmd args = Command ''cluster-connector''
      ([Command ''version'' [], Command ''run'' [], Command ''help'' []] @ x @ [completion_command])"
  have "w \<noteq> ''version''" "w \<noteq> ''run''" "w \<noteq> ''help''" "w \<noteq> ''completion''" "w \<noteq> ''__complete''"
    "w \<noteq> ''__completeNoDesc''" using assms by simp_all
  note n = this this [symmetric]
  have "find (\<lambda>d. cmd_name d = w \<or> w \<in> set (aliases (cmd_name d))) x = None"
    using x n by (elim disjE) (simp_all add: aliases_def)
  then show ?thesis
    unfolding c findNext_def find_None_iff by (auto simp: aliases_def completion_command_def n)
qed

lemma root_of_all:
  "cmd_name (all_commands flags NewRootCmd args) = ''cluster-connector''"
  "subcommands (all_commands flags NewRootCmd args) \<noteq> []"
  by (rule all_commands_shape [of flags args]; simp)+

lemma run_flag_names: "n \<in> set (map F_name NewCmdRun_flags) \<longleftrightarrow>
    n = ''baseURL'' \<or> n = ''link-id'' \<or> n = ''metrics-addr'' \<or> n = ''nats-addr'' \<or>
    n = ''nats-handler-count'' \<or> n = ''nats-credential-file'' \<or> n = ''health-probe-bind-address''"
  by (simp add: NewCmdRun_flags_def StringVar_def IntVar_def)

lemma run_flag_lookup:
  assumes "n \<in> set (map F_name NewCmdRun_flags)" "n = ''nats-handler-count'' \<longrightarrow> (\<exists>k. ParseInt v = Inr k)"
  shows "\<exists>f. Lookup (NewCmdRun_flags @ others) n = Some f \<and> F_name f = n \<and> F_set f v = None"
    "n \<noteq> [] \<and> hd n \<noteq> CHR ''-'' \<and> CHR ''='' \<notin> set n"
proof -
  show "\<exists>f. Lookup (NewCmdRun_flags @ others) n = Some f \<and> F_name f = n \<and> F_set f v = None"
    using assms(1) [unfolded run_flag_names] assms(2)
    by (elim disjE) (simp_all add: Lookup_def NewCmdRun_flags_def StringVar_def IntVar_def,
        auto split: sum.split)
  show "n \<noteq> [] \<and> hd n \<noteq> CHR ''-'' \<and> CHR ''='' \<notin> set n"
    using assms(1) [unfolded run_flag_names] by (elim disjE) simp_all
qed

section \<open>Properties\<close>

text \<open>C18: The command line reaches the connector. For every list of the run command's flags with any
  values (for the number of threads, any text that Go reads as an integer), written as
  \<open>--name=value\<close> after the word \<open>run\<close> in any order, the program runs the connector with exactly these
  values, of several for one flag with the last, and the defaults for the others, whatever the
  values contain and whatever flags libraries add.\<close>

theorem arguments_arrive:
  assumes "\<forall>(n, v)\<in>set as. n \<in> set (map F_name NewCmdRun_flags) \<and>
    (n = ''nats-handler-count'' \<longrightarrow> (\<exists>k. ParseInt v = Inr k))"
  shows "binary_main e m v0 (''run'' # map set_arg as) =
    Connected (starting_line (init_version m v0)) (run_command (BE_run e) (fold set_run_flag as default_flags))"
proof -
  let ?flags = "command_flags e" and ?args = "map set_arg as"
  have f: "?flags run_path = NewCmdRun_flags @ BE_more_flags e run_path" by (simp add: command_flags_def)
  obtain others where others: "InitDefaultHelpFlag (?flags run_path) = NewCmdRun_flags @ others"
    by (metis f InitDefaultHelpFlag_def append_assoc)
  have known: "\<exists>f. Lookup (NewCmdRun_flags @ others) n = Some f \<and> F_name f = n \<and> F_set f v = None"
    "n \<noteq> [] \<and> hd n \<noteq> CHR ''-'' \<and> CHR ''='' \<notin> set n" if "(n, v) \<in> set as" for n v
    using run_flag_lookup(1) [of n v others] run_flag_lookup(2) [of n v] assms that by blast+
  have parse: "parseArgs (InitDefaultHelpFlag (?flags run_path)) ?args = Inr (as, [])"
    unfolding others by (rule parseArgs_set) (use known in blast)
  have "''help'' \<notin> fst ` set as"
    using assms unfolding run_flag_names by fastforce
  then have "map_of (rev as) ''help'' = None" by (simp add: map_of_eq_None_iff)
  then have no_help: "flag_value as ''help'' = None" by (simp add: flag_value_def)
  have "Find ?flags (all_commands ?flags NewRootCmd (''run'' # ?args)) (''run'' # ?args) =
      Inr (run_path, Command ''run'' [], ?args)"
    using Find_run [OF find_run_commands [of ?flags "''run'' # ?args"], of ?flags ?args] stripFlags_set_args
    by (simp add: root_of_all run_path_def)
  then have "ExecuteC Runnable ?flags NewRootCmd (''run'' # ?args) = Ran run_path as []"
    using parse no_help by (simp add: ExecuteC_def execute_def Runnable_def run_path_def)
  then show ?thesis by (simp add: binary_main_def Let_def)
qed

definition sample_binary :: "unit binary_env" where
  "sample_binary = \<lparr>BE_more_flags = \<lambda>_. [StringVar ''cluster-name''],
     BE_NewConstraint = \<lambda>_. Inr (\<lambda>_. True), BE_NewVersion = \<lambda>_. Inr (),
     BE_run = \<lparr>get_config = None, new_manager = \<lambda>_ _. None, cluster_uid = Inl ErrSyntax, new_connection = \<lambda>_ _. Inl ErrSyntax,
       run_pod = \<lparr>getenv = \<lambda>_. [], pod_hostname = [], token_is_file = False, namespace_file = None\<rparr>,
       add_healthz = None, add_readyz = None, add_runnable = \<lambda>_. None, start_manager = \<lambda>_. None\<rparr>\<rparr>"

definition sample_build :: build_info where
  "sample_build = \<lparr>Version = ''v1'', VersionStrategy = [], GitTag = [], GitBranch = [], CommitHash = ''abc'',
     CommitTimestamp = [], GoVersion = [], Compiler = [], Platform = []\<rparr>"

theorem arguments_arrive_witness:
  "binary_main sample_binary sample_build sample_build
     [''run'', ''--nats-addr=nats://h'', ''--link-id=-a=b'', ''--nats-handler-count=0x1_0'', ''--nats-addr=h'',
      ''--nats-credential-file=/c''] =
   Connected ''Starting binary version v1+abc ...'' (run_command (BE_run sample_binary)
     \<lparr>baseURL = [], linkID = ''-a=b'', metricsAddr = '':8080'', natsAddr = ''h'', numThreads = 16,
      natsCredFile = ''/c'', probeAddr = '':8081''\<rparr>)"
proof -
  let ?as = "[(''nats-addr'', ''nats://h''), (''link-id'', ''-a=b''), (''nats-handler-count'', ''0x1_0''),
    (''nats-addr'', ''h''), (''nats-credential-file'', ''/c'')]"
  have n: "ParseInt ''0x1_0'' = Inr 16"
    by (simp add: ParseInt_def base_prefix_def lower_def digit_val_def underscoreOK_def Let_def)
  have "\<forall>(n, v)\<in>set ?as. n \<in> set (map F_name NewCmdRun_flags) \<and>
      (n = ''nats-handler-count'' \<longrightarrow> (\<exists>k. ParseInt v = Inr k))"
    using n unfolding run_flag_names by simp
  from arguments_arrive [OF this, of sample_binary sample_build sample_build] show ?thesis
    by (simp add: set_arg_def set_run_flag_def default_flags_def n starting_line_def init_version_def
        sample_build_def)
qed

text \<open>C35: A word that is no command ends the program. If the first argument is no flag and none of the
  commands, the root's own or cobra's, then whatever follows nothing is run, and the exit code is 1.\<close>

theorem unknown_command_exits:
  assumes "w \<noteq> []" "hd w \<noteq> CHR ''-''"
    "w \<notin> {''version'', ''run'', ''help'', ''completion'', ''__complete'', ''__completeNoDesc''}"
  shows "binary_main e m v0 (w # args) = Usage (UnknownCommand w) \<and> exit_code (binary_main e m v0 (w # args)) = 1"
proof -
  have "ExecuteC Runnable (command_flags e) NewRootCmd (w # args) = Failed (UnknownCommand w)"
    using Find_unknown [OF assms(1,2) find_unknown_commands [OF assms(3)] root_of_all(2)]
    by (simp add: ExecuteC_def)
  then show ?thesis by (simp add: binary_main_def Let_def)
qed

theorem unknown_command_exits_witness:
  "exit_code (binary_main sample_binary sample_build sample_build [''serve'', ''--help'']) = 1"
  using unknown_command_exits [of "''serve''" sample_binary sample_build sample_build "[''--help'']"] by simp

end
