(* ===== verification/Spec2Isabelle.thy ===== *)
theory Spec2Isabelle
  imports ClientProcess LinkLife ProxyServer Binary
begin

text \<open>
  The cluster connector of kubeops, \<open>kubeops.dev/cluster-connector\<close>: a tunnel that carries the
  HTTP requests of Kubernetes API clients over NATS to an agent in the cluster and their responses
  back, and the programs around it.

  \<^bold>\<open>How the parts work together.\<close> An API client gets an HTTP transport from \<open>pkg/transport\<close>
  (directly, or through \<open>pkg/rest\<close>, \<open>pkg/http\<close> or \<open>pkg/clientcmd\<close>). For each request the
  transport serialises the request, wraps it with its TLS options and a timeout into a record,
  and publishes the record on the link's handler subject, with a fresh response subject to answer
  on. The agent (\<open>cmd/cluster-connector run\<close>, \<open>pkg/cmds/run.go\<close>) takes the record from its queue
  subscription, carries the request out against the API server and writes the response into
  messages of about 8 KB on the response subject, of which the last is marked \<open>Done\<close>. A goroutine
  of the client pumps the messages into a pipe from which \<open>net/http\<close> reads the response. At its
  start the agent reports the link to the license server with a callback. The NATS server routes
  subjects between the accounts of the hub and of the edge. A link is made by \<open>pkg/link\<close>: an order
  for the agent's chart with a fresh link id in its values, and the scripts that install it. The
  demo server hands out links and checks the agent's callbacks by asking the cluster for its id
  through the tunnel; the proxy server and the demo client use the tunnel for services and nodes.

  \<^bold>\<open>Theories.\<close>
  \<^item> \<open>Prelude\<close>: types of bytes, errors and durations, the collections of lemmas, and the
    interfaces: \<open>codec\<close> (encode, decode, round trip), \<open>keyed_store\<close> (lookup after update),
    \<open>invariant_machine\<close> (an invariant kept by every step holds in every reachable state).
  \<^item> \<open>GoStd\<close>: what is used of Go's \<open>strings\<close>, \<open>path\<close>, \<open>net\<close> and \<open>time\<close>. \<open>Json\<close>: \<open>encoding/json\<close>
    with UTF-8; \<open>Bufio\<close>: \<open>bufio.Writer\<close>. They stand for the standard library.
  \<^item> \<open>Xid\<close>: identifiers (vendored \<open>rs/xid\<close>). \<open>Shared\<close>: \<open>pkg/shared\<close>, with the locale
    \<open>subject_names\<close>, the contract between the transport and the subject names.
  \<^item> \<open>NatsConn\<close>: the NATS client library as far as its calls are used (vendored \<open>nats.go\<close>): the
    checks before publishing and subscribing, and the header codec.
  \<^item> \<open>TlsConfig\<close>: \<open>pkg/transport/types.go\<close> and the file loading of \<open>transport.go\<close>. \<open>TlsCache\<close>:
    \<open>cache.go\<close> and \<open>New\<close>, a store of shared transports, with \<open>cache_step\<close>, the machine of all
    calls in any order.
  \<^item> \<open>Wire\<close>: the record and the link requests on the wire, with \<open>encoding/base64\<close>.
  \<^item> \<open>NatsTransport\<close>: \<open>nats.go\<close> of \<open>pkg/transport\<close>: timeouts, \<open>RoundTrip\<close> with its pooled buffer,
    \<open>Proxy\<close> in its two halves (\<open>Proxy_send\<close>, and \<open>Proxy_receive\<close> with the pump goroutine),
    \<open>NewConnection\<close>.
  \<^item> \<open>ResponseWriter\<close>: \<open>natsWriter\<close> and the end of a response in \<open>run.go\<close>, an interpretation of
    the locales \<open>io_writer\<close> and \<open>reliable_writer\<close> of \<open>Bufio\<close>. \<open>Agent\<close>: the rest of \<open>run.go\<close>:
    \<open>respond\<close>, the responses of failures, subscribing, the callback, the run command.
  \<^item> \<open>Tunnel\<close>: client and agent together: one exchange, and the client process with many
    requests in flight as the step relation \<open>hub_step\<close>, in which a pump runs at once.
    \<open>ClientProcess\<close>: the same process in small steps (\<open>call_step\<close>, \<open>client_step\<close>), in which pumps,
    the readers of their pipes and senders interleave, and its refinement of the other.
  \<^item> \<open>RestConfig\<close>: \<open>pkg/rest\<close>, \<open>pkg/http\<close>, \<open>pkg/clientcmd\<close>, and the parts of client-go that
    decide what a configuration they return is good for.
  \<^item> \<open>Jsonpatch\<close>: JSON patches (vendored \<open>gomodules.xyz/jsonpatch\<close>): the difference of two documents,
    and the application of patches as its specification. \<open>Link\<close>: \<open>pkg/link\<close> with the values,
    orders and script generators it uses.
  \<^item> \<open>DemoServer\<close>: the handlers of \<open>cmd/demo-server\<close> and their state, with \<open>demo_step\<close>, the server
    as a machine. \<open>NatsClient\<close>: how the demo commands connect, and \<open>cmd/demo-client\<close>. \<open>Router\<close>: the
    router, middlewares and injection the servers are built with (vendored \<open>go-chi\<close> and
    \<open>go.wandrs.dev\<close>), on the radix tree of \<open>tree.go\<close>: \<open>RadixTree\<close> has its operations, \<open>RadixInsert\<close>
    its well-formedness and the table of routes it stands for, \<open>RouteSearch\<close> what is found in it. \<open>DemoMain\<close>: \<open>main\<close> of the demo server. \<open>ProxyServer\<close>: \<open>cmd/proxy-server\<close>.
  \<^item> \<open>LinkLife\<close>: agent and license server together: what the answer to the agent's callback does to
    its run, for any server and for the demo server as its \<open>main\<close> makes it.
  \<^item> \<open>GenDocs\<close>: the command tree of \<open>pkg/cmds/root.go\<close> and the pages \<open>hack/gendocs\<close> makes of it.
    \<open>Cobra\<close>: how a command line is read (vendored \<open>spf13/pflag\<close> and \<open>spf13/cobra\<close>, with the parsing
    of numbers of \<open>strconv\<close>): finding the command, parsing its flags, running it. \<open>Binary\<close>:
    \<open>cmd/cluster-connector\<close>: the version, the flags of the run and version commands, \<open>main\<close> and
    its exit codes.

  \<^bold>\<open>State and effects.\<close> A NATS connection is a record: its status before the \<open>n\<close>-th operation is an
  arbitrary function of \<open>n\<close>, so every theorem about it holds for connections that close, drain or
  refuse messages at any time; it keeps the accepted messages in order and the subscriptions that
  were made and not given up, which are open (\<open>open_subs\<close>) until the connection is closed.
  Transports are shared, so the cache is a store with addresses. Pools (\<open>sync.Pool\<close>) hand out any
  object that was put there: theorems about them quantify over its old content. The two
  goroutines of a request meet only in the pipe; in \<open>NatsTransport\<close> the reader of the pipe is a
  demand for a number of bytes, or for all, in \<open>ClientProcess\<close> a process of its own. Nodes of the radix tree are values;
  an operation rebuilds the way to the node it changes. Errors are values of \<open>go_error\<close>, on the left of a sum. Durations are 64 bit
  words, read as signed; instants are integers in nanoseconds. What \<open>net/http\<close> and \<open>crypto\<close> do
  on the network and with certificates are arguments (records of functions) of the definitions.

  \<^bold>\<open>What the lemmas show.\<close> One exchange over a healthy connection is transparent, and whatever the
  connection does, a response that ends cleanly at the client is the whole response (\<open>Tunnel\<close>,
  resting on \<open>ResponseWriter\<close>, \<open>Bufio\<close>, \<open>NatsTransport\<close>, \<open>Wire\<close>). Requests in flight wait on
  different subjects, and every interleaving of pumps and readers gives what pumps that run alone
  give (\<open>ClientProcess\<close>, resting on \<open>Tunnel\<close>, \<open>Xid\<close> and \<open>Shared\<close>). The cache serves each key the
  transport of its link and options, for ever, and refines a table without addresses (\<open>TlsCache\<close>).
  An order's patch turns the chart's values into those of the link (\<open>Jsonpatch\<close>, \<open>Link\<close>), and the
  demo server's table is what it generated, of which a callback proves the cluster through the
  tunnel of its own link (\<open>DemoServer\<close>, resting on \<open>Link\<close>, \<open>Xid\<close>, \<open>RestConfig\<close>, \<open>TlsCache\<close>). What the agent does with options that
  travel, failures and its start-up (\<open>TlsConfig\<close>, \<open>Agent\<close>); whatever is given on its command line
  arrives in its variables (\<open>Binary\<close>, resting on \<open>Cobra\<close>), and it goes on to serve exactly if its
  callback is answered with success (\<open>LinkLife\<close>, resting on \<open>Agent\<close> and \<open>Wire\<close>). Some theorems state behaviour one
  may not want: unanswered requests are never given up, refused requests keep their subscription,
  a response that is not read to the mark keeps its goroutine, and its subscription until the
  connection is closed or the identifiers repeat,
  and configurations with TLS options are refused by client-go after they were given a transport,
  so the demo client does not work with usual ones; an agent whose callback
  fails ends with code 1, so none runs against the demo server (\<open>LinkLife\<close>), and its callback logs
  nothing (\<open>Agent\<close>); the demo server answers every request with a
  failure (\<open>DemoMain\<close>) and the proxy server forwards none (\<open>ProxyServer\<close>), although their handlers
  are as described. The radix tree stays well formed and refines a table from patterns to endpoints;
  a route that is found was registered for a pattern that matches, one without parameters is found
  before all others, and nothing is found only where no pattern matches strictly
  (\<open>RouteSearch\<close>).

  \<^bold>\<open>Bounds and fuel.\<close> The loops of \<open>bufio\<close> are partial functions that are shown to end for every
  sink that takes what it is given, in at most as many calls as there are bytes. The JSON reader
  has fuel one more than the length of its input; reading a value uses some of the input in each
  recursive call, and the round trip theorems show that it is enough for whatever was written.
  The search for the error in certificate data ends if \<open>pem.Decode\<close> consumes what it decodes
  (\<open>pem_consumes\<close>). Identifiers repeat after \<open>2 ^ 24\<close> calls at the earliest.

  The loops of the command line end since they use up arguments, shorthands or levels of commands.

  \<^bold>\<open>Not modelled.\<close> Generated and vendored code beyond the functions named above; the NATS server.
  Logs other than those of the run command and the callback, the flags that other libraries add to
  the commands and the comparison of versions are arguments or left out; so is what cobra's help and
  completion commands print. Of the router, regular expressions
  and the order of nodes with the same label are arguments. Sending a request is one step of the
  client process. Requests of the demo server are handled one after another; its table of links has no lock.
\<close>

end
